(* ===== verification/Cold_Prelude.thy ===== *)
theory Cold_Prelude
  imports Main "HOL-Library.Word" "HOL-Library.Multiset"
begin

text \<open>
  Shared vocabulary of the development: Python's exception classes and the result type of
  code that can raise, the loops that stop at the first exception, Python dictionaries as
  association lists in insertion order, the string methods the sources call, and the
  block alignment arithmetic every byte layout uses.

  A Python \<^verbatim>\<open>str\<close> is a HOL \<open>string\<close>, so a character is one of the code points
  U+0000 to U+00FF; \<^verbatim>\<open>int\<close> is \<open>int\<close>; \<^verbatim>\<open>bytes\<close> is a list of \<open>8 word\<close>.
\<close>

named_theorems res_simps "equations of the result monad"
named_theorems align_simps "facts about block alignment"
named_theorems raises_intros "which exceptions a computation can raise"

type_synonym byte = "8 word"

section \<open>Exceptions and results\<close>

text \<open>
  One constructor per exception class the sources raise or catch. The argument is the
  fixed text of the message (its interpolated values are left out); a
  \<^verbatim>\<open>PayloadValidationError\<close> carries its \<^verbatim>\<open>reason\<close> field instead.
\<close>

datatype exn =
    ValueError string
  | JSONDecodeError
  | UnicodeDecodeErr
  | TypeErr string
  | AttributeErr string
  | KeyErr string
  | IndexErr
  | AssertionErr
  | StructErr
  | RuntimeErr string
  | MemoryCapabilityError string
  | GraphMemoryError string
  | ArtifactError string
  | HydrationError string
  | PayloadValidationError string
  | CheckpointResourceError string
  | VllmContractError string
  | CoordinatorError string
  | CoordinatorNotFound string
  | OSErr string
  | FileNotFoundErr
  | FileExistsErr
  | TimeoutErr string
  | PermissionErr string
  | ConnectionErr string

text \<open>Membership in the base classes that \<^verbatim>\<open>except\<close> clauses name.\<close>

fun is_value_error :: "exn \<Rightarrow> bool" where
  "is_value_error (ValueError _) = True"
| "is_value_error JSONDecodeError = True"
| "is_value_error UnicodeDecodeErr = True"
| "is_value_error _ = False"

fun is_runtime_error :: "exn \<Rightarrow> bool" where
  "is_runtime_error (RuntimeErr _) = True"
| "is_runtime_error (MemoryCapabilityError _) = True"
| "is_runtime_error (GraphMemoryError _) = True"
| "is_runtime_error (ArtifactError _) = True"
| "is_runtime_error (HydrationError _) = True"
| "is_runtime_error (PayloadValidationError _) = True"
| "is_runtime_error (CheckpointResourceError _) = True"
| "is_runtime_error (VllmContractError _) = True"
| "is_runtime_error (CoordinatorError _) = True"
| "is_runtime_error (CoordinatorNotFound _) = True"
| "is_runtime_error _ = False"

fun is_os_error :: "exn \<Rightarrow> bool" where
  "is_os_error (OSErr _) = True"
| "is_os_error FileNotFoundErr = True"
| "is_os_error FileExistsErr = True"
| "is_os_error (TimeoutErr _) = True"
| "is_os_error (PermissionErr _) = True"
| "is_os_error (ConnectionErr _) = True"
| "is_os_error _ = False"

type_synonym 'a res = "exn + 'a"

definition bind_res :: "'a res \<Rightarrow> ('a \<Rightarrow> 'b res) \<Rightarrow> 'b res" where
  "bind_res r f = (case r of Inl e \<Rightarrow> Inl e | Inr x \<Rightarrow> f x)"

text \<open>\<open>catch_res r h\<close> is \<^verbatim>\<open>try: r except ...: h\<close>; the handler re-raises what it does not catch.\<close>

definition catch_res :: "'a res \<Rightarrow> (exn \<Rightarrow> 'a res) \<Rightarrow> 'a res" where
  "catch_res r h = (case r of Inl e \<Rightarrow> h e | Inr x \<Rightarrow> Inr x)"

definition opt_res :: "exn \<Rightarrow> 'a option \<Rightarrow> 'a res" where
  "opt_res e v = (case v of None \<Rightarrow> Inl e | Some x \<Rightarrow> Inr x)"

text \<open>Loops over a list that stop at the first exception.\<close>

fun traverse :: "('a \<Rightarrow> 'b res) \<Rightarrow> 'a list \<Rightarrow> 'b list res" where
  "traverse f [] = Inr []"
| "traverse f (x # xs) = bind_res (f x) (\<lambda>y. bind_res (traverse f xs) (\<lambda>ys. Inr (y # ys)))"

fun fold_res :: "('s \<Rightarrow> 'a \<Rightarrow> 's res) \<Rightarrow> 's \<Rightarrow> 'a list \<Rightarrow> 's res" where
  "fold_res f s [] = Inr s"
| "fold_res f s (x # xs) = bind_res (f s x) (\<lambda>t. fold_res f t xs)"

fun each_res :: "('a \<Rightarrow> unit res) \<Rightarrow> 'a list \<Rightarrow> unit res" where
  "each_res f [] = Inr ()"
| "each_res f (x # xs) = bind_res (f x) (\<lambda>_. each_res f xs)"

section \<open>Dictionaries\<close>

type_synonym ('k, 'v) dict = "('k \<times> 'v) list"

text \<open>
  A dictionary lists its items in insertion order with distinct keys: assigning to a
  present key keeps its place.
\<close>

fun dict_put :: "'k \<Rightarrow> 'v \<Rightarrow> ('k, 'v) dict \<Rightarrow> ('k, 'v) dict" where
  "dict_put k v [] = [(k, v)]"
| "dict_put k v ((k', v') # d) = (if k' = k then (k, v) # d else (k', v') # dict_put k v d)"

abbreviation dict_get :: "('k, 'v) dict \<Rightarrow> 'k \<Rightarrow> 'v option" where
  "dict_get d k \<equiv> map_of d k"

definition dict_keys :: "('k, 'v) dict \<Rightarrow> 'k list" where
  "dict_keys d = map fst d"

definition dict_ok :: "('k, 'v) dict \<Rightarrow> bool" where
  "dict_ok d = distinct (dict_keys d)"

definition dict_of :: "('k \<times> 'v) list \<Rightarrow> ('k, 'v) dict" where
  "dict_of kvs = fold (\<lambda>(k, v) d. dict_put k v d) kvs []"

section \<open>Strings\<close>

abbreviation code :: "char \<Rightarrow> nat" where
  "code c \<equiv> of_char c"

definition is_space :: "char \<Rightarrow> bool" where
  "is_space c = (let n = code c in 9 \<le> n \<and> n \<le> 13 \<or> 28 \<le> n \<and> n \<le> 32 \<or> n = 133 \<or> n = 160)"

definition is_digit :: "char \<Rightarrow> bool" where
  "is_digit c = (48 \<le> code c \<and> code c \<le> 57)"

definition lower_char :: "char \<Rightarrow> char" where
  "lower_char c =
     (let n = code c in
      if 65 \<le> n \<and> n \<le> 90 \<or> 192 \<le> n \<and> n \<le> 222 \<and> n \<noteq> 215 then char_of (n + 32) else c)"

definition py_lower :: "string \<Rightarrow> string" where
  "py_lower s = map lower_char s"

definition py_strip :: "string \<Rightarrow> string" where
  "py_strip s = rev (dropWhile is_space (rev (dropWhile is_space s)))"

definition starts_with :: "string \<Rightarrow> string \<Rightarrow> bool" where
  "starts_with s p = (take (length p) s = p)"

definition ends_with :: "string \<Rightarrow> string \<Rightarrow> bool" where
  "ends_with s p = (length p \<le> length s \<and> drop (length s - length p) s = p)"

definition remove_prefix :: "string \<Rightarrow> string \<Rightarrow> string" where
  "remove_prefix s p = (if starts_with s p then drop (length p) s else s)"

text \<open>\<open>split_on c s\<close> is \<^verbatim>\<open>s.split(c)\<close>; \<open>split_ws s\<close> is \<^verbatim>\<open>s.split()\<close>.\<close>

fun split_on :: "char \<Rightarrow> string \<Rightarrow> string list" where
  "split_on c [] = [[]]"
| "split_on c (x # xs) =
     (if x = c then [] # split_on c xs
      else (case split_on c xs of [] \<Rightarrow> [[x]] | w # ws \<Rightarrow> (x # w) # ws))"

fun split_ws_from :: "string \<Rightarrow> string \<Rightarrow> string list" where
  "split_ws_from w [] = (if w = [] then [] else [rev w])"
| "split_ws_from w (c # s) =
     (if is_space c then (if w = [] then split_ws_from [] s else rev w # split_ws_from [] s)
      else split_ws_from (c # w) s)"

definition split_ws :: "string \<Rightarrow> string list" where
  "split_ws s = split_ws_from [] s"

definition join_str :: "string \<Rightarrow> string list \<Rightarrow> string" where
  "join_str sep ws = (case ws of [] \<Rightarrow> [] | v # vs \<Rightarrow> v @ concat (map (\<lambda>x. sep @ x) vs))"

text \<open>Decimal text of an integer, \<^verbatim>\<open>str(i)\<close>, and its inverse \<^verbatim>\<open>int(s)\<close>.\<close>

definition digit_char :: "nat \<Rightarrow> char" where
  "digit_char d = char_of (48 + d)"

definition digit_val :: "char \<Rightarrow> nat" where
  "digit_val c = code c - 48"

fun nat_digits :: "nat \<Rightarrow> string" where
  "nat_digits n = (if n < 10 then [digit_char n] else nat_digits (n div 10) @ [digit_char (n mod 10)])"

declare nat_digits.simps [simp del]

definition digits_val :: "string \<Rightarrow> nat" where
  "digits_val s = foldl (\<lambda>a c. 10 * a + digit_val c) 0 s"

definition str_int :: "int \<Rightarrow> string" where
  "str_int i = (if i < 0 then CHR ''-'' # nat_digits (nat (- i)) else nat_digits (nat i))"

text \<open>
  \<^verbatim>\<open>int(s)\<close> strips white space, takes one sign, and allows single underscores between
  digits; \<open>None\<close> is the \<^verbatim>\<open>ValueError\<close>.
\<close>

fun int_digits :: "bool \<Rightarrow> string \<Rightarrow> string option" where
  "int_digits prev [] = (if prev then Some [] else None)"
| "int_digits prev (c # s) =
     (if is_digit c then map_option ((#) c) (int_digits True s)
      else if c = CHR ''_'' \<and> prev then int_digits False s
      else None)"

definition py_int :: "string \<Rightarrow> int option" where
  "py_int s =
     (let t = py_strip s;
          neg = (case t of c # _ \<Rightarrow> c = CHR ''-'' | [] \<Rightarrow> False);
          sgn = (case t of c # _ \<Rightarrow> c = CHR ''-'' \<or> c = CHR ''+'' | [] \<Rightarrow> False);
          body = (if sgn then tl t else t)
      in map_option (\<lambda>ds. (if neg then - int (digits_val ds) else int (digits_val ds)))
           (int_digits False body))"

text \<open>
  \<open>hex_bytes s\<close> is \<^verbatim>\<open>bytes.fromhex(s)\<close>: pairs of hexadecimal digits, with ASCII white
  space allowed between the pairs.
\<close>

definition hex_val :: "char \<Rightarrow> nat option" where
  "hex_val c =
     (let n = code c in
      if 48 \<le> n \<and> n \<le> 57 then Some (n - 48)
      else if 97 \<le> n \<and> n \<le> 102 then Some (n - 87)
      else if 65 \<le> n \<and> n \<le> 70 then Some (n - 55)
      else None)"

definition is_ascii_space :: "char \<Rightarrow> bool" where
  "is_ascii_space c = (let n = code c in n = 32 \<or> 9 \<le> n \<and> n \<le> 13)"

fun hex_bytes :: "string \<Rightarrow> byte list option" where
  "hex_bytes [] = Some []"
| "hex_bytes [c] = (if is_ascii_space c then Some [] else None)"
| "hex_bytes (c # d # s) =
     (if is_ascii_space c then hex_bytes (d # s)
      else (case (hex_val c, hex_val d) of
              (Some h, Some l) \<Rightarrow> map_option ((#) (of_nat (16 * h + l))) (hex_bytes s)
            | _ \<Rightarrow> None))"

text \<open>\<open>py_int16 s\<close> is \<^verbatim>\<open>int(s, 16)\<close>: white space around, a sign, a \<^verbatim>\<open>0x\<close> prefix, single underscores.\<close>

fun hex_int_digits :: "bool \<Rightarrow> string \<Rightarrow> nat list option" where
  "hex_int_digits prev [] = (if prev then Some [] else None)"
| "hex_int_digits prev (c # s) =
     (case hex_val c of
        Some v \<Rightarrow> map_option ((#) v) (hex_int_digits True s)
      | None \<Rightarrow> if c = CHR ''_'' \<and> prev then hex_int_digits False s else None)"

definition py_int16 :: "string \<Rightarrow> int option" where
  "py_int16 s =
     (let t = py_strip s;
          neg = (case t of c # _ \<Rightarrow> c = CHR ''-'' | [] \<Rightarrow> False);
          sgn = (case t of c # _ \<Rightarrow> c = CHR ''-'' \<or> c = CHR ''+'' | [] \<Rightarrow> False);
          body = (if sgn then tl t else t);
          pre = (starts_with body ''0x'' \<or> starts_with body ''0X'');
          body' = (if pre then drop 2 body else body);
          digits = (case body' of
             c # u \<Rightarrow> if pre \<and> c = CHR ''_'' then hex_int_digits False u else hex_int_digits False body'
           | [] \<Rightarrow> None)
      in map_option (\<lambda>ds. let n = foldl (\<lambda>a d. 16 * a + d) 0 ds in if neg then - int n else int n) digits)"

definition hex_digit :: "nat \<Rightarrow> char" where
  "hex_digit d = (if d < 10 then char_of (48 + d) else char_of (87 + d))"

text \<open>\<open>bytes_hex\<close> is \<^verbatim>\<open>bytes.hex()\<close>.\<close>

definition bytes_hex :: "byte list \<Rightarrow> string" where
  "bytes_hex bs = concat (map (\<lambda>b. [hex_digit (unat b div 16), hex_digit (unat b mod 16)]) bs)"

definition is_lower_hex :: "string \<Rightarrow> bool" where
  "is_lower_hex s = list_all (\<lambda>c. is_digit c \<or> 97 \<le> code c \<and> code c \<le> 102) s"

text \<open>\<^verbatim>\<open>s.replace(old, new)\<close> for a non-empty \<open>old\<close>, and \<^verbatim>\<open>s.rstrip(c)\<close> for one character.\<close>

function py_replace :: "string \<Rightarrow> string \<Rightarrow> string \<Rightarrow> string" where
  "py_replace old new [] = []"
| "py_replace old new (c # s) =
     (if old \<noteq> [] \<and> starts_with (c # s) old then new @ py_replace old new (drop (length old) (c # s))
      else c # py_replace old new s)"
  by pat_completeness auto
termination by (relation "measure (\<lambda>(_, _, s). length s)") auto

definition rstrip_char :: "char \<Rightarrow> string \<Rightarrow> string" where
  "rstrip_char c s = rev (dropWhile ((=) c) (rev s))"

section \<open>Paths\<close>

text \<open>\<^verbatim>\<open>os.path.normpath\<close> and \<^verbatim>\<open>os.path.abspath\<close>.\<close>

definition norm_component :: "bool \<Rightarrow> string list \<Rightarrow> string \<Rightarrow> string list" where
  "norm_component rooted acc c =
     (if c = [] \<or> c = ''.'' then acc
      else if c \<noteq> ''..'' \<or> (\<not> rooted \<and> acc = []) \<or> (acc \<noteq> [] \<and> last acc = ''..'') then acc @ [c]
      else if acc \<noteq> [] then butlast acc
      else acc)"

definition normpath :: "string \<Rightarrow> string" where
  "normpath path =
     (if path = [] then ''.''
      else let slashes = (if starts_with path ''//'' \<and> \<not> starts_with path ''///'' then ''//''
                          else if starts_with path ''/'' then ''/'' else []);
               comps = foldl (norm_component (slashes \<noteq> [])) [] (split_on CHR ''/'' path);
               text = slashes @ join_str ''/'' comps
           in if text = [] then ''.'' else text)"

definition abspath :: "string \<Rightarrow> string \<Rightarrow> string" where
  "abspath cwd path =
     normpath (if starts_with path ''/'' then path
               else if cwd = [] \<or> ends_with cwd ''/'' then cwd @ path
               else cwd @ ''/'' @ path)"

section \<open>Alignment\<close>

definition align_up :: "int \<Rightarrow> int \<Rightarrow> int" where
  "align_up v a = (v + a - 1) div a * a"

section \<open>Facts about results\<close>

lemma bind_res_Inl [simp, res_simps]: "bind_res (Inl e) f = Inl e"
  by (simp add: bind_res_def)

lemma bind_res_Inr [simp, res_simps]: "bind_res (Inr x) f = f x"
  by (simp add: bind_res_def)

lemma bind_res_eq_Inr [simp, res_simps]:
  "(bind_res r f = Inr y) \<longleftrightarrow> (\<exists>x. r = Inr x \<and> f x = Inr y)"
  by (cases r) auto

lemma bind_res_eq_Inl [res_simps]:
  "(bind_res r f = Inl e) \<longleftrightarrow> (r = Inl e \<or> (\<exists>x. r = Inr x \<and> f x = Inl e))"
  by (cases r) auto

lemma bind_res_assoc: "bind_res (bind_res r f) g = bind_res r (\<lambda>x. bind_res (f x) g)"
  by (cases r) simp_all

lemma catch_res_simps [simp, res_simps]:
  "catch_res (Inl e) h = h e" "catch_res (Inr x) h = Inr x"
  by (simp_all add: catch_res_def)

lemma opt_res_simps [simp, res_simps]:
  "opt_res e None = Inl e" "opt_res e (Some x) = Inr x"
  by (simp_all add: opt_res_def)

lemma opt_res_eq_Inr [simp]: "(opt_res e v = Inr x) \<longleftrightarrow> v = Some x"
  by (cases v) simp_all

lemma traverse_eq_Inr: "(traverse f xs = Inr ys) \<longleftrightarrow> list_all2 (\<lambda>x y. f x = Inr y) xs ys"
  by (induction xs arbitrary: ys) (auto simp: list_all2_Cons1)

lemma traverse_length: "traverse f xs = Inr ys \<Longrightarrow> length ys = length xs"
  by (auto simp: traverse_eq_Inr dest: list_all2_lengthD)

lemma traverse_map: "(\<And>x. x \<in> set xs \<Longrightarrow> f x = Inr (g x)) \<Longrightarrow> traverse f xs = Inr (map g xs)"
  by (induction xs) simp_all

lemma each_res_eq_Inr [simp]: "(each_res f xs = Inr u) \<longleftrightarrow> (\<forall>x \<in> set xs. f x = Inr ())"
  by (induction xs) auto

lemma fold_res_append: "fold_res f s (xs @ ys) = bind_res (fold_res f s xs) (\<lambda>t. fold_res f t ys)"
  by (induction xs arbitrary: s) (simp_all add: bind_res_assoc)

text \<open>A loop keeps an invariant that every successful iteration keeps.\<close>

lemma fold_res_invariant:
  assumes "fold_res f s xs = Inr t" and "I s"
    and "\<And>s x t. I s \<Longrightarrow> x \<in> set xs \<Longrightarrow> f s x = Inr t \<Longrightarrow> I t"
  shows "I t"
  using assms
proof (induction xs arbitrary: s)
  case (Cons x xs)
  from Cons.prems(1) obtain u where u: "f s x = Inr u" "fold_res f u xs = Inr t" by auto
  have "I u" using Cons.prems(3) [OF Cons.prems(2) _ u(1)] by simp
  then show ?case by (rule Cons.IH [OF u(2)]) (rule Cons.prems(3), auto)
qed simp

text \<open>The same with the list of items already consumed in the invariant.\<close>

lemma fold_res_prefix_invariant:
  assumes "fold_res f s xs = Inr t" and "I [] s"
    and "\<And>ys x s t. I ys s \<Longrightarrow> x \<in> set xs \<Longrightarrow> f s x = Inr t \<Longrightarrow> I (ys @ [x]) t"
  shows "I xs t"
proof -
  have "I (ys @ xs) t" if "I ys s" for ys
    using assms(1,3) that
  proof (induction xs arbitrary: s ys)
    case (Cons x xs)
    from Cons.prems(1) obtain u where u: "f s x = Inr u" "fold_res f u xs = Inr t" by auto
    have "I (ys @ [x]) u" using Cons.prems(2) [OF Cons.prems(3) _ u(1)] by simp
    then have "I ((ys @ [x]) @ xs) t"
      by (intro Cons.IH [OF u(2)]) (rule Cons.prems(2), auto)
    then show ?case by simp
  qed simp
  from this [OF assms(2)] show ?thesis by simp
qed

section \<open>Facts about dictionaries\<close>

lemma dict_get_put [simp]: "dict_get (dict_put k v d) = (dict_get d)(k \<mapsto> v)"
  by (induction d) (auto simp: fun_eq_iff)

lemma set_keys_put [simp]: "fst ` set (dict_put k v d) = insert k (fst ` set d)"
  by (induction d rule: dict_put.induct) (simp_all add: insert_commute)

lemma dict_ok_put [simp]: "dict_ok d \<Longrightarrow> dict_ok (dict_put k v d)"
proof (induction d)
  case Nil
  then show ?case by (simp add: dict_ok_def dict_keys_def)
next
  case (Cons p d)
  then show ?case
    by (cases p) (auto simp: dict_ok_def dict_keys_def)
qed

lemma dict_ok_Nil [simp]: "dict_ok []"
  by (simp add: dict_ok_def dict_keys_def)

lemma dict_put_fresh: "k \<notin> fst ` set d \<Longrightarrow> dict_put k v d = d @ [(k, v)]"
  by (induction d) auto

lemma dict_get_iff: "dict_ok d \<Longrightarrow> dict_get d k = Some v \<longleftrightarrow> (k, v) \<in> set d"
  by (simp add: dict_ok_def dict_keys_def)

lemma dict_of_distinct: "dict_ok kvs \<Longrightarrow> dict_of kvs = kvs"
proof -
  have "fold (\<lambda>(k, v) d. dict_put k v d) kvs d = d @ kvs" if "dict_ok (d @ kvs)" for d
    using that
  proof (induction kvs arbitrary: d)
    case (Cons p kvs)
    obtain k v where p: "p = (k, v)" by force
    from Cons.prems have "k \<notin> fst ` set d" by (auto simp: dict_ok_def dict_keys_def p)
    then have "dict_put k v d = d @ [(k, v)]" by (rule dict_put_fresh)
    with Cons.IH [of "d @ [(k, v)]"] Cons.prems show ?case by (simp add: p)
  qed simp
  from this [of "[]"] show "dict_ok kvs \<Longrightarrow> dict_of kvs = kvs" by (simp add: dict_of_def)
qed

section \<open>Facts about text\<close>

lemma code_char_of: "n < 256 \<Longrightarrow> code (char_of n) = n"
  by simp

lemma is_digit_char [simp]: "d < 10 \<Longrightarrow> is_digit (digit_char d)"
  by (simp add: is_digit_def digit_char_def)

lemma digit_val_char [simp]: "d < 10 \<Longrightarrow> digit_val (digit_char d) = d"
  by (simp add: digit_val_def digit_char_def)

lemma nat_digits_neq_Nil [simp]: "nat_digits n \<noteq> []"
  by (subst nat_digits.simps) simp

lemma nat_digits_all_digits: "list_all is_digit (nat_digits n)"
proof (induction n rule: nat_digits.induct)
  case (1 n)
  then show ?case by (subst nat_digits.simps) simp
qed

lemma digits_val_snoc: "digits_val (s @ [c]) = 10 * digits_val s + digit_val c"
  by (simp add: digits_val_def)

lemma digits_val_nat_digits [simp]: "digits_val (nat_digits n) = n"
proof (induction n rule: nat_digits.induct)
  case (1 n)
  show ?case
  proof (cases "n < 10")
    case True
    then show ?thesis by (subst nat_digits.simps) (simp add: digits_val_def)
  next
    case False
    with 1 show ?thesis by (subst nat_digits.simps) (simp add: digits_val_snoc)
  qed
qed

lemma nat_digits_inj: "nat_digits m = nat_digits n \<Longrightarrow> m = n"
  by (metis digits_val_nat_digits)

text \<open>No leading zero, except for zero itself: the JSON grammar's integers.\<close>

lemma nat_digits_hd: "hd (nat_digits n) = CHR ''0'' \<Longrightarrow> n = 0"
proof (induction n rule: nat_digits.induct)
  case (1 n)
  show ?case
  proof (cases "n < 10")
    case True
    from "1.prems" True have "digit_char n = CHR ''0''" by (subst (asm) nat_digits.simps) simp
    then have "digit_val (digit_char n) = digit_val CHR ''0''" by (rule arg_cong)
    with True show ?thesis by (simp only: digit_val_char) (simp add: digit_val_def)
  next
    case False
    have "hd (nat_digits n) = hd (nat_digits (n div 10))"
      using False by (subst nat_digits.simps) (simp add: hd_append)
    with "1.IH" False "1.prems" have "n div 10 = 0" by simp
    with False show ?thesis by simp
  qed
qed

lemma nat_digits_zero: "nat_digits 0 = ''0''"
  by (subst nat_digits.simps) (simp add: digit_char_def char_of_def bit_0)

lemma nat_digits_hd_digit: "is_digit (hd (nat_digits n))" "is_digit (last (nat_digits n))"
  using nat_digits_all_digits [of n] by (simp_all add: list_all_iff)

lemma nat_digits_hd_neq [simp]: "\<not> is_digit c \<Longrightarrow> hd (nat_digits n) \<noteq> c"
  using nat_digits_hd_digit(1) by metis

lemma nat_digits_neq_Cons [simp]: "\<not> is_digit c \<Longrightarrow> c # s \<noteq> nat_digits n"
  by (metis list.sel(1) nat_digits_hd_neq)

lemma is_digit_sign [simp]: "\<not> is_digit CHR ''-''" "\<not> is_digit CHR ''+''"
  by (simp_all add: is_digit_def)

lemma str_int_inj: "str_int i = str_int j \<Longrightarrow> i = j"
  by (auto simp: str_int_def split: if_splits dest!: nat_digits_inj)
    (metis is_digit_sign(1) nat_digits_neq_Cons)+

lemma is_digit_not_space [simp]: "is_digit c \<Longrightarrow> \<not> is_space c"
  by (auto simp: is_digit_def is_space_def Let_def)

lemma int_digits_all: "list_all is_digit s \<Longrightarrow> s \<noteq> [] \<or> prev \<Longrightarrow> int_digits prev s = Some s"
  by (induction s arbitrary: prev) auto

lemma py_strip_id:
  assumes "s \<noteq> []" and "\<not> is_space (hd s)" and "\<not> is_space (last s)"
  shows "py_strip s = s"
proof -
  have "dropWhile is_space s = s" using assms by (cases s) auto
  moreover have "dropWhile is_space (rev s) = rev s"
    using assms(1,3) by (cases "rev s") (auto simp: last_rev hd_rev [symmetric])
  ultimately show ?thesis by (simp add: py_strip_def)
qed

text \<open>\<^verbatim>\<open>int(str(i)) == i\<close>.\<close>

lemma py_int_str_int [simp]: "py_int (str_int i) = Some i"
proof -
  note ends = nat_digits_hd_digit [THEN is_digit_not_space]
  have body: "int_digits False (nat_digits n) = Some (nat_digits n)" for n
    by (simp add: int_digits_all nat_digits_all_digits)
  show ?thesis
  proof (cases "i < 0")
    case True
    have "py_strip (str_int i) = str_int i"
      using ends(2) by (intro py_strip_id) (simp_all add: True str_int_def is_space_def)
    with True show ?thesis by (simp add: py_int_def Let_def str_int_def body)
  next
    case False
    have strip: "py_strip (nat_digits (nat i)) = nat_digits (nat i)"
      using ends by (intro py_strip_id) simp_all
    obtain c s where cs: "nat_digits (nat i) = c # s" by (cases "nat_digits (nat i)") auto
    have "c \<noteq> CHR ''-''" "c \<noteq> CHR ''+''"
      using nat_digits_hd_digit(1) [of "nat i"] cs by auto
    moreover have "digits_val (c # s) = nat i" using digits_val_nat_digits [of "nat i"] cs by simp
    ultimately show ?thesis
      using False body [of "nat i"] strip by (simp add: py_int_def Let_def str_int_def cs)
  qed
qed

section \<open>Facts about alignment\<close>

lemma align_up_ge [align_simps]: "0 < a \<Longrightarrow> v \<le> align_up v a"
proof -
  assume a: "0 < a"
  have "v + a - 1 = (v + a - 1) div a * a + (v + a - 1) mod a" by simp
  moreover have "(v + a - 1) mod a < a" using a by simp
  ultimately show ?thesis unfolding align_up_def by linarith
qed

lemma align_up_less [align_simps]: "0 < a \<Longrightarrow> align_up v a < v + a"
proof -
  assume a: "0 < a"
  have "v + a - 1 = (v + a - 1) div a * a + (v + a - 1) mod a" by simp
  moreover have "0 \<le> (v + a - 1) mod a" using a by simp
  ultimately show ?thesis unfolding align_up_def by linarith
qed

lemma align_up_dvd [align_simps]: "a dvd align_up v a"
  by (simp add: align_up_def)

lemma align_up_least: "0 < a \<Longrightarrow> a dvd w \<Longrightarrow> v \<le> w \<Longrightarrow> align_up v a \<le> w"
proof -
  assume a: "0 < a" and d: "a dvd w" and le: "v \<le> w"
  obtain k where k: "w = a * k" using d by (auto elim: dvdE)
  obtain j where j: "align_up v a = a * j" using align_up_dvd by (metis dvdE)
  have "a * j < a * k + a" using align_up_less [OF a, of v] le j k by linarith
  then have "a * j < a * (k + 1)" by (simp add: distrib_left)
  then have "j < k + 1" using a by simp
  then have "j \<le> k" by simp
  then show ?thesis using a j k by simp
qed

lemma align_up_id: "0 < a \<Longrightarrow> a dvd v \<Longrightarrow> align_up v a = v"
  using align_up_ge align_up_least by (metis antisym order_refl)

section \<open>Hexadecimal text\<close>

lemma hex_digit_val [simp]: "d < 16 \<Longrightarrow> hex_val (hex_digit d) = Some d"
  by (auto simp: hex_val_def hex_digit_def code_char_of)

lemma hex_digit_lower [simp]: "d < 16 \<Longrightarrow> lower_char (hex_digit d) = hex_digit d"
  by (auto simp: lower_char_def hex_digit_def code_char_of Let_def)

lemma hex_digit_not_space [simp]:
  "d < 16 \<Longrightarrow> \<not> is_ascii_space (hex_digit d)" "d < 16 \<Longrightarrow> \<not> is_space (hex_digit d)"
  by (auto simp: is_ascii_space_def is_space_def hex_digit_def code_char_of Let_def)

lemma hex_digit_is_lower_hex [simp]: "d < 16 \<Longrightarrow> is_lower_hex [hex_digit d]"
  by (auto simp: is_lower_hex_def is_digit_def hex_digit_def code_char_of)

lemma byte_nibbles: "unat (b :: byte) div 16 < 16" "unat b mod 16 < 16"
  using unsigned_less [of b, where 'a = nat] by simp_all

lemma hex_bytes_bytes_hex [simp]: "hex_bytes (bytes_hex bs) = Some bs"
proof (induction bs)
  case (Cons b bs)
  have "16 * (unat b div 16) + unat b mod 16 = unat b" by simp
  with Cons show ?case by (simp add: bytes_hex_def byte_nibbles)
qed (simp add: bytes_hex_def)

lemma length_bytes_hex [simp]: "length (bytes_hex bs) = 2 * length bs"
  by (induction bs) (simp_all add: bytes_hex_def)

lemma py_lower_bytes_hex [simp]: "py_lower (bytes_hex bs) = bytes_hex bs"
  by (induction bs) (simp_all add: bytes_hex_def py_lower_def byte_nibbles)

lemma bytes_hex_is_lower_hex: "is_lower_hex (bytes_hex bs)"
proof (induction bs)
  case (Cons b bs)
  then show ?case
    using hex_digit_is_lower_hex [OF byte_nibbles(1) [of b]] hex_digit_is_lower_hex [OF byte_nibbles(2) [of b]]
    by (simp add: bytes_hex_def is_lower_hex_def)
qed (simp add: bytes_hex_def is_lower_hex_def)

lemma py_strip_no_space: "list_all (\<lambda>c. \<not> is_space c) s \<Longrightarrow> py_strip s = s"
proof (cases "s = []")
  case False
  assume "list_all (\<lambda>c. \<not> is_space c) s"
  then have "\<not> is_space (hd s)" "\<not> is_space (last s)" using False by (auto simp: list_all_iff)
  with False show ?thesis by (simp add: py_strip_id)
qed (simp add: py_strip_def)

lemma hex_int_digits_map:
  "list_all (\<lambda>d. d < 16) ds \<Longrightarrow> ds \<noteq> [] \<or> prev \<Longrightarrow> hex_int_digits prev (map hex_digit ds) = Some ds"
  by (induction ds arbitrary: prev) auto

lemma py_int16_hex:
  assumes "list_all (\<lambda>d. d < 16) ds" "ds \<noteq> []"
  shows "py_int16 (map hex_digit ds) = Some (int (foldl (\<lambda>a d. 16 * a + d) 0 ds))"
proof -
  let ?s = "map hex_digit ds"
  have hv: "list_all (\<lambda>c. hex_val c \<noteq> None) ?s" using assms(1) by (simp add: list_all_iff)
  obtain c t where s: "?s = c # t" using assms(2) by (cases ds) auto
  have "c \<noteq> CHR ''-''" "c \<noteq> CHR ''+''" using hv s by (auto simp: hex_val_def)
  moreover have "\<not> starts_with ?s ''0x''" "\<not> starts_with ?s ''0X''"
    using hv unfolding s by (cases t; auto simp: starts_with_def hex_val_def)+
  moreover have "py_strip ?s = ?s"
    using assms(1) by (intro py_strip_no_space) (simp add: list_all_iff)
  moreover have "hex_int_digits False ?s = Some ds" using assms by (intro hex_int_digits_map) auto
  ultimately show ?thesis by (simp add: py_int16_def s [symmetric], simp add: s)
qed

text \<open>A loop runs to its end when every iteration succeeds from what the earlier ones establish.\<close>

lemma fold_res_total:
  assumes "I [] s"
    and "\<And>ys x zs s. xs = ys @ x # zs \<Longrightarrow> I ys s \<Longrightarrow> \<exists>t. f s x = Inr t \<and> I (ys @ [x]) t"
  shows "\<exists>t. fold_res f s xs = Inr t \<and> I xs t"
proof -
  have "\<exists>t. fold_res f s zs = Inr t \<and> I (ys @ zs) t" if "I ys s" "xs = ys @ zs" for ys zs s
    using that
  proof (induction zs arbitrary: ys s)
    case (Cons x zs)
    then obtain t where "f s x = Inr t" "I (ys @ [x]) t" using assms(2) by blast
    with Cons.IH [of "ys @ [x]" t] Cons.prems(2) show ?case by simp
  qed simp
  from this [of "[]" s xs] assms(1) show ?thesis by simp
qed

section \<open>Exceptions a computation can raise\<close>

definition raises_only :: "(exn \<Rightarrow> bool) \<Rightarrow> 'a res \<Rightarrow> bool" where
  "raises_only P r \<longleftrightarrow> (\<forall>e. r = Inl e \<longrightarrow> P e)"

lemma raises_only_Inr [raises_intros]: "raises_only P (Inr x)"
  by (simp add: raises_only_def)

lemma raises_only_Inl [raises_intros]: "P e \<Longrightarrow> raises_only P (Inl e)"
  by (simp add: raises_only_def)

lemma raises_only_bind [raises_intros]:
  "raises_only P r \<Longrightarrow> (\<And>x. raises_only P (f x)) \<Longrightarrow> raises_only P (bind_res r f)"
  by (cases r) (auto simp: raises_only_def)

lemma raises_only_if [raises_intros]:
  "raises_only P r \<Longrightarrow> raises_only P s \<Longrightarrow> raises_only P (if b then r else s)"
  by simp

lemma raises_only_traverse [raises_intros]:
  "(\<And>x. raises_only P (f x)) \<Longrightarrow> raises_only P (traverse f xs)"
  by (induction xs) (auto intro: raises_only_bind raises_only_Inr)

lemma raises_only_fold [raises_intros]:
  "(\<And>s x. raises_only P (f s x)) \<Longrightarrow> raises_only P (fold_res f s xs)"
  by (induction xs arbitrary: s) (auto intro: raises_only_bind raises_only_Inr)

lemma raises_only_opt [raises_intros]: "P e \<Longrightarrow> raises_only P (opt_res e v)"
  by (cases v) (auto simp: raises_only_def)

end
