(* ===== verification/Cold_Json.thy ===== *)
theory Cold_Json
  imports Complex_Main Cold_Prelude "HOL-Library.Char_ord" "HOL-Library.List_Lexorder"
    "HOL-Library.Product_Lexorder"
begin

text \<open>
  Python values as \<^verbatim>\<open>json.loads\<close> returns them and the two directions of the \<^verbatim>\<open>json\<close>
  module, as the sources use it: \<^verbatim>\<open>json.dumps\<close> with \<^verbatim>\<open>sort_keys=True\<close>, compact
  separators and \<^verbatim>\<open>ensure_ascii=True\<close> (the canonical form every digest is taken of), and
  \<^verbatim>\<open>json.loads\<close>. The main result is that reading the canonical text of a value gives the
  value back with its keys sorted, from which canonical text determines the value.

  The digest and the conversion between floats and decimal text are arguments of the
  model, in the record \<open>pylib\<close>: theorems hold for every choice of them.
\<close>

section \<open>Values\<close>

datatype pyfloat = FFinite rat | FNaN | FInf | FNegInf

datatype json =
    JNull
  | JBool bool
  | JInt int
  | JFloat pyfloat
  | JStr string
  | JList "json list"
  | JObj "(string \<times> json) list"

record pylib =
  lib_sha256 :: "byte list \<Rightarrow> byte list"
  lib_float_repr :: "rat \<Rightarrow> string"
  lib_float_parse :: "string \<Rightarrow> pyfloat"

text \<open>\<^verbatim>\<open>hashlib.sha256(data).hexdigest()\<close>\<close>

definition sha256_hex :: "pylib \<Rightarrow> byte list \<Rightarrow> string" where
  "sha256_hex L bs = bytes_hex (lib_sha256 L bs)"

definition ascii_bytes :: "string \<Rightarrow> byte list" where
  "ascii_bytes s = map (\<lambda>c. of_nat (code c)) s"

fun is_obj :: "json \<Rightarrow> bool" where
  "is_obj (JObj _) = True"
| "is_obj _ = False"

fun is_str :: "json \<Rightarrow> bool" where
  "is_str (JStr _) = True"
| "is_str _ = False"

fun is_list :: "json \<Rightarrow> bool" where
  "is_list (JList _) = True"
| "is_list _ = False"

text \<open>\<^verbatim>\<open>isinstance(v, int)\<close> holds of booleans too.\<close>

fun is_int :: "json \<Rightarrow> bool" where
  "is_int (JInt _) = True"
| "is_int (JBool _) = True"
| "is_int _ = False"

text \<open>\<open>jget v k\<close> is \<^verbatim>\<open>v.get(k)\<close> of a dictionary, with \<open>None\<close> for a missing key.\<close>

fun jget :: "json \<Rightarrow> string \<Rightarrow> json option" where
  "jget (JObj kvs) k = dict_get kvs k"
| "jget _ k = None"

text \<open>\<open>jget_none\<close> is \<^verbatim>\<open>v.get(k)\<close> where a missing key gives Python's \<^verbatim>\<open>None\<close>.\<close>

definition jget_none :: "json \<Rightarrow> string \<Rightarrow> json" where
  "jget_none v k = (case jget v k of None \<Rightarrow> JNull | Some w \<Rightarrow> w)"

lemma size_list_elem [termination_simp]:
  fixes v :: json
  shows "v \<in> set xs \<Longrightarrow> size v < Suc (size_list size xs)"
  by (induction xs) auto

lemma size_obj_elem [termination_simp]:
  fixes kvs :: "(string \<times> json) list"
  shows "p \<in> set kvs \<Longrightarrow> size (snd p) < Suc (size_list (size_prod (\<lambda>_. 0) size) kvs)"
  by (induction kvs) (auto split: prod.splits)

text \<open>
  Python's \<^verbatim>\<open>==\<close>: booleans and numbers compare by value, dictionaries without regard to
  order, and NaN equals nothing.
\<close>

fun num_val :: "json \<Rightarrow> rat option" where
  "num_val (JBool b) = Some (if b then 1 else 0)"
| "num_val (JInt i) = Some (of_int i)"
| "num_val (JFloat (FFinite q)) = Some q"
| "num_val _ = None"

function py_eq :: "json \<Rightarrow> json \<Rightarrow> bool" where
  "py_eq v w =
     (case (v, w) of
        (JNull, JNull) \<Rightarrow> True
      | (JStr s, JStr t) \<Rightarrow> s = t
      | (JFloat FInf, JFloat FInf) \<Rightarrow> True
      | (JFloat FNegInf, JFloat FNegInf) \<Rightarrow> True
      | (JList xs, JList ys) \<Rightarrow>
          length xs = length ys \<and> (\<forall>p \<in> set (zip xs ys). py_eq (fst p) (snd p))
      | (JObj xs, JObj ys) \<Rightarrow>
          length xs = length ys \<and>
          (\<forall>p \<in> set xs. case dict_get ys (fst p) of None \<Rightarrow> False | Some u \<Rightarrow> py_eq (snd p) u)
      | _ \<Rightarrow> (case num_val v of None \<Rightarrow> False
              | Some a \<Rightarrow> (case num_val w of None \<Rightarrow> False | Some b \<Rightarrow> a = b)))"
  by pat_completeness auto
termination
proof (relation "measure (\<lambda>(v, w). size v)", goal_cases)
  case (2 v w x y xs ys p)
  then have "fst p \<in> set xs" by (metis in_set_zipE prod.collapse)
  with 2 show ?case using size_list_elem [of "fst p" xs] by (cases p) auto
next
  case (3 v w x y xs ys p u)
  then show ?case using size_obj_elem [of p xs] by auto
qed auto

declare py_eq.simps [simp del]

section \<open>Writing\<close>

definition hex4 :: "nat \<Rightarrow> string" where
  "hex4 n = [hex_digit (n div 4096 mod 16), hex_digit (n div 256 mod 16),
             hex_digit (n div 16 mod 16), hex_digit (n mod 16)]"

definition esc_char :: "char \<Rightarrow> string" where
  "esc_char c =
     (if c = CHR 0x22 then [CHR 0x5C, CHR 0x22]
      else if c = CHR 0x5C then [CHR 0x5C, CHR 0x5C]
      else if c = CHR 0x0A then [CHR 0x5C, CHR ''n'']
      else if c = CHR 0x0D then [CHR 0x5C, CHR ''r'']
      else if c = CHR 0x09 then [CHR 0x5C, CHR ''t'']
      else if c = CHR 0x0C then [CHR 0x5C, CHR ''f'']
      else if c = CHR 0x08 then [CHR 0x5C, CHR ''b'']
      else if 32 \<le> code c \<and> code c \<le> 126 then [c]
      else CHR 0x5C # CHR ''u'' # hex4 (code c))"

definition print_str :: "string \<Rightarrow> string" where
  "print_str s = CHR 0x22 # concat (map esc_char s) @ [CHR 0x22]"

fun print_float :: "pylib \<Rightarrow> pyfloat \<Rightarrow> string" where
  "print_float L (FFinite q) = lib_float_repr L q"
| "print_float L FNaN = ''NaN''"
| "print_float L FInf = ''Infinity''"
| "print_float L FNegInf = ''-Infinity''"

function json_text :: "pylib \<Rightarrow> json \<Rightarrow> string" where
  "json_text L JNull = ''null''"
| "json_text L (JBool b) = (if b then ''true'' else ''false'')"
| "json_text L (JInt i) = str_int i"
| "json_text L (JFloat f) = print_float L f"
| "json_text L (JStr s) = print_str s"
| "json_text L (JList xs) = ''['' @ join_str '','' (map (json_text L) xs) @ '']''"
| "json_text L (JObj kvs) =
     ''{'' @ join_str '',''
       (map (\<lambda>p. print_str (fst p) @ '':'' @ json_text L (snd p)) (sort_key fst kvs)) @ ''}''"
  by pat_completeness auto
termination
  by (relation "measure (\<lambda>(L, v). size v)") (auto dest: size_list_elem size_obj_elem)

fun has_nonfinite :: "json \<Rightarrow> bool" where
  "has_nonfinite (JFloat (FFinite q)) = False"
| "has_nonfinite (JFloat f) = True"
| "has_nonfinite (JList xs) = (\<exists>x \<in> set xs. has_nonfinite x)"
| "has_nonfinite (JObj kvs) = (\<exists>p \<in> set kvs. has_nonfinite (snd p))"
| "has_nonfinite _ = False"

definition json_dumps :: "pylib \<Rightarrow> bool \<Rightarrow> json \<Rightarrow> string res" where
  "json_dumps L allow_nan v =
     (if \<not> allow_nan \<and> has_nonfinite v
      then Inl (ValueError ''Out of range float values are not JSON compliant'')
      else Inr (json_text L v))"

section \<open>Reading\<close>

definition is_json_ws :: "char \<Rightarrow> bool" where
  "is_json_ws c \<longleftrightarrow> c = CHR 0x20 \<or> c = CHR 0x09 \<or> c = CHR 0x0A \<or> c = CHR 0x0D"

definition skip_ws :: "string \<Rightarrow> string" where
  "skip_ws s = dropWhile is_json_ws s"

definition simple_escape :: "char \<Rightarrow> char option" where
  "simple_escape c =
     (if c = CHR 0x22 \<or> c = CHR 0x5C \<or> c = CHR ''/'' then Some c
      else if c = CHR ''n'' then Some CHR 0x0A
      else if c = CHR ''r'' then Some CHR 0x0D
      else if c = CHR ''t'' then Some CHR 0x09
      else if c = CHR ''f'' then Some CHR 0x0C
      else if c = CHR ''b'' then Some CHR 0x08
      else None)"

text \<open>
  The body of a string after its opening quote. Characters are the code points below 256,
  so an escape of a larger one is not a value of the model.
\<close>

definition hex4_char :: "char \<Rightarrow> char \<Rightarrow> char \<Rightarrow> char \<Rightarrow> char option" where
  "hex4_char a b c d =
     (case (hex_val a, hex_val b, hex_val c, hex_val d) of
        (Some p, Some q, Some r, Some t) \<Rightarrow>
          (if 256 \<le> p * 4096 + q * 256 + r * 16 + t then None
           else Some (char_of (p * 4096 + q * 256 + r * 16 + t)))
      | _ \<Rightarrow> None)"

fun scan_str :: "string \<Rightarrow> (string \<times> string) option" where
  "scan_str [] = None"
| "scan_str (c # s) =
     (if c = CHR 0x22 then Some ([], s)
      else if c = CHR 0x5C then
        (case s of
           [] \<Rightarrow> None
         | e # t \<Rightarrow>
             if e = CHR ''u'' then
               (case t of
                  a # b # d # f # u \<Rightarrow>
                    (case hex4_char a b d f of
                       None \<Rightarrow> None
                     | Some x \<Rightarrow> map_option (\<lambda>(y, z). (x # y, z)) (scan_str u))
                | _ \<Rightarrow> None)
             else
               (case simple_escape e of
                  None \<Rightarrow> None
                | Some x \<Rightarrow> map_option (\<lambda>(y, z). (x # y, z)) (scan_str t)))
      else if code c < 32 then None
      else map_option (\<lambda>(y, z). (c # y, z)) (scan_str s))"

text \<open>
  Numbers follow the scanner's expression \<^verbatim>\<open>-?(0|[1-9][0-9]*)(\\.[0-9]+)?([eE][-+]?[0-9]+)?\<close>;
  the result is the matched text, whether it has a fraction or an exponent, and the rest.
\<close>

definition scan_int :: "string \<Rightarrow> (string \<times> string) option" where
  "scan_int s =
     (case s of
        [] \<Rightarrow> None
      | c # t \<Rightarrow>
          if c = CHR ''0'' then Some ([c], t)
          else if is_digit c then Some (c # takeWhile is_digit t, dropWhile is_digit t)
          else None)"

definition scan_frac :: "string \<Rightarrow> string \<times> string" where
  "scan_frac s =
     (case s of
        c # d # t \<Rightarrow>
          if c = CHR ''.'' \<and> is_digit d
          then (c # d # takeWhile is_digit t, dropWhile is_digit t) else ([], s)
      | _ \<Rightarrow> ([], s))"

definition scan_exp_digits :: "string \<Rightarrow> string \<Rightarrow> string \<Rightarrow> string \<times> string" where
  "scan_exp_digits whole pre s =
     (if takeWhile is_digit s = [] then ([], whole)
      else (pre @ takeWhile is_digit s, dropWhile is_digit s))"

definition scan_exp :: "string \<Rightarrow> string \<times> string" where
  "scan_exp s =
     (case s of
        c # t \<Rightarrow>
          if c = CHR ''e'' \<or> c = CHR ''E'' then
            (case t of
               d # u \<Rightarrow>
                 if d = CHR ''-'' \<or> d = CHR ''+'' then scan_exp_digits s [c, d] u
                 else scan_exp_digits s [c] t
             | [] \<Rightarrow> ([], s))
          else ([], s)
      | [] \<Rightarrow> ([], s))"

definition scan_num :: "string \<Rightarrow> (string \<times> bool \<times> string) option" where
  "scan_num s =
     (let neg = (s \<noteq> [] \<and> hd s = CHR ''-''); body = (if neg then tl s else s) in
      case scan_int body of
        None \<Rightarrow> None
      | Some (i, r) \<Rightarrow>
          (let (f, r') = scan_frac r; (e, r'') = scan_exp r' in
           Some ((if neg then ''-'' else []) @ i @ f @ e, f \<noteq> [] \<or> e \<noteq> [], r'')))"

definition int_of_token :: "string \<Rightarrow> int" where
  "int_of_token s =
     (if s \<noteq> [] \<and> hd s = CHR ''-'' then - int (digits_val (tl s)) else int (digits_val s))"

definition scan_scalar :: "pylib \<Rightarrow> string \<Rightarrow> (json \<times> string) option" where
  "scan_scalar L s =
     (if starts_with s ''null'' then Some (JNull, drop 4 s)
      else if starts_with s ''true'' then Some (JBool True, drop 4 s)
      else if starts_with s ''false'' then Some (JBool False, drop 5 s)
      else case scan_num s of
        Some (tok, is_float, r) \<Rightarrow>
          Some (if is_float then JFloat (lib_float_parse L tok) else JInt (int_of_token tok), r)
      | None \<Rightarrow>
          if starts_with s ''NaN'' then Some (JFloat FNaN, drop 3 s)
          else if starts_with s ''Infinity'' then Some (JFloat FInf, drop 8 s)
          else if starts_with s ''-Infinity'' then Some (JFloat FNegInf, drop 9 s)
          else None)"

text \<open>
  The recursive scanner. Fuel bounds the depth of calls, and at every second call the text is
  shorter, so twice its length is enough: \<open>scan_fuel\<close> below proves that more changes nothing.
\<close>

fun scan_value :: "pylib \<Rightarrow> nat \<Rightarrow> string \<Rightarrow> (json \<times> string) option"
  and scan_items :: "pylib \<Rightarrow> nat \<Rightarrow> string \<Rightarrow> (json list \<times> string) option"
  and scan_members :: "pylib \<Rightarrow> nat \<Rightarrow> string \<Rightarrow> ((string \<times> json) list \<times> string) option" where
  "scan_value L 0 s = None"
| "scan_value L (Suc n) s =
     (case s of
        [] \<Rightarrow> None
      | c # t \<Rightarrow>
          if c = CHR 0x22 then map_option (\<lambda>(x, r). (JStr x, r)) (scan_str t)
          else if c = CHR ''{'' then
            (case skip_ws t of
               [] \<Rightarrow> None
             | d # u \<Rightarrow>
                 if d = CHR ''}'' then Some (JObj [], u)
                 else map_option (\<lambda>(m, r). (JObj (dict_of m), r)) (scan_members L n (d # u)))
          else if c = CHR ''['' then
            (case skip_ws t of
               [] \<Rightarrow> None
             | d # u \<Rightarrow>
                 if d = CHR '']'' then Some (JList [], u)
                 else map_option (\<lambda>(xs, r). (JList xs, r)) (scan_items L n (d # u)))
          else scan_scalar L s)"
| "scan_items L 0 s = None"
| "scan_items L (Suc n) s =
     (case scan_value L n s of
        None \<Rightarrow> None
      | Some (x, r) \<Rightarrow>
          (case skip_ws r of
             [] \<Rightarrow> None
           | d # u \<Rightarrow>
               if d = CHR '']'' then Some ([x], u)
               else if d = CHR '','' then
                 map_option (\<lambda>(xs, r'). (x # xs, r')) (scan_items L n (skip_ws u))
               else None))"
| "scan_members L 0 s = None"
| "scan_members L (Suc n) s =
     (case s of
        [] \<Rightarrow> None
      | c # t \<Rightarrow>
          if c \<noteq> CHR 0x22 then None
          else
            (case scan_str t of
               None \<Rightarrow> None
             | Some (k, r) \<Rightarrow>
                 (case skip_ws r of
                    [] \<Rightarrow> None
                  | d # u \<Rightarrow>
                      if d \<noteq> CHR '':'' then None
                      else
                        (case scan_value L n (skip_ws u) of
                           None \<Rightarrow> None
                         | Some (v, r') \<Rightarrow>
                             (case skip_ws r' of
                                [] \<Rightarrow> None
                              | e # w \<Rightarrow>
                                  if e = CHR ''}'' then Some ([(k, v)], w)
                                  else if e = CHR '','' then
                                    map_option (\<lambda>(m, q). ((k, v) # m, q))
                                      (scan_members L n (skip_ws w))
                                  else None)))))"

definition json_loads :: "pylib \<Rightarrow> string \<Rightarrow> json res" where
  "json_loads L s =
     (case scan_value L (Suc (2 * length s)) (skip_ws s) of
        None \<Rightarrow> Inl JSONDecodeError
      | Some (v, r) \<Rightarrow> if skip_ws r = [] then Inr v else Inl JSONDecodeError)"

text \<open>
  The canonical form of a value: the order of dictionary keys that \<^verbatim>\<open>sort_keys=True\<close> gives.
\<close>

function json_norm :: "json \<Rightarrow> json" where
  "json_norm JNull = JNull"
| "json_norm (JBool b) = JBool b"
| "json_norm (JInt i) = JInt i"
| "json_norm (JFloat f) = JFloat f"
| "json_norm (JStr s) = JStr s"
| "json_norm (JList xs) = JList (map json_norm xs)"
| "json_norm (JObj kvs) = JObj (map (\<lambda>p. (fst p, json_norm (snd p))) (sort_key fst kvs))"
  by pat_completeness auto
termination
  by (relation "measure size") (auto dest: size_list_elem size_obj_elem)

text \<open>
  The values Python can hold: a dictionary has each key once.
\<close>

fun json_ok :: "json \<Rightarrow> bool" where
  "json_ok (JList xs) = (\<forall>x \<in> set xs. json_ok x)"
| "json_ok (JObj kvs) = (dict_ok kvs \<and> (\<forall>p \<in> set kvs. json_ok (snd p)))"
| "json_ok _ = True"

fun readable :: "pylib \<Rightarrow> json \<Rightarrow> bool" where
  "readable L (JFloat (FFinite q)) =
     (scan_num (lib_float_repr L q) = Some (lib_float_repr L q, True, []) \<and>
      lib_float_parse L (lib_float_repr L q) = FFinite q)"
| "readable L (JList xs) = (\<forall>x \<in> set xs. readable L x)"
| "readable L (JObj kvs) = (\<forall>p \<in> set kvs. readable L (snd p))"
| "readable L _ = True"

definition num_end :: "string \<Rightarrow> bool" where
  "num_end r \<longleftrightarrow> r = [] \<or> hd r = CHR '','' \<or> hd r = CHR '']'' \<or> hd r = CHR ''}'' \<or> is_json_ws (hd r)"

section \<open>Scanning what was printed\<close>

lemma skip_ws_id [simp]: "\<not> is_json_ws c \<Longrightarrow> skip_ws (c # s) = c # s"
  by (simp add: skip_ws_def)

lemma skip_ws_Nil [simp]: "skip_ws [] = []"
  by (simp add: skip_ws_def)

lemma length_skip_ws: "length (skip_ws s) \<le> length s"
  by (simp add: skip_ws_def length_dropWhile_le)

lemma json_ws_simps [simp]:
  "\<not> is_json_ws CHR ''['' " "\<not> is_json_ws CHR '']''" "\<not> is_json_ws CHR ''{''"
  "\<not> is_json_ws CHR ''}''" "\<not> is_json_ws CHR '',''" "\<not> is_json_ws CHR '':''"
  "\<not> is_json_ws CHR 0x22"
  by (simp_all add: is_json_ws_def)

lemma hex4_char_hex4:
  "n < 256 \<Longrightarrow>
   hex4_char (hex_digit (n div 4096 mod 16)) (hex_digit (n div 256 mod 16))
     (hex_digit (n div 16 mod 16)) (hex_digit (n mod 16)) = Some (char_of n)"
  by (simp add: hex4_char_def)

lemma scan_str_u:
  "scan_str (CHR 0x5C # CHR ''u'' # hex4 (code c) @ s) =
   map_option (\<lambda>(y, z). (c # y, z)) (scan_str s)"
proof -
  have "code c < 256" by simp
  note * = hex4_char_hex4 [OF this]
  show ?thesis unfolding hex4_def append_Cons append_Nil
    by (subst scan_str.simps) (simp only: list.case option.case * if_True refl char.inject, simp)
qed

lemma scan_str_esc: "scan_str (esc_char c @ s) = map_option (\<lambda>(y, z). (c # y, z)) (scan_str s)"
  unfolding esc_char_def
  by (simp only: scan_str_u append_Cons append_Nil split: if_splits)
    (simp add: simple_escape_def)

lemma scan_str_print: "scan_str (concat (map esc_char s) @ CHR 0x22 # r) = Some (s, r)"
  by (induction s) (simp_all add: scan_str_esc)

lemma num_end_digit: "num_end r \<Longrightarrow> takeWhile is_digit r = [] \<and> dropWhile is_digit r = r"
  by (cases r) (auto simp: num_end_def is_digit_def is_json_ws_def)

lemma takeWhile_end: "num_end r \<Longrightarrow> takeWhile is_digit (s @ r) = takeWhile is_digit s"
  by (induction s) (auto simp: num_end_digit)

lemma dropWhile_end: "num_end r \<Longrightarrow> dropWhile is_digit (s @ r) = dropWhile is_digit s @ r"
  by (induction s) (auto simp: num_end_digit)

lemma scan_int_append:
  "num_end r \<Longrightarrow> scan_int s = Some (i, u) \<Longrightarrow> scan_int (s @ r) = Some (i, u @ r)"
  by (auto simp: scan_int_def takeWhile_end dropWhile_end split: list.splits if_splits)

lemma num_end_hd:
  "num_end (c # r) \<Longrightarrow> c = CHR '','' \<or> c = CHR '']'' \<or> c = CHR ''}'' \<or>
     c = CHR 0x20 \<or> c = CHR 0x09 \<or> c = CHR 0x0A \<or> c = CHR 0x0D"
  by (simp add: num_end_def is_json_ws_def)

lemma scan_frac_append:
  assumes "num_end r" shows "scan_frac (s @ r) = (fst (scan_frac s), snd (scan_frac s) @ r)"
proof (cases s)
  case Nil
  with assms show ?thesis by (auto simp: scan_frac_def dest!: num_end_hd split: list.splits)
next
  case (Cons c t)
  with assms show ?thesis
    by (cases t)
      (auto simp: scan_frac_def takeWhile_end dropWhile_end is_digit_def dest!: num_end_hd
        split: list.splits)
qed

lemma scan_exp_append:
  assumes "num_end r" shows "scan_exp (s @ r) = (fst (scan_exp s), snd (scan_exp s) @ r)"
proof (cases s)
  case Nil
  with assms show ?thesis by (auto simp: scan_exp_def dest!: num_end_hd split: list.splits)
next
  case (Cons c t)
  show ?thesis
  proof (cases t)
    case Nil
    with assms Cons show ?thesis
      by (cases r)
        (auto simp: scan_exp_def scan_exp_digits_def is_digit_def dest!: num_end_hd)
  next
    case (Cons d u)
    with assms \<open>s = c # t\<close> show ?thesis
      by (auto simp: scan_exp_def scan_exp_digits_def takeWhile_end dropWhile_end)
  qed
qed

lemma scan_num_append:
  assumes "num_end r" "scan_num s = Some (tok, f, u)"
  shows "scan_num (s @ r) = Some (tok, f, u @ r)"
proof -
  have ne: "s \<noteq> []" using assms(2) by (auto simp: scan_num_def scan_int_def)
  define neg where "neg = (hd s = CHR ''-'')"
  define body where "body = (if neg then tl s else s)"
  have body: "(if neg then tl (s @ r) else s @ r) = body @ r" using ne by (simp add: body_def)
  obtain i v where i: "scan_int body = Some (i, v)"
    using assms(2) ne
    by (auto simp: scan_num_def Let_def body_def neg_def split: option.splits)
  show ?thesis using assms(2) ne i body
    by (auto simp: scan_num_def Let_def scan_int_append [OF assms(1) i] neg_def body_def [symmetric]
        scan_frac_append [OF assms(1)] scan_exp_append [OF assms(1)] split: prod.splits)
qed

lemma scan_int_digits:
  assumes "list_all is_digit s" "s \<noteq> []" "hd s = CHR ''0'' \<longrightarrow> s = ''0''"
  shows "scan_int s = Some (s, [])"
proof -
  have "takeWhile is_digit t = t \<and> dropWhile is_digit t = []" if "list_all is_digit t" for t
    using that by (induction t) auto
  with assms show ?thesis by (cases s) (auto simp: scan_int_def)
qed

lemma scan_int_nat: "scan_int (nat_digits n) = Some (nat_digits n, [])"
proof (rule scan_int_digits)
  show "hd (nat_digits n) = CHR ''0'' \<longrightarrow> nat_digits n = ''0''"
    using nat_digits_hd [of n] nat_digits_zero by auto
qed (simp_all add: nat_digits_all_digits)

lemma scan_num_str_int: "scan_num (str_int i) = Some (str_int i, False, [])"
proof -
  have "scan_frac [] = ([], [])" "scan_exp [] = ([], [])"
    by (simp_all add: scan_frac_def scan_exp_def)
  then show ?thesis by (simp add: scan_num_def str_int_def scan_int_nat)
qed

lemma int_of_token_str_int [simp]: "int_of_token (str_int i) = i"
  by (simp add: int_of_token_def str_int_def)

lemma scan_num_hd:
  "scan_num s = Some x \<Longrightarrow> \<exists>c t. s = c # t \<and> (c = CHR ''-'' \<or> is_digit c)"
  by (cases s) (auto simp: scan_num_def scan_int_def Let_def is_digit_def split: if_splits)

lemma scan_value_scalar:
  "c \<noteq> CHR 0x22 \<Longrightarrow> c \<noteq> CHR ''{'' \<Longrightarrow> c \<noteq> CHR ''['' \<Longrightarrow>
   scan_value L (Suc n) (c # t) = scan_scalar L (c # t)"
  by simp

lemma scan_value_num:
  assumes "scan_num s = Some (tok, f, r)"
  shows "scan_value L (Suc n) s =
    Some (if f then JFloat (lib_float_parse L tok) else JInt (int_of_token tok), r)"
proof -
  obtain c t where s: "s = c # t" and c: "c = CHR ''-'' \<or> is_digit c"
    using scan_num_hd [OF assms] by auto
  have "scan_value L (Suc n) s = scan_scalar L s"
    using c by (auto simp: s is_digit_def)
  also have "\<dots> = Some (if f then JFloat (lib_float_parse L tok) else JInt (int_of_token tok), r)"
    using c assms by (auto simp: s scan_scalar_def starts_with_def is_digit_def)
  finally show ?thesis .
qed

lemma json_text_hd:
  assumes "readable L v"
  shows "\<exists>c t. json_text L v = c # t \<and> \<not> is_json_ws c \<and> c \<noteq> CHR '']'' \<and> c \<noteq> CHR ''}''"
proof -
  have num: ?thesis if "scan_num (json_text L v) = Some x" for x
    using scan_num_hd [OF that] by (auto simp: is_json_ws_def is_digit_def)
  show ?thesis
  proof (cases v)
    case (JInt i)
    with num scan_num_str_int show ?thesis by simp
  next
    case (JFloat f)
    with num assms show ?thesis by (cases f) (auto simp: is_json_ws_def)
  qed (auto simp: is_json_ws_def print_str_def)
qed

lemma join_str_Cons2: "join_str sep (v # w # ws) = v @ sep @ join_str sep (w # ws)"
  by (simp add: join_str_def)

lemma join_str_single [simp]: "join_str sep [v] = v" "join_str sep [] = []"
  by (simp_all add: join_str_def)

lemma num_end_sep [simp]: "num_end (CHR '','' # r)" "num_end (CHR '']'' # r)" "num_end (CHR ''}'' # r)" "num_end []"
  by (simp_all add: num_end_def)

lemma scan_items_join:
  assumes "xs \<noteq> []"
    and "\<And>x m r. x \<in> set xs \<Longrightarrow> num_end r \<Longrightarrow> length (json_text L x) \<le> m \<Longrightarrow>
           scan_value L m (json_text L x @ r) = Some (json_norm x, r)"
    and "\<And>x. x \<in> set xs \<Longrightarrow> readable L x"
    and "length (join_str '','' (map (json_text L) xs)) < n"
  shows "scan_items L n (join_str '','' (map (json_text L) xs) @ CHR '']'' # r) =
    Some (map json_norm xs, r)"
  using assms
proof (induction xs arbitrary: n rule: induct_list012)
  case (2 x)
  then obtain m where n: "n = Suc m" by (cases n) auto
  with 2 show ?case by simp
next
  case (3 x y zs)
  obtain m where n: "n = Suc m" using 3(6) by (cases n) auto
  obtain c t where y: "json_text L y = c # t" "\<not> is_json_ws c"
    using json_text_hd [OF 3(5) [of y]] by auto
  have len: "length (json_text L x) \<le> m" "length (join_str '','' (map (json_text L) (y # zs))) < m"
    using 3(6) by (simp_all add: n join_str_Cons2)
  have "\<exists>u. join_str '','' (map (json_text L) (y # zs)) = c # u"
    using y by (simp add: join_str_def)
  then have ws: "skip_ws (join_str '','' (map (json_text L) (y # zs)) @ s) =
      join_str '','' (map (json_text L) (y # zs)) @ s" for s
    using y(2) by auto
  have "scan_items L m (join_str '','' (map (json_text L) (y # zs)) @ CHR '']'' # r) =
      Some (map json_norm (y # zs), r)"
    by (rule 3(2)) (use 3(4,5) len in auto)
  then show ?case
    using 3(4) [of x "CHR '','' # join_str '','' (map (json_text L) (y # zs)) @ CHR '']'' # r" m] len ws
    by (simp add: n join_str_Cons2)
qed simp

lemma scan_members_join:
  assumes "kvs \<noteq> []"
    and "\<And>p m r. p \<in> set kvs \<Longrightarrow> num_end r \<Longrightarrow> length (json_text L (snd p)) \<le> m \<Longrightarrow>
           scan_value L m (json_text L (snd p) @ r) = Some (json_norm (snd p), r)"
    and "\<And>p. p \<in> set kvs \<Longrightarrow> readable L (snd p)"
    and "length (join_str '','' (map (\<lambda>p. print_str (fst p) @ '':'' @ json_text L (snd p)) kvs)) < n"
  shows "scan_members L n
     (join_str '','' (map (\<lambda>p. print_str (fst p) @ '':'' @ json_text L (snd p)) kvs) @ CHR ''}'' # r) =
    Some (map (\<lambda>p. (fst p, json_norm (snd p))) kvs, r)"
  using assms
proof (induction kvs arbitrary: n rule: induct_list012)
  case (2 p)
  then obtain m where n: "n = Suc m" by (cases n) auto
  obtain c t where v: "json_text L (snd p) = c # t" "\<not> is_json_ws c"
    using json_text_hd [OF 2(3) [of p]] by auto
  have "scan_value L m (json_text L (snd p) @ CHR ''}'' # r) = Some (json_norm (snd p), CHR ''}'' # r)"
    by (rule 2(2)) (use 2(4) in \<open>simp_all add: n print_str_def\<close>)
  then show ?case using v by (simp add: n print_str_def scan_str_print)
next
  case (3 p q zs)
  let ?J = "join_str '','' (map (\<lambda>p. print_str (fst p) @ '':'' @ json_text L (snd p)) (q # zs))"
  obtain m where n: "n = Suc m" using 3(6) by (cases n) auto
  obtain c t where v: "json_text L (snd p) = c # t" "\<not> is_json_ws c"
    using json_text_hd [OF 3(5) [of p]] by auto
  have len: "length (json_text L (snd p)) \<le> m" "length ?J < m"
    using 3(6) by (simp_all add: n join_str_Cons2 print_str_def)
  have ws: "skip_ws (?J @ s) = ?J @ s" for s by (simp add: join_str_def print_str_def)
  have "scan_members L m (?J @ CHR ''}'' # r) =
      Some (map (\<lambda>p. (fst p, json_norm (snd p))) (q # zs), r)"
    by (rule 3(2)) (use 3(4,5) len in auto)
  then show ?case
    using 3(4) [of p "CHR '','' # ?J @ CHR ''}'' # r" m] len ws v
    by (simp add: n join_str_Cons2 print_str_def scan_str_print)
qed simp

lemma dict_ok_norm:
  "dict_ok kvs \<Longrightarrow> dict_ok (map (\<lambda>p. (fst p, json_norm (snd p))) (sort_key fst kvs))"
proof -
  assume "dict_ok kvs"
  then have "distinct (map fst (sort_key fst kvs))"
    by (simp add: dict_ok_def dict_keys_def distinct_map)
  then show ?thesis by (simp add: dict_ok_def dict_keys_def comp_def)
qed

lemma scan_value_lit:
  "0 < n \<Longrightarrow> scan_value L n (''null'' @ r) = Some (JNull, r)"
  "0 < n \<Longrightarrow> scan_value L n (''true'' @ r) = Some (JBool True, r)"
  "0 < n \<Longrightarrow> scan_value L n (''false'' @ r) = Some (JBool False, r)"
  "0 < n \<Longrightarrow> scan_value L n (''NaN'' @ r) = Some (JFloat FNaN, r)"
  "0 < n \<Longrightarrow> scan_value L n (''Infinity'' @ r) = Some (JFloat FInf, r)"
  "0 < n \<Longrightarrow> scan_value L n (''-Infinity'' @ r) = Some (JFloat FNegInf, r)"
  by (cases n, simp_all add: scan_scalar_def starts_with_def scan_num_def scan_int_def is_digit_def)+

lemma scan_value_print:
  "json_ok v \<Longrightarrow> readable L v \<Longrightarrow> num_end r \<Longrightarrow> length (json_text L v) \<le> n \<Longrightarrow>
   scan_value L n (json_text L v @ r) = Some (json_norm v, r)"
proof (induction L v arbitrary: n r rule: json_text.induct)
  case (3 L i)
  then obtain m where "n = Suc m" by (cases n) (auto simp: str_int_def split: if_splits)
  with scan_value_num [OF scan_num_append [OF 3(3) scan_num_str_int [of i]]] show ?case by simp
next
  case (4 L f)
  show ?case
  proof (cases f)
    case (FFinite q)
    with 4 have q: "scan_num (lib_float_repr L q) = Some (lib_float_repr L q, True, [])" by simp
    with FFinite 4 obtain m where "n = Suc m" by (cases n) (auto dest: scan_num_hd)
    with scan_value_num [OF scan_num_append [OF 4(3) q]] FFinite 4(2) show ?thesis by simp
  qed (use 4 scan_value_lit [of n] in auto)
next
  case (5 L s)
  then obtain m where "n = Suc m" by (cases n) (auto simp: print_str_def)
  then show ?case by (simp add: print_str_def scan_str_print)
next
  case (6 L xs)
  then obtain m where n: "n = Suc m" by (cases n) auto
  show ?case
  proof (cases xs)
    case (Cons x ys)
    obtain c t where c: "json_text L x = c # t" "\<not> is_json_ws c" "c \<noteq> CHR '']''"
      using json_text_hd [of L x] 6(3) Cons by auto
    have "scan_items L m (join_str '','' (map (json_text L) xs) @ CHR '']'' # r) =
        Some (map json_norm xs, r)"
      by (rule scan_items_join) (use 6 Cons n in auto)
    moreover have "\<exists>u. join_str '','' (map (json_text L) xs) = c # u"
      using c Cons by (simp add: join_str_def)
    ultimately show ?thesis using c by (auto simp: n)
  qed (simp add: n)
next
  case (7 L kvs)
  then obtain m where n: "n = Suc m" by (cases n) auto
  let ?J = "join_str '','' (map (\<lambda>p. print_str (fst p) @ '':'' @ json_text L (snd p)) (sort_key fst kvs))"
  show ?case
  proof (cases "sort_key fst kvs")
    case Nil
    then have "kvs = []" by (metis set_empty set_sort)
    then show ?thesis by (simp add: n)
  next
    case (Cons q qs)
    have "scan_members L m (?J @ CHR ''}'' # r) =
        Some (map (\<lambda>p. (fst p, json_norm (snd p))) (sort_key fst kvs), r)"
    proof (rule scan_members_join)
      fix p assume "p \<in> set (sort_key fst kvs)"
      then show "readable L (snd p)" using 7(3) by auto
    next
      fix p k s
      assume p: "p \<in> set (sort_key fst kvs)" "num_end s" "length (json_text L (snd p)) \<le> k"
      then have "json_ok (snd p)" "readable L (snd p)" using 7(2,3) by auto
      with p show "scan_value L k (json_text L (snd p) @ s) = Some (json_norm (snd p), s)"
        using 7(1) by blast
    qed (use 7(5) Cons n in auto)
    moreover have "\<exists>u. ?J = CHR 0x22 # u" using Cons by (simp add: join_str_def print_str_def)
    ultimately show ?thesis
      using dict_ok_norm [of kvs] 7(2) by (auto simp: n dict_of_distinct)
  qed
qed (use scan_value_lit in auto)

lemma skip_ws_all: "list_all is_json_ws w \<Longrightarrow> skip_ws w = []"
  by (simp add: skip_ws_def list_all_iff dropWhile_eq_Nil_conv)

lemma json_loads_text_ws:
  assumes "json_ok v" "readable L v" "list_all is_json_ws w"
  shows "json_loads L (json_text L v @ w) = Inr (json_norm v)"
proof -
  obtain c t where c: "json_text L v = c # t" "\<not> is_json_ws c"
    using json_text_hd [OF assms(2)] by auto
  then have "skip_ws (json_text L v @ w) = json_text L v @ w" by simp
  moreover have "num_end w" using assms(3) by (cases w) (auto simp: num_end_def)
  ultimately show ?thesis
    using scan_value_print [OF assms(1,2), of w "Suc (2 * length (json_text L v @ w))"]
      skip_ws_all [OF assms(3)]
    by (simp add: json_loads_def del: scan_value.simps)
qed

lemma json_loads_text:
  "json_ok v \<Longrightarrow> readable L v \<Longrightarrow> json_loads L (json_text L v) = Inr (json_norm v)"
  using json_loads_text_ws [of v L "[]"] by simp

text \<open>Canonical text determines the value up to the order of dictionary keys.\<close>

lemma json_text_inj:
  "json_ok v \<Longrightarrow> readable L v \<Longrightarrow> json_ok w \<Longrightarrow> readable L w \<Longrightarrow>
   json_text L v = json_text L w \<Longrightarrow> json_norm v = json_norm w"
  by (metis json_loads_text sum.inject(2))

section \<open>Enough fuel\<close>

lemma scan_str_shorter: "scan_str s = Some (x, r) \<Longrightarrow> length r < length s"
proof (induction s arbitrary: x r rule: scan_str.induct)
  case (2 c s)
  then show ?case
    by (fastforce split: if_splits list.splits option.splits)
qed simp

lemma scan_num_shorter: "scan_num s = Some (x, f, r) \<Longrightarrow> length r < length s"
proof -
  assume *: "scan_num s = Some (x, f, r)"
  let ?b = "if s \<noteq> [] \<and> hd s = CHR ''-'' then tl s else s"
  obtain i u where i: "scan_int ?b = Some (i, u)" and r: "r = snd (scan_exp (snd (scan_frac u)))"
    using * by (auto simp: scan_num_def Let_def split: option.splits prod.splits)
  have dw: "length (dropWhile is_digit t) \<le> length t" for t by (rule length_dropWhile_le)
  have "length (snd (scan_frac t)) \<le> length t" for t
    by (auto simp: scan_frac_def le_SucI dw split: list.splits)
  moreover have "length (snd (scan_exp t)) \<le> length t" for t
    using dw by (auto simp: scan_exp_def scan_exp_digits_def le_SucI split: list.splits)
  moreover have "length u < length b" if "scan_int b = Some (i, u)" for b
    using that by (auto simp: scan_int_def less_Suc_eq_le dw split: list.splits if_splits)
  note this [OF i]
  moreover have "length ?b \<le> length s" by (simp add: le_diff_conv)
  ultimately show ?thesis unfolding r by (meson le_less_trans less_le_trans order_trans)
qed

lemma starts_with_length: "starts_with s p \<Longrightarrow> length p \<le> length s"
  unfolding starts_with_def by (metis length_take min.cobounded2 min.commute nat_le_linear)

lemma scan_scalar_shorter: "scan_scalar L s = Some (v, r) \<Longrightarrow> length r < length s"
  by (auto simp: scan_scalar_def split: if_splits option.splits
      dest: starts_with_length scan_num_shorter)

lemma skip_ws_Cons: "skip_ws s = c # t \<Longrightarrow> length t < length s"
  using length_skip_ws [of s] by simp

lemma scan_shorter:
  "scan_value L n s = Some (v, r) \<Longrightarrow> length r < length s"
  "scan_items L n s = Some (xs, r) \<Longrightarrow> length r < length s"
  "scan_members L n s = Some (kvs, r) \<Longrightarrow> length r < length s"
proof (induction n arbitrary: s v r xs kvs)
  case (Suc n)
  {
    case 1
    show ?case
    proof (cases s)
      case (Cons c t)
      with 1 show ?thesis
        by (auto dest!: skip_ws_Cons scan_str_shorter scan_scalar_shorter Suc.IH
            split: if_splits list.splits)
    qed (use 1 in simp)
  next
    case 2
    then obtain x u where u: "scan_value L n s = Some (x, u)" by (auto split: option.splits)
    obtain d w where d: "skip_ws u = d # w" using 2 u by (auto split: list.splits)
    have "length w < length s" using Suc.IH(1) [OF u] skip_ws_Cons [OF d] by simp
    then show ?case
      using 2 u d length_skip_ws [of w] by (auto dest!: Suc.IH(2) split: if_splits)
  next
    case 3
    then obtain c t k u where s: "s = c # t" "scan_str t = Some (k, u)"
      by (auto split: if_splits list.splits option.splits)
    obtain d w x y where u: "skip_ws u = d # w" "scan_value L n (skip_ws w) = Some (x, y)"
      using 3 s by (auto split: if_splits list.splits option.splits)
    obtain e z where y: "skip_ws y = e # z" using 3 s u
      by (auto split: if_splits list.splits option.splits)
    have "length z < length s"
      using s(1) scan_str_shorter [OF s(2)] skip_ws_Cons [OF u(1)] skip_ws_Cons [OF y]
        Suc.IH(1) [OF u(2)] length_skip_ws [of w] by simp
    then show ?case
      using 3 s u y length_skip_ws [of z] by (auto dest!: Suc.IH(3) split: if_splits)
  }
qed simp_all

lemma scan_fuel_step:
  "2 * length s < n \<Longrightarrow> scan_value L (Suc n) s = scan_value L n s"
  "Suc (2 * length s) < n \<Longrightarrow> scan_items L (Suc n) s = scan_items L n s"
  "Suc (2 * length s) < n \<Longrightarrow> scan_members L (Suc n) s = scan_members L n s"
proof (induction n arbitrary: s)
  case (Suc n)
  {
    case 1
    show ?case
    proof (cases s)
      case (Cons c t)
      have "Suc (2 * length (d # u)) < n" if "skip_ws t = d # u" for d u
        using length_skip_ws [of t] that 1 Cons by simp
      then show ?thesis
        by (subst (1 2) scan_value.simps)
          (simp add: Cons Suc.IH del: scan_value.simps scan_items.simps scan_members.simps
            split: list.splits)
    qed simp
  next
    case 2
    have v: "scan_value L (Suc n) s = scan_value L n s" using 2 by (intro Suc.IH) simp
    have "scan_items L (Suc n) (skip_ws u) = scan_items L n (skip_ws u)"
      if "scan_value L n s = Some (x, r)" "skip_ws r = d # u" for x r d u
      using scan_shorter(1) [OF that(1)] skip_ws_Cons [OF that(2)] length_skip_ws [of u] 2
      by (intro Suc.IH) simp
    then show ?case
      by (subst (1 2) scan_items.simps)
        (simp add: v del: scan_value.simps scan_items.simps scan_members.simps
          split: list.splits option.splits)
  next
    case 3
    have v: "scan_value L (Suc n) (skip_ws u) = scan_value L n (skip_ws u)"
      if "s = c # t" "scan_str t = Some (k, r)" "skip_ws r = d # u" for c t k r d u
      using scan_str_shorter [OF that(2)] skip_ws_Cons [OF that(3)] length_skip_ws [of u] 3 that(1)
      by (intro Suc.IH) simp
    have m: "scan_members L (Suc n) (skip_ws w) = scan_members L n (skip_ws w)"
      if "s = c # t" "scan_str t = Some (k, r)" "skip_ws r = d # u"
        "scan_value L n (skip_ws u) = Some (x, y)" "skip_ws y = e # w" for c t k r d u x y e w
      using scan_str_shorter [OF that(2)] skip_ws_Cons [OF that(3)] length_skip_ws [of u]
        scan_shorter(1) [OF that(4)] skip_ws_Cons [OF that(5)] length_skip_ws [of w] 3 that(1)
      by (intro Suc.IH) simp
    show ?case
      using v m by (subst (1 2) scan_members.simps)
        (simp del: scan_value.simps scan_items.simps scan_members.simps
          split: list.splits option.splits)
  }
qed simp_all

lemma scan_fuel: "2 * length s < n \<Longrightarrow> n \<le> m \<Longrightarrow> scan_value L m s = scan_value L n s"
proof (induction "m - n" arbitrary: m)
  case (Suc k)
  then obtain m' where "m = Suc m'" by (cases m) auto
  with Suc scan_fuel_step(1) [of s m' L] show ?case
    by (simp del: scan_value.simps)
qed simp

text \<open>
  The recursive-descent reader never fails for lack of fuel. Whatever the text, giving
  the scanner more fuel than \<open>json_loads\<close> gives it does not change what is read.
\<close>

lemma json_loads_total:
  "k \<ge> Suc (2 * length s) \<Longrightarrow>
   json_loads L s =
     (case scan_value L k (skip_ws s) of
        None \<Rightarrow> Inl JSONDecodeError
      | Some (v, r) \<Rightarrow> if skip_ws r = [] then Inr v else Inl JSONDecodeError)"
  using scan_fuel [of "skip_ws s" "Suc (2 * length s)" k L] length_skip_ws [of s]
  by (simp add: json_loads_def del: scan_value.simps)

section \<open>Canonical text\<close>

lemma map_of_norm:
  assumes "dict_ok kvs"
  shows "map_of (map (\<lambda>p. (fst p, json_norm (snd p))) (sort_key fst kvs)) k =
    map_option json_norm (map_of kvs k)"
proof -
  have d: "distinct (map fst (sort_key fst kvs))"
    using assms by (simp add: dict_ok_def dict_keys_def distinct_map)
  have "map_of (sort_key fst kvs) = map_of kvs"
    by (rule map_of_eqI)
      (use assms d in \<open>auto simp: dict_ok_def dict_keys_def intro!: map_of_is_SomeI dest: map_of_SomeD\<close>)
  moreover have "map_of (map (\<lambda>p. (fst p, json_norm (snd p))) ps) k = map_option json_norm (map_of ps k)"
    for ps by (induction ps) auto
  ultimately show ?thesis by simp
qed

text \<open>Equal canonical forms agree under every key.\<close>

lemma json_norm_get:
  assumes "json_norm (JObj a) = json_norm (JObj b)" "dict_ok a" "dict_ok b"
  shows "map_option json_norm (map_of a k) = map_option json_norm (map_of b k)"
  using assms map_of_norm [of a k] map_of_norm [of b k] by simp

lemma json_norm_obj_values:
  assumes "json_norm (JObj a) = json_norm (JObj b)" "dict_ok a" "map fst a = map fst b"
  shows "map json_norm (map snd a) = map json_norm (map snd b)"
proof -
  have dist: "distinct (map fst a)" "distinct (map fst b)"
    using assms(2,3) by (simp_all add: dict_ok_def dict_keys_def)
  then have ok: "dict_ok b" by (simp add: dict_ok_def dict_keys_def)
  have len: "length a = length b" using assms(3) by (metis length_map)
  have "json_norm (snd (a ! i)) = json_norm (snd (b ! i))" if i: "i < length a" for i
  proof -
    have "fst (a ! i) = fst (b ! i)" using assms(3) i len by (metis nth_map)
    moreover have "map_of a (fst (a ! i)) = Some (snd (a ! i))"
      "map_of b (fst (b ! i)) = Some (snd (b ! i))"
      using dist i len by (simp_all add: map_of_is_SomeI)
    ultimately show ?thesis
      using json_norm_get [OF assms(1,2) ok, of "fst (a ! i)"] by simp
  qed
  then show ?thesis using len by (simp add: list_eq_iff_nth_eq)
qed

lemma sort_key_map_fst: "(\<And>p. fst (f p) = fst p) \<Longrightarrow> sorted (map fst ps) \<Longrightarrow> sort_key fst (map f ps) = map f ps"
  by (rule sort_key_id_if_sorted) (simp add: comp_def)

lemma sort_key_fst_norm:
  "sort_key fst (map (\<lambda>p. (fst p, json_norm (snd p))) (sort_key fst kvs)) =
   map (\<lambda>p. (fst p, json_norm (snd p))) (sort_key fst kvs)"
  by (rule sort_key_map_fst) simp_all

lemma json_text_norm [simp]: "json_text L (json_norm v) = json_text L v"
proof (induction v rule: json_norm.induct)
  case (6 xs)
  then have "map (\<lambda>x. json_text L (json_norm x)) xs = map (json_text L) xs" by simp
  then show ?case by (simp only: json_norm.simps json_text.simps map_map comp_def)
next
  case (7 kvs)
  then have "map (\<lambda>p. print_str (fst p) @ '':'' @ json_text L (json_norm (snd p))) (sort_key fst kvs) =
      map (\<lambda>p. print_str (fst p) @ '':'' @ json_text L (snd p)) (sort_key fst kvs)"
    by simp
  then show ?case
    by (simp only: json_norm.simps json_text.simps sort_key_fst_norm map_map comp_def fst_conv snd_conv)
qed simp_all

lemma json_norm_idem [simp]: "json_norm (json_norm v) = json_norm v"
proof (induction v rule: json_norm.induct)
  case (7 kvs)
  then show ?case
    unfolding json_norm.simps sort_key_fst_norm map_map by (simp add: comp_def)
qed simp_all

lemma json_norm_ok [simp]: "json_ok v \<Longrightarrow> json_ok (json_norm v)"
  by (induction v rule: json_norm.induct) (auto simp: dict_ok_norm)

lemma json_norm_readable [simp]: "readable L (json_norm v) = readable L v"
  by (induction v rule: json_norm.induct) auto

lemma json_norm_nonfinite [simp]: "has_nonfinite (json_norm v) = has_nonfinite v"
  by (induction v rule: json_norm.induct) auto

lemma json_norm_is_obj [simp]: "is_obj (json_norm v) = is_obj v"
  by (cases v) auto

text \<open>Canonical text is ASCII, so encoding it never fails.\<close>

lemma esc_char_ascii: "c \<in> set (esc_char d) \<Longrightarrow> code c < 128"
proof -
  have h: "code (hex_digit n) < 128" if "n < 16" for n
    using that by (auto simp: hex_digit_def code_char_of)
  assume "c \<in> set (esc_char d)"
  then show ?thesis
    by (auto simp: esc_char_def hex4_def h split: if_splits)
qed

lemma bytes_hex_inj: "bytes_hex a = bytes_hex b \<Longrightarrow> a = b"
  by (metis hex_bytes_bytes_hex option.inject)

lemma ascii_bytes_inj: "ascii_bytes s = ascii_bytes t \<Longrightarrow> s = t"
proof -
  have "c = d" if "(of_nat (code c) :: byte) = of_nat (code d)" for c d
  proof -
    have "unat (of_nat (code e) :: byte) = code e" for e
    proof -
      have "code e < 256" by simp
      then show ?thesis by (simp add: unat_of_nat)
    qed
    then have "code c = code d" using that by metis
    then show ?thesis by simp
  qed
  then show "ascii_bytes s = ascii_bytes t \<Longrightarrow> s = t"
    by (induction s t rule: list_induct2') (auto simp: ascii_bytes_def)
qed

lemma insort_key_map_snd:
  "insort_key fst (k, g v) (map (\<lambda>p. (fst p, g (snd p))) xs) =
   map (\<lambda>p. (fst p, g (snd p))) (insort_key fst (k, v) xs)"
  by (induction xs) auto

lemma sort_key_map_snd:
  "sort_key fst (map (\<lambda>p. (fst p, g (snd p))) xs) = map (\<lambda>p. (fst p, g (snd p))) (sort_key fst xs)"
proof (induction xs)
  case (Cons p xs)
  then show ?case using insort_key_map_snd [of "fst p" g "snd p" "sort_key fst xs"] by simp
qed simp

lemma json_norm_obj_cong:
  assumes "map (\<lambda>p. (fst p, json_norm (snd p))) a = map (\<lambda>p. (fst p, json_norm (snd p))) b"
  shows "json_norm (JObj a) = json_norm (JObj b)"
  using arg_cong [OF assms, of "sort_key fst"] by (simp only: sort_key_map_snd json_norm.simps)

lemma json_text_cong: "json_norm v = json_norm w \<Longrightarrow> json_text L v = json_text L w"
  by (metis json_text_norm)

section \<open>Values that were read\<close>

text \<open>
  What Python documents of floats: the text \<^verbatim>\<open>repr\<close> gives for a finite float is a JSON number
  with a fraction or an exponent, and reading it gives the same float.
\<close>

definition float_lib_ok :: "pylib \<Rightarrow> bool" where
  "float_lib_ok L \<longleftrightarrow>
     (\<forall>tok q. lib_float_parse L tok = FFinite q \<longrightarrow> readable L (JFloat (FFinite q)))"

lemma dict_ok_of: "dict_ok (dict_of kvs)"
proof -
  have "dict_ok (fold (\<lambda>(k, v) d. dict_put k v d) kvs d)" if "dict_ok d" for d
    using that by (induction kvs arbitrary: d) auto
  then show ?thesis by (simp add: dict_of_def)
qed

lemma set_dict_put: "p \<in> set (dict_put k v d) \<Longrightarrow> p = (k, v) \<or> p \<in> set d"
  by (induction k v d rule: dict_put.induct) (auto split: if_splits)

lemma set_dict_of: "p \<in> set (dict_of kvs) \<Longrightarrow> p \<in> set kvs"
proof -
  have "p \<in> set (fold (\<lambda>(k, v) d. dict_put k v d) kvs d) \<Longrightarrow> p \<in> set kvs \<or> p \<in> set d" for d
    by (induction kvs arbitrary: d) (auto dest: set_dict_put)
  from this [of "[]"] show "p \<in> set (dict_of kvs) \<Longrightarrow> p \<in> set kvs" by (simp add: dict_of_def)
qed

lemma float_lib_readable: "float_lib_ok L \<Longrightarrow> readable L (JFloat (lib_float_parse L tok))"
  unfolding float_lib_ok_def by (cases "lib_float_parse L tok") (auto simp del: readable.simps(1))

lemma scan_scalar_readable:
  "float_lib_ok L \<Longrightarrow> scan_scalar L s = Some (v, r) \<Longrightarrow> json_ok v \<and> readable L v"
  using float_lib_readable
  by (auto simp: scan_scalar_def split: if_splits option.splits)

lemma scan_readable:
  assumes "float_lib_ok L"
  shows "scan_value L n s = Some (v, r) \<Longrightarrow> json_ok v \<and> readable L v"
    and "scan_items L n s = Some (xs, r) \<Longrightarrow> \<forall>x \<in> set xs. json_ok x \<and> readable L x"
    and "scan_members L n s = Some (kvs, r) \<Longrightarrow> \<forall>p \<in> set kvs. json_ok (snd p) \<and> readable L (snd p)"
proof (induction n arbitrary: s v r xs kvs)
  case (Suc n)
  {
    case 1
    then show ?case
      by (cases s)
        (auto dest!: Suc.IH set_dict_of scan_scalar_readable [OF assms] simp: dict_ok_of
          split: if_splits list.splits)
  next
    case 2
    then show ?case
      by (auto dest!: Suc.IH split: if_splits list.splits option.splits)
  next
    case 3
    then show ?case
      by (auto dest!: Suc.IH split: if_splits list.splits option.splits) (metis snd_conv)+
  }
qed simp_all

lemma json_loads_readable:
  "float_lib_ok L \<Longrightarrow> json_loads L s = Inr v \<Longrightarrow> json_ok v \<and> readable L v"
  by (auto simp: json_loads_def simp del: scan_value.simps dest: scan_readable(1)
      split: option.splits if_splits)

text \<open>Whatever the float library, a value that is read has dictionaries with distinct keys.\<close>

lemma scan_ok:
  shows "scan_value L n s = Some (v, r) \<Longrightarrow> json_ok v"
    and "scan_items L n s = Some (xs, r) \<Longrightarrow> \<forall>x \<in> set xs. json_ok x"
    and "scan_members L n s = Some (kvs, r) \<Longrightarrow> \<forall>p \<in> set kvs. json_ok (snd p)"
proof (induction n arbitrary: s v r xs kvs)
  case (Suc n)
  have scalar: "scan_scalar L s = Some (v, r) \<Longrightarrow> json_ok v" for s v r
    by (auto simp: scan_scalar_def split: if_splits option.splits)
  {
    case 1
    then show ?case
      by (cases s) (auto dest!: Suc.IH set_dict_of scalar simp: dict_ok_of split: if_splits list.splits)
  next
    case 2
    then show ?case by (auto dest!: Suc.IH split: if_splits list.splits option.splits)
  next
    case 3
    then show ?case
      by (auto dest!: Suc.IH split: if_splits list.splits option.splits) (metis snd_conv)+
  }
qed simp_all

lemma json_loads_ok: "json_loads L s = Inr v \<Longrightarrow> json_ok v"
  by (auto simp: json_loads_def simp del: scan_value.simps dest: scan_ok(1) split: option.splits if_splits)

text \<open>
  An instance of the library parameters, for evaluating the model: the digest of a text is
  the text itself, and every float reads as zero.
\<close>

definition plain_lib :: pylib where
  "plain_lib =
     \<lparr>lib_sha256 = (\<lambda>bs. bs), lib_float_repr = (\<lambda>_. ''0.0''), lib_float_parse = (\<lambda>_. FFinite 0)\<rparr>"

lemma plain_lib_sel [simp]: "lib_sha256 plain_lib = (\<lambda>bs. bs)"
  by (simp add: plain_lib_def)

lemma plain_lib_floats [simp]: "float_lib_ok plain_lib"
  by (simp add: float_lib_ok_def plain_lib_def scan_num_def scan_int_def scan_frac_def scan_exp_def
      is_digit_def)

section \<open>Conversions\<close>

text \<open>
  \<^verbatim>\<open>bool(v)\<close> and \<^verbatim>\<open>int(v)\<close> of a value that was read. \<^verbatim>\<open>str.encode\<close> and \<^verbatim>\<open>bytes.decode\<close> are on the
  code points the model has: decoding a byte sequence whose code point is above 255 is
  outside the model and counts as a decoding error.
\<close>

fun py_truthy :: "json \<Rightarrow> bool" where
  "py_truthy JNull = False"
| "py_truthy (JBool b) = b"
| "py_truthy (JInt i) = (i \<noteq> 0)"
| "py_truthy (JFloat f) = (f \<noteq> FFinite 0)"
| "py_truthy (JStr s) = (s \<noteq> [])"
| "py_truthy (JList xs) = (xs \<noteq> [])"
| "py_truthy (JObj kvs) = (kvs \<noteq> [])"

definition trunc_rat :: "rat \<Rightarrow> int" where
  "trunc_rat q = (if q < 0 then - \<lfloor>- q\<rfloor> else \<lfloor>q\<rfloor>)"

fun json_int :: "json \<Rightarrow> int res" where
  "json_int (JInt i) = Inr i"
| "json_int (JBool b) = Inr (if b then 1 else 0)"
| "json_int (JFloat (FFinite q)) = Inr (trunc_rat q)"
| "json_int (JFloat FNaN) = Inl (ValueError ''cannot convert float NaN to integer'')"
| "json_int (JFloat _) = Inl (ValueError ''cannot convert float infinity to integer'')"
| "json_int (JStr s) = opt_res (ValueError ''invalid literal for int() with base 10'') (py_int s)"
| "json_int _ = Inl (TypeErr ''int() argument must be a string, a bytes-like object or a real number'')"

fun utf8_decode :: "byte list \<Rightarrow> string res" where
  "utf8_decode [] = Inr []"
| "utf8_decode [b] =
     (if b < 128 then Inr [char_of (unat b)] else Inl UnicodeDecodeErr)"
| "utf8_decode (b # c # bs) =
     (if b < 128 then bind_res (utf8_decode (c # bs)) (\<lambda>s. Inr (char_of (unat b) # s))
      else if (b = 0xC2 \<or> b = 0xC3) \<and> 0x80 \<le> c \<and> c < 0xC0
      then bind_res (utf8_decode bs) (\<lambda>s. Inr (char_of ((unat b - 192) * 64 + (unat c - 128)) # s))
      else Inl UnicodeDecodeErr)"

lemma char_of_byte: "code c < 128 \<Longrightarrow> (of_nat (code c) :: byte) < 128 \<and> char_of (unat (of_nat (code c) :: byte)) = c"
  by (simp add: unat_of_nat word_less_nat_alt)

lemma utf8_decode_ascii:
  "list_all (\<lambda>c. code c < 128) s \<Longrightarrow> utf8_decode (ascii_bytes s) = Inr s"
proof (induction s rule: induct_list012)
  case (2 x)
  then show ?case using char_of_byte [of x] by (simp add: ascii_bytes_def)
next
  case (3 x y zs)
  then show ?case using char_of_byte [of x] by (simp add: ascii_bytes_def)
qed (simp add: ascii_bytes_def)

section \<open>Equality of values\<close>

fun has_nan :: "json \<Rightarrow> bool" where
  "has_nan (JFloat f) = (f = FNaN)"
| "has_nan (JList xs) = (\<exists>x \<in> set xs. has_nan x)"
| "has_nan (JObj kvs) = (\<exists>p \<in> set kvs. has_nan (snd p))"
| "has_nan _ = False"

lemma py_eq_scalar [simp]:
  "py_eq (JStr s) (JStr t) \<longleftrightarrow> s = t" "py_eq (JInt i) (JInt j) \<longleftrightarrow> i = j" "py_eq JNull JNull"
  "\<not> py_eq JNull (JStr t)" "\<not> py_eq JNull (JInt j)" "\<not> py_eq JNull (JObj kvs)"
  by (simp_all add: py_eq.simps)

lemma py_eq_JStr: "py_eq v (JStr t) \<longleftrightarrow> v = JStr t"
  by (cases v) (auto simp: py_eq.simps split: pyfloat.splits)

lemma py_eq_norm:
  "json_ok v \<Longrightarrow> json_ok w \<Longrightarrow> \<not> has_nan v \<Longrightarrow> json_norm v = json_norm w \<Longrightarrow> py_eq v w"
proof (induction v w rule: py_eq.induct)
  case (1 v w)
  show ?case
  proof (cases v)
    case (JList xs)
    with "1.prems"(4) obtain ys where w: "w = JList ys" and eq: "map json_norm xs = map json_norm ys"
      by (cases w) auto
    have "length xs = length ys" using eq by (metis length_map)
    moreover have "py_eq (fst p) (snd p)" if p: "p \<in> set (zip xs ys)" for p
    proof -
      obtain i where i: "i < length xs" "i < length ys" "p = (xs ! i, ys ! i)"
        using p by (auto simp: set_zip)
      have "json_norm (xs ! i) = json_norm (ys ! i)" using eq i by (metis nth_map)
      then show ?thesis using "1.IH"(1) [of v w xs ys p] "1.prems" i p JList w by auto
    qed
    ultimately show ?thesis using JList w by (subst py_eq.simps) simp
  next
    case (JObj xs)
    with "1.prems"(4) obtain ys where w: "w = JObj ys" by (cases w) auto
    have ok: "dict_ok xs" "dict_ok ys" using "1.prems" JObj w by auto
    have eq: "json_norm (JObj xs) = json_norm (JObj ys)" using "1.prems"(4) JObj w by simp
    have "map fst (sort_key fst xs) = map fst (sort_key fst ys)"
      using arg_cong [OF eq, of "\<lambda>v. case v of JObj kvs \<Rightarrow> map fst kvs"] by (simp add: comp_def)
    then have len: "length xs = length ys" by (metis length_map length_sort)
    have "\<exists>u. dict_get ys (fst p) = Some u \<and> py_eq (snd p) u" if p: "p \<in> set xs" for p
    proof -
      have "map_of xs (fst p) = Some (snd p)"
        using ok(1) p by (simp add: dict_ok_def dict_keys_def)
      then obtain u where u: "map_of ys (fst p) = Some u" "json_norm (snd p) = json_norm u"
        using json_norm_get [OF eq ok, of "fst p"] by (cases "map_of ys (fst p)") auto
      have "(fst p, u) \<in> set ys" using u(1) by (rule map_of_SomeD)
      then have "json_ok u" using "1.prems"(2) w by auto
      then show ?thesis using "1.IH"(2) [of v w xs ys p u] "1.prems" JObj w p u by auto
    qed
    then have "\<forall>p \<in> set xs. case dict_get ys (fst p) of None \<Rightarrow> False | Some u \<Rightarrow> py_eq (snd p) u"
      by force
    then show ?thesis using JObj w len by (subst py_eq.simps) simp
  qed (use "1.prems" in \<open>cases w; auto simp: py_eq.simps split: pyfloat.splits\<close>)+
qed

lemma py_eq_norm_self: "json_ok v \<Longrightarrow> \<not> has_nan v \<Longrightarrow> py_eq (json_norm v) v"
proof -
  have "has_nan (json_norm v) = has_nan v"
    by (induction v rule: json_norm.induct) auto
  then show "json_ok v \<Longrightarrow> \<not> has_nan v \<Longrightarrow> py_eq (json_norm v) v"
    by (intro py_eq_norm) simp_all
qed

lemma jget_norm:
  "dict_ok kvs \<Longrightarrow> jget (json_norm (JObj kvs)) k = map_option json_norm (dict_get kvs k)"
  using map_of_norm [of kvs k] by simp

section \<open>Text of values without floats\<close>

fun float_free :: "json \<Rightarrow> bool" where
  "float_free (JFloat f) = False"
| "float_free (JList xs) = (\<forall>x \<in> set xs. float_free x)"
| "float_free (JObj kvs) = (\<forall>p \<in> set kvs. float_free (snd p))"
| "float_free _ = True"

lemma float_free_readable: "float_free v \<Longrightarrow> readable L v \<and> \<not> has_nan v \<and> \<not> has_nonfinite v"
  by (induction v rule: float_free.induct) auto

lemma list_all_join_str:
  "list_all P sep \<Longrightarrow> (\<And>w. w \<in> set ws \<Longrightarrow> list_all P w) \<Longrightarrow> list_all P (join_str sep ws)"
  by (cases ws) (fastforce simp: join_str_def list_all_iff)+

lemma print_str_ascii: "list_all (\<lambda>c. code c < 128) (print_str s)"
  using esc_char_ascii by (auto simp: print_str_def list_all_iff)

lemma str_int_ascii: "list_all (\<lambda>c. code c < 128) (str_int i)"
proof -
  have "list_all (\<lambda>c. code c < 128) (nat_digits n)" for n
    using nat_digits_all_digits [of n] by (auto simp: list_all_iff is_digit_def)
  then show ?thesis by (simp add: str_int_def)
qed

lemma json_text_ascii: "float_free v \<Longrightarrow> list_all (\<lambda>c. code c < 128) (json_text L v)"
proof (induction L v rule: json_text.induct)
  case (6 L xs)
  then have "list_all (\<lambda>c. code c < 128) (join_str '','' (map (json_text L) xs))"
    by (intro list_all_join_str) auto
  then show ?case by simp
next
  case (7 L kvs)
  have "list_all (\<lambda>c. code c < 128)
      (join_str '','' (map (\<lambda>p. print_str (fst p) @ '':'' @ json_text L (snd p)) (sort_key fst kvs)))"
    using 7 by (intro list_all_join_str) (auto simp: print_str_ascii)
  then show ?case by simp
qed (auto simp: print_str_ascii str_int_ascii)

end
