(* ===== verification/Cold_Memory.thy ===== *)
theory Cold_Memory
  imports Cold_Json "HOL-Library.Multiset"
begin

text \<open>
  Model of \<^verbatim>\<open>integrations/core/coldsnap_core/memory.py\<close>: memory regions and their policies,
  provider capabilities, the layout descriptor, residency statistics and checkpoint plan
  with their canonical digests, and the two gates that a checkpoint passes before memory is
  released: \<open>require_checkpoint_plan\<close> on each rank and \<open>agree_checkpoint_plans\<close> across ranks.
  An exception whose message interpolates a value carries the constant part of the message.
\<close>

section \<open>Regions\<close>

datatype preservation_policy = PRESERVE | DISCARD | RECREATE | EXTERNAL

fun policy_value :: "preservation_policy \<Rightarrow> string" where
  "policy_value PRESERVE = ''preserve''"
| "policy_value DISCARD = ''discard''"
| "policy_value RECREATE = ''recreate''"
| "policy_value EXTERNAL = ''external''"

text \<open>The enumeration derives from \<^verbatim>\<open>str\<close>, so members are ordered by their values.\<close>

lemma policy_value_inj: "policy_value p = policy_value q \<longleftrightarrow> p = q"
  by (cases p; cases q) simp_all

instantiation preservation_policy :: linorder
begin

definition less_eq_preservation_policy :: "preservation_policy \<Rightarrow> preservation_policy \<Rightarrow> bool" where
  "less_eq_preservation_policy p q = (policy_value p \<le> policy_value q)"

definition less_preservation_policy :: "preservation_policy \<Rightarrow> preservation_policy \<Rightarrow> bool" where
  "less_preservation_policy p q = (policy_value p < policy_value q)"

instance
proof
  fix p q :: preservation_policy
  show "p \<le> q \<Longrightarrow> q \<le> p \<Longrightarrow> p = q"
    unfolding less_eq_preservation_policy_def by (simp flip: policy_value_inj)
qed (unfold less_eq_preservation_policy_def less_preservation_policy_def, auto)

end

datatype memory_layout_kind = CONTIGUOUS | PER_LAYER | UNIFIED | OPAQUE

fun layout_kind_value :: "memory_layout_kind \<Rightarrow> string" where
  "layout_kind_value CONTIGUOUS = ''contiguous''"
| "layout_kind_value PER_LAYER = ''per-layer''"
| "layout_kind_value UNIFIED = ''unified''"
| "layout_kind_value OPAQUE = ''opaque''"

datatype memory_checkpoint_action =
  RETAIN | RELEASE_BACKING | UNMAP_PAGES | REMAP_PAGES | REPLAY_MAPPING

fun action_value :: "memory_checkpoint_action \<Rightarrow> string" where
  "action_value RETAIN = ''retain''"
| "action_value RELEASE_BACKING = ''release-backing''"
| "action_value UNMAP_PAGES = ''unmap-pages''"
| "action_value REMAP_PAGES = ''remap-pages''"
| "action_value REPLAY_MAPPING = ''replay-mapping''"

datatype memory_transport_action =
  TRANSPORT_RETAIN | DETACH_REGISTRATIONS | REATTACH_REGISTRATIONS

fun transport_action_value :: "memory_transport_action \<Rightarrow> string" where
  "transport_action_value TRANSPORT_RETAIN = ''retain''"
| "transport_action_value DETACH_REGISTRATIONS = ''detach-registrations''"
| "transport_action_value REATTACH_REGISTRATIONS = ''reattach-registrations''"

record memory_region =
  rg_name :: string
  rg_policy :: preservation_policy
  rg_stable_address :: bool

definition region_post_init :: "memory_region \<Rightarrow> memory_region res" where
  "region_post_init r =
     (if rg_name r = [] \<or> py_strip (rg_name r) \<noteq> rg_name r \<or> list_ex is_space (rg_name r)
      then Inl (ValueError ''invalid memory region name'')
      else if rg_policy r = EXTERNAL \<and> rg_stable_address r
      then Inl (ValueError ''external memory cannot promise provider-owned addresses'')
      else Inr r)"

definition WEIGHTS :: memory_region where
  "WEIGHTS = \<lparr>rg_name = ''weights'', rg_policy = PRESERVE, rg_stable_address = True\<rparr>"

definition KV_CACHE :: memory_region where
  "KV_CACHE = \<lparr>rg_name = ''kv_cache'', rg_policy = DISCARD, rg_stable_address = True\<rparr>"

definition CUDA_GRAPH :: memory_region where
  "CUDA_GRAPH = \<lparr>rg_name = ''cuda_graph'', rg_policy = RECREATE, rg_stable_address = True\<rparr>"

definition WORKSPACE :: memory_region where
  "WORKSPACE = \<lparr>rg_name = ''workspace'', rg_policy = RECREATE, rg_stable_address = True\<rparr>"

definition EXTERNAL_REGION :: memory_region where
  "EXTERNAL_REGION = \<lparr>rg_name = ''external'', rg_policy = EXTERNAL, rg_stable_address = False\<rparr>"

definition STANDARD_REGIONS :: "(string, memory_region) dict" where
  "STANDARD_REGIONS =
     map (\<lambda>r. (rg_name r, r)) [WEIGHTS, KV_CACHE, CUDA_GRAPH, WORKSPACE, EXTERNAL_REGION]"

datatype region_ref = RegionName string | RegionValue memory_region

definition resolve_one :: "region_ref \<Rightarrow> memory_region res" where
  "resolve_one v =
     (case v of
        RegionValue r \<Rightarrow> Inr r
      | RegionName n \<Rightarrow>
          opt_res (MemoryCapabilityError ''unknown memory region'') (dict_get STANDARD_REGIONS n))"

definition resolve_step :: "memory_region list \<Rightarrow> region_ref \<Rightarrow> memory_region list res" where
  "resolve_step result v =
     bind_res (resolve_one v) (\<lambda>r.
       if rg_name r \<in> set (map rg_name result)
       then Inl (ValueError ''duplicate memory region'')
       else Inr (result @ [r]))"

definition resolve_regions :: "region_ref list option \<Rightarrow> memory_region list res" where
  "resolve_regions values =
     (case values of
        None \<Rightarrow> Inr (map snd STANDARD_REGIONS)
      | Some vs \<Rightarrow> fold_res resolve_step [] vs)"

section \<open>Capabilities\<close>

record provider_capabilities =
  pc_provider :: string
  pc_tagged_regions :: bool
  pc_stable_virtual_addresses :: bool
  pc_scoped_interception :: bool
  pc_allocation_enumeration :: bool
  pc_external_snapshot_store :: bool
  pc_graph_regions :: bool
  pc_per_device_synchronization :: bool
  pc_provider_abi :: int
  pc_native_backing_stores :: "string list"
  pc_exact_address_reservation :: bool
  pc_page_granular_mapping :: bool
  pc_batched_mapping :: bool
  pc_release_backing_retain_va :: bool
  pc_sentinel_backing :: bool
  pc_distributed_atomic_mapping :: bool
  pc_revisioned_limits :: bool
  pc_mapping_recipe_replay :: bool
  pc_transport_registration_ownership :: bool
  pc_background_reserve :: bool
  pc_checkpoint_quiescence :: bool

text \<open>\<^verbatim>\<open>bool(getattr(self, attribute, False))\<close> over the declared fields.\<close>

definition capability_attr :: "provider_capabilities \<Rightarrow> string \<Rightarrow> bool" where
  "capability_attr c a =
     (case dict_get
        [(''provider'', pc_provider c \<noteq> []),
         (''tagged_regions'', pc_tagged_regions c),
         (''stable_virtual_addresses'', pc_stable_virtual_addresses c),
         (''scoped_interception'', pc_scoped_interception c),
         (''allocation_enumeration'', pc_allocation_enumeration c),
         (''external_snapshot_store'', pc_external_snapshot_store c),
         (''graph_regions'', pc_graph_regions c),
         (''per_device_synchronization'', pc_per_device_synchronization c),
         (''provider_abi'', pc_provider_abi c \<noteq> 0),
         (''native_backing_stores'', pc_native_backing_stores c \<noteq> []),
         (''exact_address_reservation'', pc_exact_address_reservation c),
         (''page_granular_mapping'', pc_page_granular_mapping c),
         (''batched_mapping'', pc_batched_mapping c),
         (''release_backing_retain_va'', pc_release_backing_retain_va c),
         (''sentinel_backing'', pc_sentinel_backing c),
         (''distributed_atomic_mapping'', pc_distributed_atomic_mapping c),
         (''revisioned_limits'', pc_revisioned_limits c),
         (''mapping_recipe_replay'', pc_mapping_recipe_replay c),
         (''transport_registration_ownership'', pc_transport_registration_ownership c),
         (''background_reserve'', pc_background_reserve c),
         (''checkpoint_quiescence'', pc_checkpoint_quiescence c)] a of
        None \<Rightarrow> False
      | Some b \<Rightarrow> b)"

definition require_capability :: "provider_capabilities \<Rightarrow> string \<Rightarrow> unit res" where
  "require_capability c a =
     (if capability_attr c a then Inr ()
      else Inl (MemoryCapabilityError (''capability '' @ a @ '' is unavailable'')))"

definition noop_capabilities :: provider_capabilities where
  "noop_capabilities =
     \<lparr>pc_provider = ''noop'', pc_tagged_regions = False, pc_stable_virtual_addresses = False,
      pc_scoped_interception = False, pc_allocation_enumeration = False,
      pc_external_snapshot_store = False, pc_graph_regions = False,
      pc_per_device_synchronization = False, pc_provider_abi = 1, pc_native_backing_stores = [],
      pc_exact_address_reservation = False, pc_page_granular_mapping = False,
      pc_batched_mapping = False, pc_release_backing_retain_va = False,
      pc_sentinel_backing = False, pc_distributed_atomic_mapping = False,
      pc_revisioned_limits = False, pc_mapping_recipe_replay = False,
      pc_transport_registration_ownership = False, pc_background_reserve = False,
      pc_checkpoint_quiescence = False\<rparr>"

section \<open>Canonical digests\<close>

definition canonical_json :: "pylib \<Rightarrow> json \<Rightarrow> string res" where
  "canonical_json L v = json_dumps L False v"

definition canonical_digest :: "pylib \<Rightarrow> json \<Rightarrow> string res" where
  "canonical_digest L v =
     bind_res (canonical_json L v) (\<lambda>payload.
       Inr (''sha256:'' @ sha256_hex L (ascii_bytes payload)))"

section \<open>Layout descriptors\<close>

record memory_layout =
  ml_format :: int
  ml_provider :: string
  ml_provider_abi :: int
  ml_region :: memory_region
  ml_device :: string
  ml_base_address :: "int option"
  ml_logical_bytes :: int
  ml_allocation_granularity :: int
  ml_mapping_granularity :: int
  ml_layout_kind :: memory_layout_kind
  ml_groups :: "string list"
  ml_extent_count :: int
  ml_transport_registration_mode :: string
  ml_extension_json :: string
  ml_layout_digest :: string

definition json_opt_int :: "int option \<Rightarrow> json" where
  "json_opt_int v = (case v of None \<Rightarrow> JNull | Some i \<Rightarrow> JInt i)"

definition json_strs :: "string list \<Rightarrow> json" where
  "json_strs xs = JList (map JStr xs)"

definition region_fields :: "memory_region \<Rightarrow> json" where
  "region_fields r =
     JObj [(''name'', JStr (rg_name r)),
           (''policy'', JStr (policy_value (rg_policy r))),
           (''stable_address'', JBool (rg_stable_address r))]"

text \<open>The dictionary that both \<open>create\<close> and \<open>validate\<close> take the digest of.\<close>

definition layout_fields :: "memory_layout \<Rightarrow> json \<Rightarrow> json" where
  "layout_fields d ext =
     JObj [(''format'', JInt (ml_format d)),
           (''provider'', JStr (ml_provider d)),
           (''provider_abi'', JInt (ml_provider_abi d)),
           (''region'', region_fields (ml_region d)),
           (''device'', JStr (ml_device d)),
           (''base_address'', json_opt_int (ml_base_address d)),
           (''logical_bytes'', JInt (ml_logical_bytes d)),
           (''allocation_granularity'', JInt (ml_allocation_granularity d)),
           (''mapping_granularity'', JInt (ml_mapping_granularity d)),
           (''layout_kind'', JStr (layout_kind_value (ml_layout_kind d))),
           (''groups'', json_strs (ml_groups d)),
           (''extent_count'', JInt (ml_extent_count d)),
           (''transport_registration_mode'', JStr (ml_transport_registration_mode d)),
           (''extension'', ext)]"

definition extension_limit :: nat where
  "extension_limit = 1024 * 1024"

text \<open>The part of the guard in \<open>validate\<close> that reads the fields alone.\<close>

definition layout_fields_bad :: "memory_layout \<Rightarrow> bool" where
  "layout_fields_bad d \<longleftrightarrow>
     ml_format d \<noteq> 1
     \<or> ml_provider d = []
     \<or> ml_provider_abi d \<le> 0
     \<or> ml_device d = []
     \<or> (case ml_base_address d of None \<Rightarrow> False | Some a \<Rightarrow> a < 0)
     \<or> rg_stable_address (ml_region d) \<and> ml_logical_bytes d > 0 \<and> ml_base_address d = None
     \<or> ml_logical_bytes d < 0
     \<or> ml_allocation_granularity d \<le> 0
     \<or> ml_mapping_granularity d \<le> 0
     \<or> ml_extent_count d < 0
     \<or> (ml_logical_bytes d = 0) \<noteq> (ml_extent_count d = 0)
     \<or> ml_transport_registration_mode d = []
     \<or> length (remdups (ml_groups d)) \<noteq> length (ml_groups d)
     \<or> list_ex (\<lambda>g. g = []) (ml_groups d)"

definition layout_validate :: "pylib \<Rightarrow> memory_layout \<Rightarrow> unit res" where
  "layout_validate L d =
     bind_res
       (catch_res (json_loads L (ml_extension_json d))
          (\<lambda>e. Inl (ValueError ''memory layout extension is invalid JSON'')))
       (\<lambda>ext.
     if layout_fields_bad d \<or> \<not> is_obj ext
     then Inl (ValueError ''memory layout descriptor is invalid'')
     else
     bind_res (canonical_json L ext) (\<lambda>canon.
     if ml_extension_json d \<noteq> canon \<or> length (ml_extension_json d) > extension_limit
     then Inl (ValueError ''memory layout descriptor is invalid'')
     else
     bind_res (canonical_digest L (layout_fields d ext)) (\<lambda>digest.
     if ml_layout_digest d \<noteq> digest
     then Inl (ValueError ''memory layout digest does not match descriptor'')
     else Inr ())))"

text \<open>
  \<open>layout_create L d ext\<close> takes the keyword arguments as the fields of \<open>d\<close>; its format,
  extension text and digest are set here.
\<close>

definition layout_create ::
  "pylib \<Rightarrow> memory_layout \<Rightarrow> (string \<times> json) list option \<Rightarrow> memory_layout res" where
  "layout_create L d extension =
     (let ext = JObj (case extension of None \<Rightarrow> [] | Some kvs \<Rightarrow> kvs) in
      bind_res (canonical_json L ext) (\<lambda>extension_json.
      if length extension_json > extension_limit
      then Inl (ValueError ''memory layout extension exceeds 1 MiB'')
      else
      let d1 = d\<lparr>ml_format := 1, ml_extension_json := extension_json\<rparr> in
      bind_res (canonical_digest L (layout_fields d1 ext)) (\<lambda>digest.
      let result = d1\<lparr>ml_layout_digest := digest\<rparr> in
      bind_res (layout_validate L result) (\<lambda>_. Inr result))))"

definition layout_extension :: "pylib \<Rightarrow> memory_layout \<Rightarrow> json res" where
  "layout_extension L d =
     bind_res (json_loads L (ml_extension_json d)) (\<lambda>v.
       if is_obj v then Inr v else Inl (ValueError ''memory layout extension is not an object''))"

section \<open>Residency statistics\<close>

record residency_stats =
  rs_format :: int
  rs_provider :: string
  rs_region :: string
  rs_logical_bytes :: int
  rs_mapped_physical_bytes :: int
  rs_reserved_physical_bytes :: int
  rs_preserved_bytes :: int
  rs_discardable_bytes :: int
  rs_externally_hydrated_bytes :: int
  rs_allocation_count :: int
  rs_page_count :: int
  rs_released_mapping_count :: int
  rs_lifecycle_revision :: int
  rs_lifecycle_epoch :: string

definition stats_validate :: "residency_stats \<Rightarrow> unit res" where
  "stats_validate s =
     (if rs_format s \<noteq> 1
         \<or> rs_provider s = []
         \<or> rs_region s = []
         \<or> rs_lifecycle_epoch s = []
         \<or> list_ex (\<lambda>v. v < 0)
             [rs_logical_bytes s, rs_mapped_physical_bytes s, rs_reserved_physical_bytes s,
              rs_preserved_bytes s, rs_discardable_bytes s, rs_externally_hydrated_bytes s,
              rs_allocation_count s, rs_page_count s, rs_released_mapping_count s,
              rs_lifecycle_revision s]
         \<or> rs_released_mapping_count s > rs_allocation_count s
         \<or> rs_preserved_bytes s + rs_discardable_bytes s + rs_externally_hydrated_bytes s
             > rs_mapped_physical_bytes s
      then Inl (ValueError ''memory residency statistics are invalid'')
      else Inr ())"

section \<open>Checkpoint plans\<close>

record checkpoint_plan =
  cp_format :: int
  cp_generation :: string
  cp_owner :: string
  cp_provider :: string
  cp_provider_abi :: int
  cp_layout_digests :: "(string \<times> string) list"
  cp_policies :: "(string \<times> preservation_policy) list"
  cp_actions :: "memory_checkpoint_action list"
  cp_mapped_bytes_before :: int
  cp_mapped_bytes_after :: int
  cp_reserved_bytes_before :: int
  cp_reserved_bytes_after :: int
  cp_transport_actions :: "memory_transport_action list"
  cp_participants :: "string list"
  cp_quiescence_evidence :: string
  cp_terminal_on_failure :: bool
  cp_abort_safe :: bool
  cp_plan_digest :: string

definition json_pair :: "string \<Rightarrow> string \<Rightarrow> json" where
  "json_pair a b = JList [JStr a, JStr b]"

definition plan_fields :: "checkpoint_plan \<Rightarrow> json" where
  "plan_fields p =
     JObj [(''format'', JInt (cp_format p)),
           (''generation'', JStr (cp_generation p)),
           (''owner'', JStr (cp_owner p)),
           (''provider'', JStr (cp_provider p)),
           (''provider_abi'', JInt (cp_provider_abi p)),
           (''layout_digests'', JList (map (\<lambda>(n, d). json_pair n d) (cp_layout_digests p))),
           (''policies'', JList (map (\<lambda>(n, q). json_pair n (policy_value q)) (cp_policies p))),
           (''actions'', json_strs (map action_value (cp_actions p))),
           (''mapped_bytes_before'', JInt (cp_mapped_bytes_before p)),
           (''mapped_bytes_after'', JInt (cp_mapped_bytes_after p)),
           (''reserved_bytes_before'', JInt (cp_reserved_bytes_before p)),
           (''reserved_bytes_after'', JInt (cp_reserved_bytes_after p)),
           (''transport_actions'', json_strs (map transport_action_value (cp_transport_actions p))),
           (''participants'', json_strs (cp_participants p)),
           (''quiescence_evidence'', JStr (cp_quiescence_evidence p)),
           (''terminal_on_failure'', JBool (cp_terminal_on_failure p)),
           (''abort_safe'', JBool (cp_abort_safe p))]"

text \<open>\<^verbatim>\<open>tuple(sorted(set(xs)))\<close>\<close>

definition sorted_set :: "'a::linorder list \<Rightarrow> 'a list" where
  "sorted_set xs = sort (remdups xs)"

definition plan_fields_bad :: "checkpoint_plan \<Rightarrow> bool" where
  "plan_fields_bad p \<longleftrightarrow>
     cp_format p \<noteq> 1
     \<or> cp_generation p = []
     \<or> cp_owner p = []
     \<or> cp_provider p = []
     \<or> cp_provider_abi p \<le> 0
     \<or> cp_layout_digests p = []
     \<or> cp_participants p = []
     \<or> sorted_set (cp_participants p) \<noteq> cp_participants p
     \<or> cp_owner p \<notin> set (cp_participants p)
     \<or> cp_quiescence_evidence p = []
     \<or> cp_actions p = []
     \<or> sorted_set (cp_layout_digests p) \<noteq> cp_layout_digests p
     \<or> sorted_set (cp_policies p) \<noteq> cp_policies p
     \<or> card (fst ` set (cp_layout_digests p)) \<noteq> length (cp_layout_digests p)
     \<or> card (fst ` set (cp_policies p)) \<noteq> length (cp_policies p)
     \<or> fst ` set (cp_layout_digests p) \<noteq> fst ` set (cp_policies p)
     \<or> card (set (cp_actions p)) \<noteq> length (cp_actions p)
     \<or> card (set (cp_transport_actions p)) \<noteq> length (cp_transport_actions p)
     \<or> list_ex (\<lambda>v. v < 0)
         [cp_mapped_bytes_before p, cp_mapped_bytes_after p,
          cp_reserved_bytes_before p, cp_reserved_bytes_after p]"

definition plan_validate :: "pylib \<Rightarrow> checkpoint_plan \<Rightarrow> unit res" where
  "plan_validate L p =
     (if plan_fields_bad p
      then Inl (ValueError ''memory checkpoint plan is invalid'')
      else
      bind_res (canonical_digest L (plan_fields p)) (\<lambda>digest.
      if cp_plan_digest p \<noteq> digest
      then Inl (ValueError ''memory checkpoint plan digest does not match plan'')
      else Inr ()))"

text \<open>
  \<open>plan_create L p layouts\<close> takes the keyword arguments as the fields of \<open>p\<close>; the fields that
  the source computes (format, digests, policies, the sorted participants) are set here.
\<close>

definition plan_create ::
  "pylib \<Rightarrow> checkpoint_plan \<Rightarrow> memory_layout list \<Rightarrow> checkpoint_plan res" where
  "plan_create L p layouts =
     bind_res
       (each_res (\<lambda>l. bind_res (layout_validate L l) (\<lambda>_.
          if ml_provider l \<noteq> cp_provider p \<or> ml_provider_abi l \<noteq> cp_provider_abi p
          then Inl (ValueError ''memory checkpoint layout provider differs from plan provider'')
          else Inr ())) layouts)
       (\<lambda>_.
     let p1 = p\<lparr>cp_format := 1,
                cp_layout_digests :=
                  sort (map (\<lambda>l. (rg_name (ml_region l), ml_layout_digest l)) layouts),
                cp_policies :=
                  sort (map (\<lambda>l. (rg_name (ml_region l), rg_policy (ml_region l))) layouts),
                cp_participants := sort (cp_participants p)\<rparr> in
     bind_res (canonical_digest L (plan_fields p1)) (\<lambda>digest.
     let plan = p1\<lparr>cp_plan_digest := digest\<rparr> in
     bind_res (plan_validate L plan) (\<lambda>_. Inr plan)))"

section \<open>Gates before memory is released\<close>

text \<open>
  A provider is the capabilities it declares and, if it has the operation, what its
  \<^verbatim>\<open>prepare_checkpoint\<close> returns: a plan, a value that is not a plan, or an exception.
\<close>

datatype prepare_result = PreparedPlan checkpoint_plan | NotAPlan

record memory_provider =
  mp_capabilities :: provider_capabilities
  mp_prepare_checkpoint :: "(memory_region list \<Rightarrow> string \<Rightarrow> prepare_result res) option"

fun action_requirements :: "memory_checkpoint_action \<Rightarrow> string list" where
  "action_requirements RELEASE_BACKING = [''release_backing_retain_va'']"
| "action_requirements UNMAP_PAGES = [''page_granular_mapping'']"
| "action_requirements REMAP_PAGES = [''page_granular_mapping'', ''exact_address_reservation'']"
| "action_requirements REPLAY_MAPPING = [''mapping_recipe_replay'', ''exact_address_reservation'']"
| "action_requirements RETAIN = []"

text \<open>The checks made on the plan after \<open>validate\<close>, in the order of the code.\<close>

definition check_plan_identity ::
  "provider_capabilities \<Rightarrow> memory_region list \<Rightarrow> string \<Rightarrow> checkpoint_plan \<Rightarrow> unit res" where
  "check_plan_identity caps regions generation p =
     (if cp_provider p \<noteq> pc_provider caps \<or> cp_provider_abi p \<noteq> pc_provider_abi caps
      then Inl (MemoryCapabilityError
        ''memory checkpoint plan provider identity differs from active provider'')
      else if cp_generation p \<noteq> generation
      then Inl (MemoryCapabilityError
        ''memory checkpoint plan generation differs from request'')
      else if fst ` set (cp_layout_digests p) \<noteq> rg_name ` set regions
      then Inl (MemoryCapabilityError
        ''memory checkpoint plan region inventory differs from request'')
      else if set (dict_of (cp_policies p)) \<noteq> set (dict_of (map (\<lambda>r. (rg_name r, rg_policy r)) regions))
      then Inl (MemoryCapabilityError
        ''memory checkpoint plan policies differ from requested regions'')
      else Inr ())"

definition check_plan_capabilities ::
  "provider_capabilities \<Rightarrow> checkpoint_plan \<Rightarrow> unit res" where
  "check_plan_capabilities caps p =
     bind_res (each_res (\<lambda>a. each_res (require_capability caps) (action_requirements a)) (cp_actions p))
       (\<lambda>_.
     bind_res
       (if list_ex (\<lambda>a. a \<noteq> TRANSPORT_RETAIN) (cp_transport_actions p)
        then require_capability caps ''transport_registration_ownership'' else Inr ())
       (\<lambda>_.
     if length (cp_participants p) > 1 \<and> list_ex (\<lambda>a. a \<noteq> RETAIN) (cp_actions p)
     then require_capability caps ''distributed_atomic_mapping'' else Inr ()))"

definition require_checkpoint_plan ::
  "pylib \<Rightarrow> memory_provider \<Rightarrow> region_ref list option \<Rightarrow> string \<Rightarrow> checkpoint_plan res" where
  "require_checkpoint_plan L provider regions generation =
     (let caps = mp_capabilities provider in
      bind_res (require_capability caps ''checkpoint_quiescence'') (\<lambda>_.
      case mp_prepare_checkpoint provider of
        None \<Rightarrow> Inl (MemoryCapabilityError ''provider has no prepare_checkpoint operation'')
      | Some operation \<Rightarrow>
          bind_res (resolve_regions regions) (\<lambda>resolved.
          bind_res (operation resolved generation) (\<lambda>r.
          case r of
            NotAPlan \<Rightarrow>
              Inl (MemoryCapabilityError ''memory provider returned an invalid checkpoint plan'')
          | PreparedPlan p \<Rightarrow>
              bind_res (plan_validate L p) (\<lambda>_.
              bind_res (check_plan_identity caps resolved generation p) (\<lambda>_.
              bind_res (check_plan_capabilities caps p) (\<lambda>_.
              Inr p)))))))"

text \<open>What \<open>agree_checkpoint_plans\<close> requires to be the same on every rank.\<close>

definition plan_common where
  "plan_common p =
     (cp_generation p, cp_provider p, cp_provider_abi p, cp_policies p, cp_actions p,
      cp_transport_actions p, cp_participants p, cp_terminal_on_failure p, cp_abort_safe p)"

definition agreement_fields :: "checkpoint_plan list \<Rightarrow> json" where
  "agreement_fields plans =
     JObj [(''format'', JInt 1),
           (''kind'', JStr ''coldsnap-memory-checkpoint-plan-agreement''),
           (''plans'',
              JList (map (\<lambda>(o', d). json_pair o' d)
                (sort (map (\<lambda>p. (cp_owner p, cp_plan_digest p)) plans))))]"

definition agree_checkpoint_plans :: "pylib \<Rightarrow> checkpoint_plan list \<Rightarrow> string res" where
  "agree_checkpoint_plans L plans =
     (case plans of
        [] \<Rightarrow> Inl (MemoryCapabilityError ''distributed checkpoint has no participant plans'')
      | first # _ \<Rightarrow>
          bind_res (each_res (plan_validate L) plans) (\<lambda>_.
          if card (set (map plan_common plans)) \<noteq> 1
             \<or> length plans \<noteq> length (cp_participants first)
             \<or> set (map cp_owner plans) \<noteq> set (cp_participants first)
          then Inl (MemoryCapabilityError
            ''distributed memory checkpoint plans disagree on policy, generation, or participants'')
          else canonical_digest L (agreement_fields plans)))"

section \<open>Regions resolve in order and once\<close>

lemma resolve_fold:
  "fold_res resolve_step acc vs = Inr rs \<longleftrightarrow>
   (\<exists>xs. traverse resolve_one vs = Inr xs \<and> rs = acc @ xs \<and>
      distinct (map rg_name xs) \<and> set (map rg_name acc) \<inter> set (map rg_name xs) = {})"
proof (induction vs arbitrary: acc)
  case (Cons v vs)
  show ?case
  proof (cases "resolve_one v")
    case (Inr r)
    show ?thesis
    proof (cases "rg_name r \<in> set (map rg_name acc)")
      case True
      then have "fold_res resolve_step acc (v # vs) = Inl (ValueError ''duplicate memory region'')"
        by (simp add: resolve_step_def Inr)
      with True Inr show ?thesis by auto
    next
      case False
      then have "fold_res resolve_step acc (v # vs) = fold_res resolve_step (acc @ [r]) vs"
        by (simp add: resolve_step_def Inr)
      with False Inr show ?thesis by (auto simp: Cons.IH)
    qed
  qed (simp add: resolve_step_def)
qed auto

lemma standard_regions_distinct: "distinct (map rg_name (map snd STANDARD_REGIONS))"
  by (simp add: STANDARD_REGIONS_def WEIGHTS_def KV_CACHE_def CUDA_GRAPH_def WORKSPACE_def
      EXTERNAL_REGION_def)

lemma resolve_regions_distinct:
  "resolve_regions values = Inr rs \<Longrightarrow> distinct (map rg_name rs)"
  using standard_regions_distinct
  by (auto simp: resolve_regions_def resolve_fold split: option.splits)

lemma require_capability_iff [simp]:
  "require_capability c a = Inr u \<longleftrightarrow> capability_attr c a"
  by (simp add: require_capability_def)

section \<open>Digests determine what they are taken of\<close>

lemma canonical_json_eq [simp]:
  "canonical_json L v = Inr s \<longleftrightarrow> \<not> has_nonfinite v \<and> s = json_text L v"
  by (auto simp: canonical_json_def json_dumps_def)

lemma canonical_digest_eq [simp]:
  "canonical_digest L v = Inr s \<longleftrightarrow>
   \<not> has_nonfinite v \<and> s = ''sha256:'' @ sha256_hex L (ascii_bytes (json_text L v))"
  by (auto simp: canonical_digest_def)

text \<open>
  The payloads whose SHA-256 values are compared; a theorem that needs two different payloads
  to have different hashes names the payloads.
\<close>

abbreviation payload :: "pylib \<Rightarrow> json \<Rightarrow> byte list" where
  "payload L v \<equiv> ascii_bytes (json_text L v)"

lemma sha256_hex_inj:
  "inj_on (lib_sha256 L) S \<Longrightarrow> a \<in> S \<Longrightarrow> b \<in> S \<Longrightarrow> sha256_hex L a = sha256_hex L b \<Longrightarrow> a = b"
  by (auto simp: sha256_hex_def dest: bytes_hex_inj inj_onD)

lemma payload_norm:
  assumes "inj_on (lib_sha256 L) S" "payload L v \<in> S" "payload L w \<in> S"
    and "json_ok v" "readable L v" "json_ok w" "readable L w"
    and "canonical_digest L v = Inr s" "canonical_digest L w = Inr s"
  shows "json_norm v = json_norm w"
proof -
  have "payload L v = payload L w"
    using assms(8,9) by (intro sha256_hex_inj [OF assms(1-3)]) simp
  then show ?thesis using assms(4-7) by (metis ascii_bytes_inj json_text_inj)
qed

lemma json_norm_eq_simps [simp]:
  "json_norm v = JStr s \<longleftrightarrow> v = JStr s" "JStr s = json_norm v \<longleftrightarrow> v = JStr s"
  "json_norm v = JInt i \<longleftrightarrow> v = JInt i" "JInt i = json_norm v \<longleftrightarrow> v = JInt i"
  "json_norm v = JBool b \<longleftrightarrow> v = JBool b" "JBool b = json_norm v \<longleftrightarrow> v = JBool b"
  "json_norm v = JNull \<longleftrightarrow> v = JNull" "JNull = json_norm v \<longleftrightarrow> v = JNull"
  by (cases v; auto)+

lemma json_strs_norm [simp]: "json_norm (json_strs xs) = json_strs xs"
  by (simp add: json_strs_def comp_def)

lemma json_strs_inj [simp]: "json_strs xs = json_strs ys \<longleftrightarrow> xs = ys"
proof -
  have "inj JStr" by (rule injI) simp
  then show ?thesis by (simp add: json_strs_def inj_map_eq_map)
qed

lemma json_opt_int_norm [simp]: "json_norm (json_opt_int a) = json_opt_int a"
  by (simp add: json_opt_int_def split: option.splits)

lemma json_opt_int_inj [simp]: "json_opt_int a = json_opt_int b \<longleftrightarrow> a = b"
  by (auto simp: json_opt_int_def split: option.splits)

lemma json_parts_ok [simp]:
  "json_ok (json_strs xs)" "readable L (json_strs xs)" "\<not> has_nonfinite (json_strs xs)"
  "json_ok (json_opt_int a)" "readable L (json_opt_int a)" "\<not> has_nonfinite (json_opt_int a)"
  "json_ok (json_pair s t)" "readable L (json_pair s t)" "\<not> has_nonfinite (json_pair s t)"
  "json_ok (region_fields r)" "readable L (region_fields r)" "\<not> has_nonfinite (region_fields r)"
  by (auto simp: json_strs_def json_opt_int_def json_pair_def region_fields_def dict_ok_def
      dict_keys_def split: option.splits)

lemma region_fields_norm_inj:
  assumes "json_norm (region_fields r) = json_norm (region_fields q)" shows "r = q"
proof -
  note vals = json_norm_obj_values [OF assms [unfolded region_fields_def]]
  then show ?thesis by (simp add: dict_ok_def dict_keys_def policy_value_inj)
qed

lemma layout_fields_ok:
  "json_ok (layout_fields d e) = json_ok e" "readable L (layout_fields d e) = readable L e"
  "has_nonfinite (layout_fields d e) = has_nonfinite e"
  by (auto simp: layout_fields_def dict_ok_def dict_keys_def)

lemma plan_fields_ok [simp]:
  "json_ok (plan_fields p)" "readable L (plan_fields p)" "\<not> has_nonfinite (plan_fields p)"
  by (auto simp: plan_fields_def dict_ok_def dict_keys_def)

lemma agreement_fields_ok [simp]:
  "json_ok (agreement_fields ps)" "readable L (agreement_fields ps)"
  "\<not> has_nonfinite (agreement_fields ps)"
  by (auto simp: agreement_fields_def dict_ok_def dict_keys_def)

lemma layout_fields_norm_ext:
  "json_norm (layout_fields d (json_norm e)) = json_norm (layout_fields d e)"
  unfolding layout_fields_def by (rule json_norm_obj_cong) simp

lemma layout_fields_digest [simp]:
  "layout_fields (d\<lparr>ml_layout_digest := x\<rparr>) e = layout_fields d e"
  "layout_fields_bad (d\<lparr>ml_layout_digest := x\<rparr>) = layout_fields_bad d"
  "layout_fields (d\<lparr>ml_extension_json := s\<rparr>) e = layout_fields d e"
  "layout_fields_bad (d\<lparr>ml_extension_json := s\<rparr>) = layout_fields_bad d"
  by (simp_all add: layout_fields_def layout_fields_bad_def)

lemma layout_validate_iff:
  "layout_validate L d = Inr u \<longleftrightarrow>
   (\<exists>ext. json_loads L (ml_extension_json d) = Inr ext \<and> \<not> layout_fields_bad d \<and> is_obj ext \<and>
      \<not> has_nonfinite ext \<and> ml_extension_json d = json_text L ext \<and>
      length (ml_extension_json d) \<le> extension_limit \<and>
      ml_layout_digest d = ''sha256:'' @ sha256_hex L (payload L (layout_fields d ext)))"
  by (cases "json_loads L (ml_extension_json d)")
    (auto simp: layout_validate_def layout_fields_ok split: if_splits)

lemma layout_create_eq:
  fixes ext
  defines "e \<equiv> JObj ext"
  assumes "json_ok e" "readable L e"
  shows "layout_create L d (Some ext) = Inr r \<longleftrightarrow>
    \<not> has_nonfinite e \<and> length (json_text L e) \<le> extension_limit \<and>
    \<not> layout_fields_bad (d\<lparr>ml_format := 1\<rparr>) \<and>
    r = d\<lparr>ml_format := 1, ml_extension_json := json_text L e,
          ml_layout_digest :=
            ''sha256:'' @ sha256_hex L (payload L (layout_fields (d\<lparr>ml_format := 1\<rparr>) e))\<rparr>"
proof -
  have loads: "json_loads L (json_text L e) = Inr (json_norm e)"
    by (rule json_loads_text [OF assms(2,3)])
  have same_text: "json_text L (layout_fields d' (json_norm e)) = json_text L (layout_fields d' e)" for d'
    by (rule json_text_cong) (rule layout_fields_norm_ext)
  have "is_obj e" by (simp add: e_def)
  then show ?thesis
    unfolding layout_create_def Let_def option.case e_def [symmetric]
    by (auto simp: layout_validate_iff layout_fields_ok loads same_text)
qed

lemma canonical_json_error: "canonical_json L v = Inl e \<Longrightarrow> is_value_error e"
  by (auto simp: canonical_json_def json_dumps_def split: if_splits)

lemma canonical_digest_error: "canonical_digest L v = Inl e \<Longrightarrow> is_value_error e"
  by (auto simp: canonical_digest_def bind_res_eq_Inl dest: canonical_json_error)

lemma layout_validate_error: "layout_validate L d = Inl e \<Longrightarrow> is_value_error e"
  by (cases "json_loads L (ml_extension_json d)")
    (auto simp: layout_validate_def bind_res_eq_Inl split: if_splits
      dest: canonical_json_error canonical_digest_error)

lemma layout_create_error: "layout_create L d ext = Inl e \<Longrightarrow> is_value_error e"
  by (auto simp: layout_create_def Let_def bind_res_eq_Inl split: if_splits
      dest: canonical_json_error canonical_digest_error layout_validate_error)

text \<open>
  Building a layout descriptor succeeds exactly when its extension has no NaN or infinity
  and fits in one MiB and its fields pass the guard of \<open>validate\<close>, and fails with a
  \<^verbatim>\<open>ValueError\<close> otherwise; the descriptor that comes out is valid, keeps the fields it was given
  with format 1, and its \<open>extension\<close> property reads the extension back with its keys in order.
\<close>

theorem layout_create_correct:
  assumes "json_ok (JObj ext)" "readable L (JObj ext)"
  shows "case layout_create L d (Some ext) of
      Inl e \<Rightarrow> is_value_error e \<and>
        (has_nonfinite (JObj ext) \<or> length (json_text L (JObj ext)) > extension_limit \<or>
         layout_fields_bad (d\<lparr>ml_format := 1\<rparr>))
    | Inr r \<Rightarrow>
        \<not> has_nonfinite (JObj ext) \<and> length (json_text L (JObj ext)) \<le> extension_limit \<and>
        \<not> layout_fields_bad (d\<lparr>ml_format := 1\<rparr>) \<and>
        layout_validate L r = Inr () \<and> layout_extension L r = Inr (json_norm (JObj ext)) \<and>
        r = d\<lparr>ml_format := 1, ml_extension_json := ml_extension_json r,
              ml_layout_digest := ml_layout_digest r\<rparr>"
proof (cases "layout_create L d (Some ext)")
  case (Inl e)
  then have "\<nexists>r. layout_create L d (Some ext) = Inr r" by simp
  then show ?thesis unfolding layout_create_eq [OF assms]
    using layout_create_error [OF Inl] Inl by (simp del: json_text.simps has_nonfinite.simps) linarith
next
  case (Inr r)
  then have "layout_validate L r = Inr ()"
    by (auto simp: layout_create_def Let_def split: if_splits)
  moreover have "ml_extension_json r = json_text L (JObj ext)"
    using Inr layout_create_eq [OF assms] by simp
  ultimately show ?thesis
    using Inr layout_create_eq [OF assms, of d r] json_loads_text [OF assms]
    by (simp add: layout_extension_def)
qed

lemma layout_fields_inj:
  assumes eq: "json_norm (layout_fields a e) = json_norm (layout_fields b f)"
    and "ml_extension_json a = json_text L e" "ml_extension_json b = json_text L f"
    and "ml_layout_digest a = ml_layout_digest b"
  shows "a = b"
proof -
  have kind: "layout_kind_value x = layout_kind_value y \<longleftrightarrow> x = y" for x y
    by (cases x; cases y) simp_all
  note vals = json_norm_obj_values [OF eq [unfolded layout_fields_def]]
  have "json_norm e = json_norm f" "ml_region a = ml_region b"
    using vals by (simp_all add: dict_ok_def dict_keys_def region_fields_norm_inj)
  then show ?thesis
    using vals assms(2-4) json_text_cong [of e f L]
    by (intro memory_layout.equality) (simp_all add: dict_ok_def dict_keys_def kind)
qed

text \<open>The payload of a descriptor's digest.\<close>

definition layout_payload :: "pylib \<Rightarrow> memory_layout \<Rightarrow> byte list" where
  "layout_payload L d =
     (case json_loads L (ml_extension_json d) of
        Inl _ \<Rightarrow> []
      | Inr ext \<Rightarrow> payload L (layout_fields d ext))"

text \<open>
  C34: the digest of a valid layout descriptor binds every field: two descriptors that pass
  \<open>validate\<close> have the same digest only if they are equal, unless SHA-256 collides on their
  two payloads.
\<close>

theorem layout_digest_binds:
  assumes "float_lib_ok L" "layout_validate L a = Inr ()" "layout_validate L b = Inr ()"
    and "inj_on (lib_sha256 L) {layout_payload L a, layout_payload L b}"
  shows "ml_layout_digest a = ml_layout_digest b \<longleftrightarrow> a = b"
proof
  assume same: "ml_layout_digest a = ml_layout_digest b"
  obtain e where e: "json_loads L (ml_extension_json a) = Inr e" "\<not> has_nonfinite e"
    "ml_extension_json a = json_text L e"
    "ml_layout_digest a = ''sha256:'' @ sha256_hex L (payload L (layout_fields a e))"
    using assms(2) by (auto simp: layout_validate_iff)
  obtain f where f: "json_loads L (ml_extension_json b) = Inr f" "\<not> has_nonfinite f"
    "ml_extension_json b = json_text L f"
    "ml_layout_digest b = ''sha256:'' @ sha256_hex L (payload L (layout_fields b f))"
    using assms(3) by (auto simp: layout_validate_iff)
  have ok: "json_ok e" "readable L e" "json_ok f" "readable L f"
    using json_loads_readable [OF assms(1)] e(1) f(1) by auto
  have "json_norm (layout_fields a e) = json_norm (layout_fields b f)"
    by (rule payload_norm [OF assms(4)])
      (use e f ok same in \<open>auto simp: layout_payload_def layout_fields_ok\<close>)
  then show "a = b" by (rule layout_fields_inj [OF _ e(3) f(3) same])
qed simp

definition kv_layout_args :: memory_layout where
  "kv_layout_args =
     \<lparr>ml_format = 0, ml_provider = ''noop'', ml_provider_abi = 1, ml_region = KV_CACHE,
      ml_device = ''cuda:0'', ml_base_address = Some 4096, ml_logical_bytes = 8192,
      ml_allocation_granularity = 4096, ml_mapping_granularity = 4096,
      ml_layout_kind = PER_LAYER, ml_groups = [''attn''], ml_extent_count = 2,
      ml_transport_registration_mode = ''none'', ml_extension_json = [], ml_layout_digest = []\<rparr>"

definition kv_extension :: "(string \<times> json) list" where
  "kv_extension = [(''layers'', JInt 2), (''dtype'', JStr ''bf16'')]"

definition kv_layout :: "int \<Rightarrow> memory_layout" where
  "kv_layout n =
     (let d = kv_layout_args\<lparr>ml_format := 1, ml_extent_count := n\<rparr>; e = JObj kv_extension in
      d\<lparr>ml_extension_json := json_text plain_lib e,
        ml_layout_digest := ''sha256:'' @ sha256_hex plain_lib (payload plain_lib (layout_fields d e))\<rparr>)"

lemma kv_extension_ok: "json_ok (JObj kv_extension)" "readable plain_lib (JObj kv_extension)"
  by (simp_all add: kv_extension_def dict_ok_def dict_keys_def)

lemma kv_layout_create:
  "0 < n \<Longrightarrow> layout_create plain_lib (kv_layout_args\<lparr>ml_extent_count := n\<rparr>) (Some kv_extension) =
    Inr (kv_layout n)"
proof -
  have "length (json_text plain_lib (JObj kv_extension)) = 27"
    by code_simp
  then have "length (json_text plain_lib (JObj kv_extension)) \<le> extension_limit"
    by (simp add: extension_limit_def del: json_text.simps)
  then show "0 < n \<Longrightarrow> ?thesis"
    by (simp add: layout_create_eq [OF kv_extension_ok] kv_layout_def Let_def del: json_text.simps)
      (simp add: kv_extension_def layout_fields_bad_def kv_layout_args_def)
qed

theorem layout_create_correct_witness:
  "layout_extension plain_lib (kv_layout 2) =
     Inr (JObj [(''dtype'', JStr ''bf16''), (''layers'', JInt 2)])"
proof -
  have "json_norm (JObj kv_extension) = JObj [(''dtype'', JStr ''bf16''), (''layers'', JInt 2)]"
    by code_simp
  then show ?thesis
    using layout_create_correct [OF kv_extension_ok, of "kv_layout_args\<lparr>ml_extent_count := 2\<rparr>"]
    by (simp add: kv_layout_create del: json_norm.simps json_text.simps)
qed

theorem layout_digest_binds_witness: "ml_layout_digest (kv_layout 2) \<noteq> ml_layout_digest (kv_layout 3)"
proof -
  have valid: "layout_validate plain_lib (kv_layout n) = Inr ()" if "0 < n" for n
    using kv_layout_create [OF that] by (auto simp: layout_create_def Let_def split: if_splits)
  have "kv_layout 2 \<noteq> kv_layout 3"
    by (simp add: kv_layout_def kv_layout_args_def Let_def)
  then show ?thesis
    using layout_digest_binds [of plain_lib "kv_layout 2" "kv_layout 3"] valid by simp
qed

section \<open>Plans\<close>

lemma json_pair_simps [simp]:
  "json_norm (json_pair a b) = json_pair a b" "json_pair a b = json_pair c d \<longleftrightarrow> a = c \<and> b = d"
  by (simp_all add: json_pair_def)

lemma json_pairs_norm [simp]:
  "json_norm (JList (map (\<lambda>(n, d). json_pair n (f d)) xs)) = JList (map (\<lambda>(n, d). json_pair n (f d)) xs)"
  by (simp add: comp_def case_prod_unfold)

lemma json_pairs_inj:
  assumes "\<And>x y. f x = f y \<longleftrightarrow> x = y"
  shows "map (\<lambda>(n, d). json_pair n (f d)) xs = map (\<lambda>(n, d). json_pair n (f d)) ys \<longleftrightarrow> xs = ys"
proof -
  have "inj (\<lambda>(n, d). json_pair n (f d))" using assms by (auto intro: injI)
  then show ?thesis by (rule inj_map_eq_map)
qed

lemma value_maps_inj:
  "map action_value xs = map action_value ys \<longleftrightarrow> xs = ys"
  "map transport_action_value us = map transport_action_value vs \<longleftrightarrow> us = vs"
proof -
  have "action_value a = action_value b \<Longrightarrow> a = b" for a b by (cases a; cases b) simp_all
  then show "map action_value xs = map action_value ys \<longleftrightarrow> xs = ys"
    by (intro inj_map_eq_map injI)
  have "transport_action_value a = transport_action_value b \<Longrightarrow> a = b" for a b
    by (cases a; cases b) simp_all
  then show "map transport_action_value us = map transport_action_value vs \<longleftrightarrow> us = vs"
    by (intro inj_map_eq_map injI)
qed

lemma plan_fields_inj:
  assumes eq: "json_norm (plan_fields a) = json_norm (plan_fields b)"
    and "cp_plan_digest a = cp_plan_digest b"
  shows "a = b"
proof -
  note vals = json_norm_obj_values [OF eq [unfolded plan_fields_def]]
  note inj = json_pairs_inj [of "\<lambda>d. d"] json_pairs_inj [of policy_value, OF policy_value_inj]
  have norm: "json_norm (JList (map (\<lambda>(n, d). json_pair n d) xs)) =
      JList (map (\<lambda>(n, d). json_pair n d) xs)" for xs
    using json_pairs_norm [of "\<lambda>d. d"] by simp
  show ?thesis
    using vals assms(2)
    by (intro checkpoint_plan.equality)
      (simp_all add: dict_ok_def dict_keys_def inj norm value_maps_inj del: json_norm.simps(6))
qed

lemma plan_validate_iff [simp]:
  "plan_validate L p = Inr u \<longleftrightarrow>
   \<not> plan_fields_bad p \<and> cp_plan_digest p = ''sha256:'' @ sha256_hex L (payload L (plan_fields p))"
  by (auto simp: plan_validate_def)

lemma plan_digest_inj:
  assumes "inj_on (lib_sha256 L) S" "payload L (plan_fields a) \<in> S" "payload L (plan_fields b) \<in> S"
    and "plan_validate L a = Inr ()" "plan_validate L b = Inr ()"
    and "cp_plan_digest a = cp_plan_digest b"
  shows "a = b"
proof (rule plan_fields_inj [OF _ assms(6)])
  show "json_norm (plan_fields a) = json_norm (plan_fields b)"
    by (rule payload_norm [OF assms(1-3)]) (use assms(4-6) in auto)
qed

text \<open>The sorted form that a valid plan has: no duplicates, in order.\<close>

lemma sorted_set_id: "sorted_set xs = xs \<longleftrightarrow> sorted xs \<and> distinct xs"
proof
  assume *: "sorted_set xs = xs"
  then have "sorted xs" by (metis sorted_set_def sorted_sort)
  moreover have "distinct xs" by (metis * distinct_remdups distinct_sort sorted_set_def)
  ultimately show "sorted xs \<and> distinct xs" ..
next
  assume "sorted xs \<and> distinct xs"
  then show "sorted_set xs = xs" by (simp add: sorted_set_def sort_key_id_if_sorted distinct_remdups_id)
qed

lemma card_fst_distinct: "card (fst ` set xs) = length xs \<longleftrightarrow> distinct (map fst xs)"
  by (metis card_distinct distinct_card length_map list.set_map)

lemma plan_fields_good:
  "\<not> plan_fields_bad p \<longleftrightarrow>
     cp_format p = 1 \<and> cp_generation p \<noteq> [] \<and> cp_owner p \<noteq> [] \<and> cp_provider p \<noteq> [] \<and>
     cp_provider_abi p > 0 \<and> cp_layout_digests p \<noteq> [] \<and> cp_quiescence_evidence p \<noteq> [] \<and>
     cp_actions p \<noteq> [] \<and> sorted (cp_participants p) \<and> distinct (cp_participants p) \<and>
     cp_owner p \<in> set (cp_participants p) \<and>
     sorted (cp_layout_digests p) \<and> dict_ok (cp_layout_digests p) \<and>
     sorted (cp_policies p) \<and> dict_ok (cp_policies p) \<and>
     dom (map_of (cp_layout_digests p)) = dom (map_of (cp_policies p)) \<and>
     distinct (cp_actions p) \<and> distinct (cp_transport_actions p) \<and>
     0 \<le> cp_mapped_bytes_before p \<and> 0 \<le> cp_mapped_bytes_after p \<and>
     0 \<le> cp_reserved_bytes_before p \<and> 0 \<le> cp_reserved_bytes_after p"
proof -
  have d: "distinct xs" if "distinct (map fst xs)" for xs :: "(string \<times> 'x) list"
    using that by (simp add: distinct_map)
  have c: "card (set xs) = length xs \<longleftrightarrow> distinct xs" for xs :: "'y list"
    by (metis card_distinct distinct_card)
  show ?thesis
    unfolding plan_fields_bad_def sorted_set_id card_fst_distinct c dom_map_of_conv_image_fst
      dict_ok_def dict_keys_def
    by (auto simp: not_le not_less dest: d)
qed

lemma sort_mset_cong: "mset xs = mset ys \<Longrightarrow> sort xs = sort ys"
  by (metis mset_sort properties_for_sort sorted_sort)

definition plan_of ::
  "pylib \<Rightarrow> checkpoint_plan \<Rightarrow> memory_layout list \<Rightarrow> checkpoint_plan" where
  "plan_of L p layouts =
     (let p1 = p\<lparr>cp_format := 1,
                cp_layout_digests :=
                  sort (map (\<lambda>l. (rg_name (ml_region l), ml_layout_digest l)) layouts),
                cp_policies :=
                  sort (map (\<lambda>l. (rg_name (ml_region l), rg_policy (ml_region l))) layouts),
                cp_participants := sort (cp_participants p)\<rparr> in
      p1\<lparr>cp_plan_digest := ''sha256:'' @ sha256_hex L (payload L (plan_fields p1))\<rparr>)"

lemma plan_fields_digest [simp]:
  "plan_fields (p\<lparr>cp_plan_digest := x\<rparr>) = plan_fields p"
  "plan_fields_bad (p\<lparr>cp_plan_digest := x\<rparr>) = plan_fields_bad p"
  by (simp_all add: plan_fields_def plan_fields_bad_def)

lemma plan_create_eq:
  "plan_create L p layouts = Inr q \<longleftrightarrow>
   (\<forall>l \<in> set layouts. layout_validate L l = Inr () \<and> ml_provider l = cp_provider p \<and>
      ml_provider_abi l = cp_provider_abi p) \<and>
   \<not> plan_fields_bad (plan_of L p layouts) \<and> q = plan_of L p layouts"
proof -
  have "canonical_digest L (plan_fields r) =
      Inr (''sha256:'' @ sha256_hex L (payload L (plan_fields r)))" for r
    by simp
  then show ?thesis
    by (auto simp: plan_create_def plan_of_def Let_def simp del: canonical_digest_eq)
qed

lemma plan_of_sel [simp]:
  "cp_format (plan_of L p ls) = 1"
  "cp_generation (plan_of L p ls) = cp_generation p"
  "cp_owner (plan_of L p ls) = cp_owner p"
  "cp_provider (plan_of L p ls) = cp_provider p"
  "cp_provider_abi (plan_of L p ls) = cp_provider_abi p"
  "cp_actions (plan_of L p ls) = cp_actions p"
  "cp_transport_actions (plan_of L p ls) = cp_transport_actions p"
  "cp_quiescence_evidence (plan_of L p ls) = cp_quiescence_evidence p"
  "cp_participants (plan_of L p ls) = sort (cp_participants p)"
  "cp_mapped_bytes_before (plan_of L p ls) = cp_mapped_bytes_before p"
  "cp_mapped_bytes_after (plan_of L p ls) = cp_mapped_bytes_after p"
  "cp_reserved_bytes_before (plan_of L p ls) = cp_reserved_bytes_before p"
  "cp_reserved_bytes_after (plan_of L p ls) = cp_reserved_bytes_after p"
  "cp_layout_digests (plan_of L p ls) = sort (map (\<lambda>l. (rg_name (ml_region l), ml_layout_digest l)) ls)"
  "cp_policies (plan_of L p ls) = sort (map (\<lambda>l. (rg_name (ml_region l), rg_policy (ml_region l))) ls)"
  by (simp_all add: plan_of_def Let_def)

lemma dict_ok_sort:
  fixes f :: "'a \<Rightarrow> 'k::linorder" and g :: "'a \<Rightarrow> 'v::linorder"
  shows "dict_ok (sort (map (\<lambda>l. (f l, g l)) ls)) \<longleftrightarrow> distinct (map f ls)"
proof -
  have "mset (map fst (sort (map (\<lambda>l. (f l, g l)) ls))) = mset (map f ls)"
    by (simp add: image_mset.compositionality comp_def)
  from mset_eq_imp_distinct_iff [OF this] show ?thesis by (simp add: dict_ok_def dict_keys_def)
qed

lemma sort_Nil_iff: "sort xs = [] \<longleftrightarrow> xs = []"
  by (metis set_empty set_sort)

lemma plan_of_good:
  "\<not> plan_fields_bad (plan_of L p layouts) \<longleftrightarrow>
     layouts \<noteq> [] \<and> distinct (map (\<lambda>l. rg_name (ml_region l)) layouts) \<and>
     cp_generation p \<noteq> [] \<and> cp_owner p \<noteq> [] \<and> cp_provider p \<noteq> [] \<and> cp_provider_abi p > 0 \<and>
     cp_quiescence_evidence p \<noteq> [] \<and> cp_actions p \<noteq> [] \<and>
     distinct (cp_actions p) \<and> distinct (cp_transport_actions p) \<and>
     distinct (cp_participants p) \<and> cp_owner p \<in> set (cp_participants p) \<and>
     0 \<le> cp_mapped_bytes_before p \<and> 0 \<le> cp_mapped_bytes_after p \<and>
     0 \<le> cp_reserved_bytes_before p \<and> 0 \<le> cp_reserved_bytes_after p"
  unfolding plan_fields_good plan_of_sel dict_ok_sort sort_Nil_iff dom_map_of_conv_image_fst
  by (simp add: image_image) blast

text \<open>
  A checkpoint plan can be built exactly from valid layouts of the plan's provider, one
  per region, with a distinct list of participants that has the owner, distinct actions and
  sizes that are not negative. The plan that comes out is valid and does not depend on the
  order in which the layouts and the participants were listed.
\<close>

theorem plan_create_correct:
  assumes "mset layouts' = mset layouts" "mset participants' = mset (cp_participants p)"
  shows "(\<exists>q. plan_create L p layouts = Inr q \<and> plan_validate L q = Inr () \<and>
        plan_create L (p\<lparr>cp_participants := participants'\<rparr>) layouts' = Inr q) \<longleftrightarrow>
      layouts \<noteq> [] \<and> distinct (map (\<lambda>l. rg_name (ml_region l)) layouts) \<and>
      (\<forall>l \<in> set layouts. layout_validate L l = Inr () \<and> ml_provider l = cp_provider p \<and>
         ml_provider_abi l = cp_provider_abi p) \<and>
      cp_generation p \<noteq> [] \<and> cp_owner p \<noteq> [] \<and> cp_quiescence_evidence p \<noteq> [] \<and>
      cp_actions p \<noteq> [] \<and> distinct (cp_actions p) \<and> distinct (cp_transport_actions p) \<and>
      distinct (cp_participants p) \<and> cp_owner p \<in> set (cp_participants p) \<and>
      0 \<le> cp_mapped_bytes_before p \<and> 0 \<le> cp_mapped_bytes_after p \<and>
      0 \<le> cp_reserved_bytes_before p \<and> 0 \<le> cp_reserved_bytes_after p"
proof -
  let ?ok = "\<lambda>ls. \<forall>l \<in> set ls. layout_validate L l = Inr () \<and> ml_provider l = cp_provider p \<and>
      ml_provider_abi l = cp_provider_abi p"
  have same: "plan_of L (p\<lparr>cp_participants := participants'\<rparr>) layouts' = plan_of L p layouts"
  proof -
    have srt: "sort (map f layouts') = sort (map f layouts)" for f :: "memory_layout \<Rightarrow> 'x::linorder"
      using assms(1) by (intro sort_mset_cong) simp
    have "sort participants' = sort (cp_participants p)"
      using assms(2) by (rule sort_mset_cong)
    then show ?thesis by (simp add: plan_of_def Let_def srt)
  qed
  have set: "?ok layouts' \<longleftrightarrow> ?ok layouts" using assms(1) by (metis mset_eq_setD)
  have prov: "cp_provider p \<noteq> [] \<and> cp_provider_abi p > 0" if ok: "?ok layouts" and ne: "layouts \<noteq> []"
  proof -
    obtain l where "l \<in> set layouts" using ne by (cases layouts) auto
    with ok have "layout_validate L l = Inr ()" "ml_provider l = cp_provider p"
      "ml_provider_abi l = cp_provider_abi p" by auto
    then show ?thesis by (auto simp: layout_validate_iff layout_fields_bad_def)
  qed
  have "(\<exists>q. plan_create L p layouts = Inr q \<and> plan_validate L q = Inr () \<and>
        plan_create L (p\<lparr>cp_participants := participants'\<rparr>) layouts' = Inr q) \<longleftrightarrow>
      ?ok layouts \<and> \<not> plan_fields_bad (plan_of L p layouts)"
    unfolding plan_create_eq same
    using set by (auto simp: plan_of_def Let_def)
  then show ?thesis unfolding plan_of_good using prov by blast
qed

text \<open>
  C33: a plan that \<open>require_checkpoint_plan\<close> returns is the one the provider prepared for the
  requested regions and generation, is valid, names the active provider, covers exactly the
  requested regions with their own policies, and needs no capability that the provider does
  not declare: for each action, for transport registrations that are not retained, and for
  any action other than retain when several ranks take part.
\<close>

theorem require_checkpoint_plan_safe:
  assumes "require_checkpoint_plan L provider regions generation = Inr p"
  shows "\<exists>operation resolved.
      mp_prepare_checkpoint provider = Some operation \<and> resolve_regions regions = Inr resolved \<and>
      operation resolved generation = Inr (PreparedPlan p) \<and> plan_validate L p = Inr () \<and>
      capability_attr (mp_capabilities provider) ''checkpoint_quiescence'' \<and>
      cp_provider p = pc_provider (mp_capabilities provider) \<and>
      cp_provider_abi p = pc_provider_abi (mp_capabilities provider) \<and>
      cp_generation p = generation \<and>
      (\<forall>n. map_of (cp_policies p) n = map_of (map (\<lambda>r. (rg_name r, rg_policy r)) resolved) n) \<and>
      fst ` set (cp_layout_digests p) = rg_name ` set resolved \<and>
      (\<forall>a \<in> set (cp_actions p). \<forall>c \<in> set (action_requirements a).
         capability_attr (mp_capabilities provider) c) \<and>
      (set (cp_transport_actions p) \<subseteq> {TRANSPORT_RETAIN} \<or>
       capability_attr (mp_capabilities provider) ''transport_registration_ownership'') \<and>
      (length (cp_participants p) \<le> 1 \<or> set (cp_actions p) \<subseteq> {RETAIN} \<or>
       capability_attr (mp_capabilities provider) ''distributed_atomic_mapping'')"
proof -
  obtain operation resolved where r:
    "mp_prepare_checkpoint provider = Some operation" "resolve_regions regions = Inr resolved"
    "operation resolved generation = Inr (PreparedPlan p)" "plan_validate L p = Inr ()"
    "capability_attr (mp_capabilities provider) ''checkpoint_quiescence''"
    and i: "check_plan_identity (mp_capabilities provider) resolved generation p = Inr ()"
    and c: "check_plan_capabilities (mp_capabilities provider) p = Inr ()"
    using assms
    by (auto simp: require_checkpoint_plan_def Let_def split: option.splits)
      (auto split: prepare_result.split_asm)
  have ok: "dict_ok (cp_policies p)" using r(4) by (simp add: plan_fields_good)
  have ok': "dict_ok (map (\<lambda>r. (rg_name r, rg_policy r)) resolved)"
    using resolve_regions_distinct [OF r(2)] by (simp add: dict_ok_def dict_keys_def comp_def)
  have "set (cp_policies p) = set (map (\<lambda>r. (rg_name r, rg_policy r)) resolved)"
    using i ok ok' by (auto simp: check_plan_identity_def dict_of_distinct split: if_splits)
  then have "map_of (cp_policies p) = map_of (map (\<lambda>r. (rg_name r, rg_policy r)) resolved)"
    using ok ok' by (subst map_of_inject_set) (simp_all add: dict_ok_def dict_keys_def)
  moreover have "(\<forall>a \<in> set (cp_actions p). \<forall>c \<in> set (action_requirements a).
         capability_attr (mp_capabilities provider) c) \<and>
      (set (cp_transport_actions p) \<subseteq> {TRANSPORT_RETAIN} \<or>
       capability_attr (mp_capabilities provider) ''transport_registration_ownership'') \<and>
      (length (cp_participants p) \<le> 1 \<or> set (cp_actions p) \<subseteq> {RETAIN} \<or>
       capability_attr (mp_capabilities provider) ''distributed_atomic_mapping'')"
    using c by (auto simp: check_plan_capabilities_def list_ex_iff split: if_splits)
  ultimately show ?thesis
    using r i by (auto simp: check_plan_identity_def split: if_splits)
qed

lemma card_one_iff: "xs \<noteq> [] \<Longrightarrow> card (f ` set xs) = 1 \<longleftrightarrow> (\<forall>x \<in> set xs. f x = f (hd xs))"
proof -
  assume ne: "xs \<noteq> []"
  then have "f (hd xs) \<in> f ` set xs" by simp
  then show ?thesis
    by (auto simp: card_1_singleton_iff) (metis imageI singletonD)
qed

lemma owners_complete:
  "distinct ps \<Longrightarrow> length xs = length ps \<and> set xs = set ps \<longleftrightarrow> mset xs = mset ps"
proof
  assume d: "distinct ps" and eq: "length xs = length ps \<and> set xs = set ps"
  then have "card (set xs) = length xs" using distinct_card [OF d] by simp
  then have "distinct xs" by (rule card_distinct)
  then show "mset xs = mset ps" using eq d set_eq_iff_mset_eq_distinct [of xs ps] by simp
qed (metis mset_eq_length mset_eq_setD)

lemma agree_checkpoint_plans_eq:
  "agree_checkpoint_plans L plans = Inr r \<longleftrightarrow>
   plans \<noteq> [] \<and> (\<forall>p \<in> set plans. plan_validate L p = Inr () \<and> plan_common p = plan_common (hd plans)) \<and>
   mset (map cp_owner plans) = mset (cp_participants (hd plans)) \<and>
   r = ''sha256:'' @ sha256_hex L (payload L (agreement_fields plans))"
proof (cases plans)
  case (Cons first rest)
  have d: "distinct (cp_participants first)" if "plan_validate L first = Inr ()"
    using that by (simp add: plan_fields_good)
  have "agree_checkpoint_plans L plans = Inr r \<longleftrightarrow>
      (\<forall>p \<in> set plans. plan_validate L p = Inr ()) \<and> card (plan_common ` set plans) = 1 \<and>
      (length (map cp_owner plans) = length (cp_participants first) \<and>
       set (map cp_owner plans) = set (cp_participants first)) \<and>
      r = ''sha256:'' @ sha256_hex L (payload L (agreement_fields plans))"
    unfolding agree_checkpoint_plans_def Cons by (auto simp del: plan_validate_iff)
  then show ?thesis
    using card_one_iff [of plans plan_common] owners_complete [OF d, of "map cp_owner plans"] Cons
    by (auto simp del: plan_validate_iff)
qed (simp add: agree_checkpoint_plans_def)

text \<open>
  C32: a group of ranks agrees exactly when there is at least one plan, every plan is valid,
  all plans have the same generation, provider, policies, actions, participants and failure
  policy, and the owners of the plans are the participants, each of them once.
\<close>

theorem agree_checkpoint_plans_correct:
  "(\<exists>r. agree_checkpoint_plans L plans = Inr r) \<longleftrightarrow>
   plans \<noteq> [] \<and> list_all (\<lambda>p. plan_validate L p = Inr () \<and> plan_common p = plan_common (hd plans)) plans \<and>
   mset (map cp_owner plans) = mset (cp_participants (hd plans))"
  by (simp add: agree_checkpoint_plans_eq list_all_iff del: plan_validate_iff)

lemma agreement_fields_inj:
  assumes "json_norm (agreement_fields ps) = json_norm (agreement_fields qs)"
  shows "sort (map (\<lambda>p. (cp_owner p, cp_plan_digest p)) ps) =
    sort (map (\<lambda>p. (cp_owner p, cp_plan_digest p)) qs)"
proof -
  note vals = json_norm_obj_values [OF assms [unfolded agreement_fields_def]]
  have norm: "json_norm (JList (map (\<lambda>(n, d). json_pair n d) xs)) =
      JList (map (\<lambda>(n, d). json_pair n d) xs)" for xs
    using json_pairs_norm [of "\<lambda>d. d"] by simp
  show ?thesis
    using vals
    by (simp add: dict_ok_def dict_keys_def norm json_pairs_inj [of "\<lambda>d. d"] del: json_norm.simps(6))
qed

text \<open>
  C31: the receipt of an agreement binds the whole group: two groups that both agree get the
  same receipt exactly when they consist of the same plans, in whatever order the plans were
  gathered, unless SHA-256 collides on one of the payloads involved.
\<close>

theorem agreement_receipt_binds:
  assumes "agree_checkpoint_plans L ps = Inr r" "agree_checkpoint_plans L qs = Inr s"
    and "inj_on (lib_sha256 L)
      ({payload L (agreement_fields ps), payload L (agreement_fields qs)} \<union>
       (\<lambda>p. payload L (plan_fields p)) ` (set ps \<union> set qs))" (is "inj_on _ ?S")
  shows "r = s \<longleftrightarrow> mset ps = mset qs"
proof
  assume "r = s"
  have dig: "canonical_digest L (agreement_fields ps) = Inr s"
    "canonical_digest L (agreement_fields qs) = Inr s"
    using assms(1,2) \<open>r = s\<close> by (simp_all add: agree_checkpoint_plans_eq)
  have in_S: "payload L (agreement_fields ps) \<in> ?S" "payload L (agreement_fields qs) \<in> ?S"
    by blast+
  have "json_norm (agreement_fields ps) = json_norm (agreement_fields qs)"
    by (rule payload_norm [OF assms(3) in_S _ _ _ _ dig]) (rule agreement_fields_ok)+
  from arg_cong [OF agreement_fields_inj [OF this], of mset]
  have "image_mset (\<lambda>p. (cp_owner p, cp_plan_digest p)) (mset ps) =
      image_mset (\<lambda>p. (cp_owner p, cp_plan_digest p)) (mset qs)"
    by (simp only: mset_sort mset_map)
  then show "mset ps = mset qs"
  proof (rule multiset.inj_map_strong [rotated])
    fix p q assume "p \<in> set_mset (mset ps)" "q \<in> set_mset (mset qs)"
      and eq: "(cp_owner p, cp_plan_digest p) = (cp_owner q, cp_plan_digest q)"
    then have pq: "p \<in> set ps" "q \<in> set qs" by simp_all
    show "p = q"
    proof (rule plan_digest_inj [OF assms(3)])
      show "plan_validate L p = Inr ()" "plan_validate L q = Inr ()"
        using assms(1,2) pq unfolding agree_checkpoint_plans_eq by blast+
      show "payload L (plan_fields p) \<in> ?S" "payload L (plan_fields q) \<in> ?S"
        using pq by blast+
    qed (use eq in simp)
  qed
next
  assume eq: "mset ps = mset qs"
  then have "sort (map (\<lambda>p. (cp_owner p, cp_plan_digest p)) ps) =
      sort (map (\<lambda>p. (cp_owner p, cp_plan_digest p)) qs)"
    by (intro sort_mset_cong) simp
  then show "r = s" using assms(1,2) by (simp add: agree_checkpoint_plans_eq agreement_fields_def)
qed

section \<open>A checkpoint evaluated\<close>

definition kv_plan_args :: "string \<Rightarrow> checkpoint_plan" where
  "kv_plan_args owner =
     \<lparr>cp_format = 0, cp_generation = ''g1'', cp_owner = owner, cp_provider = ''noop'',
      cp_provider_abi = 1, cp_layout_digests = [], cp_policies = [], cp_actions = [RETAIN],
      cp_mapped_bytes_before = 8192, cp_mapped_bytes_after = 0, cp_reserved_bytes_before = 8192,
      cp_reserved_bytes_after = 8192, cp_transport_actions = [],
      cp_participants = [''rank1'', ''rank0''], cp_quiescence_evidence = ''idle'',
      cp_terminal_on_failure = True, cp_abort_safe = True, cp_plan_digest = []\<rparr>"

definition kv_plan :: "string \<Rightarrow> int \<Rightarrow> checkpoint_plan" where
  "kv_plan owner n = plan_of plain_lib (kv_plan_args owner) [kv_layout n]"

definition kv_provider :: memory_provider where
  "kv_provider =
     \<lparr>mp_capabilities = noop_capabilities\<lparr>pc_checkpoint_quiescence := True\<rparr>,
      mp_prepare_checkpoint = Some (\<lambda>regions generation. Inr (PreparedPlan (kv_plan ''rank0'' 2)))\<rparr>"

lemma kv_layout_valid: "0 < n \<Longrightarrow> layout_validate plain_lib (kv_layout n) = Inr ()"
  using kv_layout_create [of n] by (auto simp: layout_create_def Let_def split: if_splits)

lemma kv_layout_sel [simp]:
  "ml_region (kv_layout n) = KV_CACHE" "ml_provider (kv_layout n) = ''noop''"
  "ml_provider_abi (kv_layout n) = 1"
  by (simp_all add: kv_layout_def kv_layout_args_def Let_def)

lemma kv_plan_good:
  "owner = ''rank0'' \<or> owner = ''rank1'' \<Longrightarrow> \<not> plan_fields_bad (kv_plan owner n)"
  unfolding kv_plan_def plan_of_good by (auto simp: kv_plan_args_def)

lemma kv_plan_valid:
  "owner = ''rank0'' \<or> owner = ''rank1'' \<Longrightarrow> plan_validate plain_lib (kv_plan owner n) = Inr ()"
  using kv_plan_good [of owner n] by (simp add: kv_plan_def plan_of_def Let_def)

lemma kv_plan_sel [simp]:
  "cp_generation (kv_plan w n) = ''g1''" "cp_owner (kv_plan w n) = w"
  "cp_provider (kv_plan w n) = ''noop''" "cp_provider_abi (kv_plan w n) = 1"
  "cp_actions (kv_plan w n) = [RETAIN]" "cp_transport_actions (kv_plan w n) = []"
  "cp_participants (kv_plan w n) = [''rank0'', ''rank1'']"
  "cp_policies (kv_plan w n) = [(''kv_cache'', DISCARD)]"
  "fst ` set (cp_layout_digests (kv_plan w n)) = {''kv_cache''}"
  by (simp_all add: kv_plan_def kv_plan_args_def KV_CACHE_def)

theorem plan_create_correct_witness:
  "plan_create plain_lib (kv_plan_args ''rank0''\<lparr>cp_participants := [''rank0'', ''rank1'']\<rparr>) [kv_layout 2] =
   plan_create plain_lib (kv_plan_args ''rank0'') [kv_layout 2]"
  using plan_create_correct [of "[kv_layout 2]" "[kv_layout 2]" "[''rank0'', ''rank1'']"
      "kv_plan_args ''rank0''" plain_lib] kv_layout_valid [of 2]
  by (auto simp: kv_plan_args_def add_mset_commute simp del: plan_validate_iff)

theorem require_checkpoint_plan_safe_witness:
  "require_checkpoint_plan plain_lib kv_provider (Some [RegionName ''kv_cache'']) ''g1'' =
     Inr (kv_plan ''rank0'' 2) \<and>
   capability_attr (mp_capabilities kv_provider) ''checkpoint_quiescence''"
proof -
  have "resolve_regions (Some [RegionName ''kv_cache'']) = Inr [KV_CACHE]"
    by (simp add: resolve_regions_def resolve_step_def resolve_one_def STANDARD_REGIONS_def
        WEIGHTS_def KV_CACHE_def CUDA_GRAPH_def WORKSPACE_def EXTERNAL_REGION_def)
  then have "require_checkpoint_plan plain_lib kv_provider (Some [RegionName ''kv_cache'']) ''g1'' =
      Inr (kv_plan ''rank0'' 2)"
    using kv_plan_valid [of "''rank0''" 2]
    by (simp add: require_checkpoint_plan_def kv_provider_def noop_capabilities_def
        capability_attr_def check_plan_identity_def check_plan_capabilities_def KV_CACHE_def
        dict_of_def)
  with require_checkpoint_plan_safe [OF this] show ?thesis by blast
qed

theorem agreement_receipt_binds_witness:
  "agree_checkpoint_plans plain_lib [kv_plan ''rank0'' 2, kv_plan ''rank1'' 3] =
   agree_checkpoint_plans plain_lib [kv_plan ''rank1'' 3, kv_plan ''rank0'' 2]"
proof -
  have "\<exists>r. agree_checkpoint_plans plain_lib [kv_plan ''rank0'' 2, kv_plan ''rank1'' 3] = Inr r"
    "\<exists>r. agree_checkpoint_plans plain_lib [kv_plan ''rank1'' 3, kv_plan ''rank0'' 2] = Inr r"
    using kv_plan_valid
    by (auto simp: agree_checkpoint_plans_eq plan_common_def kv_plan_def kv_plan_args_def
        plan_of_def Let_def KV_CACHE_def simp del: plan_validate_iff)
  then obtain r s where
    r: "agree_checkpoint_plans plain_lib [kv_plan ''rank0'' 2, kv_plan ''rank1'' 3] = Inr r" and
    s: "agree_checkpoint_plans plain_lib [kv_plan ''rank1'' 3, kv_plan ''rank0'' 2] = Inr s"
    by blast
  with agreement_receipt_binds [OF r s] show ?thesis by (simp add: add_mset_commute)
qed

end
