(* ===== verification/Cold_Hydration.thy ===== *)
theory Cold_Hydration
  imports Cold_Json
begin

text \<open>
  Model of \<^verbatim>\<open>integrations/core/coldsnap_core/hydration.py\<close>: the extents that name a range of a
  snapshot file and a device address, the choice of an I/O backend, and the two calls into
  the native transfer library with the guards and checks around them.

  The native library is not Python: it is the record \<open>native_library\<close>, whose fields are the
  exported functions. Structure fields are machine words, so that storing a Python integer
  wraps as \<^verbatim>\<open>ctypes\<close> does. Timings, which the code computes by a float multiplication with
  \<^verbatim>\<open>1e-9\<close>, are exact rationals here.
\<close>

section \<open>Extents\<close>

record hydration_extent =
  he_file_offset :: int
  he_destination :: int
  he_length :: int
  he_crc32 :: "string option"
  he_sha256 :: "string option"

definition DIRECT_ALIGNMENT :: int where
  "DIRECT_ALIGNMENT = 4096"

definition check_extent_crc32 :: "string option \<Rightarrow> unit res" where
  "check_extent_crc32 c =
     (case c of
        None \<Rightarrow> Inr ()
      | Some s \<Rightarrow>
          if length s \<noteq> 8 \<or> py_lower s \<noteq> s
          then Inl (ValueError ''hydration CRC32 must be eight lowercase hex digits'')
          else if hex_bytes s = None
          then Inl (ValueError ''hydration CRC32 is not hexadecimal'')
          else Inr ())"

definition check_extent_sha256 :: "string option \<Rightarrow> string option \<Rightarrow> unit res" where
  "check_extent_sha256 c h =
     (case h of
        None \<Rightarrow> Inr ()
      | Some s \<Rightarrow>
          if c = None
          then Inl (ValueError ''hydration SHA-256 requires CRC32'')
          else if length s \<noteq> 64 \<or> py_lower s \<noteq> s
          then Inl (ValueError ''hydration SHA-256 must be 64 lowercase hex digits'')
          else if hex_bytes s = None
          then Inl (ValueError ''hydration SHA-256 is not hexadecimal'')
          else Inr ())"

definition hydration_extent_init :: "hydration_extent \<Rightarrow> hydration_extent res" where
  "hydration_extent_init e =
     (if he_file_offset e < 0 \<or> he_destination e \<le> 0 \<or> he_length e \<le> 0
      then Inl (ValueError ''hydration extent offset, destination, and length are invalid'')
      else
      bind_res (check_extent_crc32 (he_crc32 e)) (\<lambda>_.
      bind_res (check_extent_sha256 (he_crc32 e) (he_sha256 e)) (\<lambda>_.
      Inr e)))"

datatype capture_checksum = ChecksumNone | ChecksumCrc32 | ChecksumCrc32Sha256

definition parse_checksum :: "string \<Rightarrow> capture_checksum option" where
  "parse_checksum s =
     dict_get [(''none'', ChecksumNone), (''crc32'', ChecksumCrc32),
               (''crc32+sha256'', ChecksumCrc32Sha256)] s"

record capture_extent =
  ce_file_offset :: int
  ce_source :: int
  ce_length :: int
  ce_checksum :: string

definition capture_extent_init :: "capture_extent \<Rightarrow> capture_extent res" where
  "capture_extent_init e =
     (if ce_file_offset e < 0 \<or> ce_source e \<le> 0 \<or> ce_length e \<le> 0
      then Inl (ValueError ''capture extent offset, source, and length are invalid'')
      else if parse_checksum (ce_checksum e) = None
      then Inl (ValueError ''capture checksum must be none, crc32, or crc32+sha256'')
      else Inr e)"

record capture_digest =
  cd_crc32 :: "string option"
  cd_sha256 :: "string option"

section \<open>The native interface\<close>

record native_extent =
  ne_file_offset :: "64 word"
  ne_destination :: "64 word"
  ne_length :: "64 word"
  ne_verification :: "32 word"
  ne_expected_crc32 :: "32 word"
  ne_expected_sha256 :: "byte list"

record native_options =
  no_abi_version :: "32 word"
  no_backend :: "32 word"
  no_queue_depth :: "32 word"
  no_flags :: "32 word"
  no_chunk_bytes :: "64 word"
  no_cuda_device :: "32 word"
  no_reserved :: "32 word"

record native_result =
  nr_abi_version :: "32 word"
  nr_backend :: "32 word"
  nr_bytes :: "64 word"
  nr_chunks :: "64 word"
  nr_verified_extents :: "64 word"
  nr_initialization_ns :: "64 word"
  nr_io_service_ns :: "64 word"
  nr_io_wait_ns :: "64 word"
  nr_checksum_ns :: "64 word"
  nr_cuda_enqueue_ns :: "64 word"
  nr_cuda_synchronize_ns :: "64 word"
  nr_total_ns :: "64 word"

record native_capture_extent =
  nce_source :: "64 word"
  nce_file_offset :: "64 word"
  nce_length :: "64 word"
  nce_checksum :: "32 word"
  nce_reserved :: "32 word"

record native_capture_digest =
  ncd_crc32 :: "32 word"
  ncd_reserved :: "32 word"
  ncd_sha256 :: "byte list"

record native_capture_result =
  ncr_abi_version :: "32 word"
  ncr_backend :: "32 word"
  ncr_bytes :: "64 word"
  ncr_file_bytes :: "64 word"
  ncr_chunks :: "64 word"
  ncr_checksummed_extents :: "64 word"
  ncr_initialization_ns :: "64 word"
  ncr_io_service_ns :: "64 word"
  ncr_io_wait_ns :: "64 word"
  ncr_checksum_ns :: "64 word"
  ncr_cuda_enqueue_ns :: "64 word"
  ncr_cuda_synchronize_ns :: "64 word"
  ncr_durability_ns :: "64 word"
  ncr_verification_ns :: "64 word"
  ncr_total_ns :: "64 word"
  ncr_file_sha256 :: "byte list"

text \<open>
  The exported functions. A call returns its status and what it wrote to the result
  structures; the digest array has one entry per extent. The capture functions are optional,
  and \<open>nl_image\<close> is the content of the library file.
\<close>

record native_library =
  nl_hydrate_file :: "string \<Rightarrow> native_extent list \<Rightarrow> native_options \<Rightarrow> int \<times> native_result"
  nl_hydration_backend_available :: "32 word \<Rightarrow> int"
  nl_last_error :: "string option"
  nl_capture_file ::
    "(string \<Rightarrow> native_capture_extent list \<Rightarrow> native_options \<Rightarrow>
       int \<times> (nat \<Rightarrow> native_capture_digest) \<times> native_capture_result) option"
  nl_capture_backend_available :: "(32 word \<Rightarrow> int) option"
  nl_image :: "byte list"

definition ABI_VERSION :: "32 word" where
  "ABI_VERSION = 1"

definition BACKENDS :: "(string, 32 word) dict" where
  "BACKENDS = [(''buffered'', 1), (''direct'', 2), (''gds'', 3)]"

definition CAPTURE_BACKENDS :: "(string, 32 word) dict" where
  "CAPTURE_BACKENDS = [(''buffered'', 1), (''direct'', 2)]"

definition native_error :: "native_library \<Rightarrow> string \<Rightarrow> exn" where
  "native_error lib operation =
     HydrationError (''native hydration '' @ operation @ '' failed: '' @
       (case nl_last_error lib of None \<Rightarrow> ''unknown error''
        | Some e \<Rightarrow> if e = [] then ''unknown error'' else e))"

definition native_capture_error :: "native_library \<Rightarrow> string \<Rightarrow> exn" where
  "native_capture_error lib operation =
     HydrationError (''native capture '' @ operation @ '' failed: '' @
       (case nl_last_error lib of None \<Rightarrow> ''unknown error''
        | Some e \<Rightarrow> if e = [] then ''unknown error'' else e))"

section \<open>Backends\<close>

definition backend_id :: "string \<Rightarrow> 32 word res" where
  "backend_id backend =
     opt_res (ValueError ''hydration backend must be buffered, direct, or gds'')
       (dict_get BACKENDS backend)"

definition available :: "native_library \<Rightarrow> string \<Rightarrow> bool res" where
  "available lib backend =
     bind_res (backend_id backend) (\<lambda>i. Inr (nl_hydration_backend_available lib i \<noteq> 0))"

definition capture_available :: "native_library \<Rightarrow> string \<Rightarrow> bool res" where
  "capture_available lib backend =
     bind_res
       (opt_res (ValueError ''capture backend must be buffered or direct'')
          (dict_get CAPTURE_BACKENDS backend))
       (\<lambda>i.
     case (nl_capture_file lib, nl_capture_backend_available lib) of
       (Some _, Some f) \<Rightarrow> Inr (f i \<noteq> 0)
     | _ \<Rightarrow> Inr False)"

definition capture_direct_compatible :: "bool \<Rightarrow> capture_extent list \<Rightarrow> bool" where
  "capture_direct_compatible pad_extents extents =
     list_all (\<lambda>e. ce_file_offset e mod DIRECT_ALIGNMENT = 0 \<and>
       (pad_extents \<or> ce_length e mod DIRECT_ALIGNMENT = 0)) extents"

definition resolve_capture_backend ::
  "native_library \<Rightarrow> string \<Rightarrow> capture_extent list \<Rightarrow> bool \<Rightarrow> string res" where
  "resolve_capture_backend lib backend extents pad_extents =
     (if backend \<noteq> ''auto'' then
        (if dict_get CAPTURE_BACKENDS backend = None
         then Inl (ValueError ''capture backend must be auto, buffered, or direct'')
         else
         bind_res (capture_available lib backend) (\<lambda>ok.
         if \<not> ok then Inl (HydrationError (''native capture backend is unavailable: '' @ backend))
         else Inr backend))
      else
      bind_res
        (if capture_direct_compatible pad_extents extents
         then capture_available lib ''direct'' else Inr False)
        (\<lambda>direct.
      if direct then Inr ''direct''
      else
      bind_res (capture_available lib ''buffered'') (\<lambda>buffered.
      if buffered then Inr ''buffered''
      else Inl (HydrationError
        ''native capture auto policy found no compatible buffered/direct backend''))))"

definition direct_compatible :: "hydration_extent list \<Rightarrow> bool" where
  "direct_compatible extents =
     list_all (\<lambda>e. he_file_offset e mod DIRECT_ALIGNMENT = 0 \<and>
       he_length e mod DIRECT_ALIGNMENT = 0) extents"

definition resolve_backend ::
  "native_library \<Rightarrow> string \<Rightarrow> hydration_extent list \<Rightarrow> string res" where
  "resolve_backend lib backend extents =
     (if backend \<noteq> ''auto'' then bind_res (backend_id backend) (\<lambda>_. Inr backend)
      else
      bind_res (if direct_compatible extents then available lib ''direct'' else Inr False) (\<lambda>direct.
      if direct then Inr ''direct''
      else
      bind_res (available lib ''buffered'') (\<lambda>buffered.
      if buffered then Inr ''buffered''
      else Inl (HydrationError
        ''native hydration auto policy found no compatible buffered/direct backend''))))"

section \<open>Hydration\<close>

definition verification_mode :: "hydration_extent \<Rightarrow> bool \<Rightarrow> 32 word" where
  "verification_mode e preverified =
     (if preverified \<or> he_crc32 e = None then 0 else if he_sha256 e = None then 1 else 2)"

text \<open>An empty string is false in Python, so it counts as no digest.\<close>

definition extent_digest :: "string option \<Rightarrow> byte list res" where
  "extent_digest h =
     (case h of
        None \<Rightarrow> Inr (replicate 32 0)
      | Some s \<Rightarrow>
          if s = [] then Inr (replicate 32 0)
          else opt_res (ValueError ''non-hexadecimal number found in fromhex() arg'') (hex_bytes s))"

definition extent_crc :: "string option \<Rightarrow> int res" where
  "extent_crc c =
     (case c of
        None \<Rightarrow> Inr 0
      | Some s \<Rightarrow>
          if s = [] then Inr 0
          else opt_res (ValueError ''invalid literal for int() with base 16'') (py_int16 s))"

definition native_extent_of :: "hydration_extent \<Rightarrow> bool \<Rightarrow> native_extent res" where
  "native_extent_of e preverified =
     bind_res (extent_digest (he_sha256 e)) (\<lambda>digest.
     bind_res (extent_crc (he_crc32 e)) (\<lambda>crc.
     if length digest < 32 then Inl (ValueError ''Buffer size too small'')
     else Inr
       \<lparr>ne_file_offset = word_of_int (he_file_offset e),
        ne_destination = word_of_int (he_destination e),
        ne_length = word_of_int (he_length e),
        ne_verification = verification_mode e preverified,
        ne_expected_crc32 = word_of_int crc,
        ne_expected_sha256 = take 32 digest\<rparr>))"

definition secs :: "64 word \<Rightarrow> rat" where
  "secs w = of_nat (unat w) / 1000000000"

record hydration_metrics =
  hm_backend :: string
  hm_bytes :: nat
  hm_chunks :: nat
  hm_verified_extents :: nat
  hm_initialization_s :: rat
  hm_io_service_s :: rat
  hm_io_wait_s :: rat
  hm_checksum_s :: rat
  hm_cuda_enqueue_s :: rat
  hm_cuda_synchronize_s :: rat
  hm_total_s :: rat

definition metrics_of :: "string \<Rightarrow> native_result \<Rightarrow> hydration_metrics" where
  "metrics_of backend r =
     \<lparr>hm_backend = backend,
      hm_bytes = unat (nr_bytes r),
      hm_chunks = unat (nr_chunks r),
      hm_verified_extents = unat (nr_verified_extents r),
      hm_initialization_s = secs (nr_initialization_ns r),
      hm_io_service_s = secs (nr_io_service_ns r),
      hm_io_wait_s = secs (nr_io_wait_ns r),
      hm_checksum_s = secs (nr_checksum_ns r),
      hm_cuda_enqueue_s = secs (nr_cuda_enqueue_ns r),
      hm_cuda_synchronize_s = secs (nr_cuda_synchronize_ns r),
      hm_total_s = secs (nr_total_ns r)\<rparr>"

record hydrate_call =
  hc_backend :: string
  hc_chunk_bytes :: int
  hc_queue_depth :: int
  hc_cuda_device :: int
  hc_preverified :: bool
  hc_register_device_buffers :: bool

definition native_options_of :: "hydrate_call \<Rightarrow> 32 word \<Rightarrow> native_options" where
  "native_options_of c i =
     \<lparr>no_abi_version = ABI_VERSION,
      no_backend = i,
      no_queue_depth = word_of_int (hc_queue_depth c),
      no_flags = (if hc_register_device_buffers c then 1 else 0),
      no_chunk_bytes = word_of_int (hc_chunk_bytes c),
      no_cuda_device = word_of_int (hc_cuda_device c),
      no_reserved = 0\<rparr>"

definition hydrate ::
  "native_library \<Rightarrow> string \<Rightarrow> hydration_extent list \<Rightarrow> hydrate_call \<Rightarrow> hydration_metrics res" where
  "hydrate lib path extents c =
     (if extents = []
      then Inl (ValueError ''hydration requires at least one extent'')
      else if hc_chunk_bytes c \<le> 0 \<or> hc_chunk_bytes c mod 4096 \<noteq> 0
      then Inl (ValueError ''hydration chunk size must be 4096-byte aligned'')
      else if \<not> (1 \<le> hc_queue_depth c \<and> hc_queue_depth c \<le> 64)
      then Inl (ValueError ''hydration queue depth must be between 1 and 64'')
      else
      bind_res (resolve_backend lib (hc_backend c) extents) (\<lambda>backend.
      if backend = ''gds'' \<and> \<not> hc_preverified c
      then Inl (HydrationError ''GDS cannot validate device-direct bytes; use an immutable preverified artifact'')
      else
      bind_res (backend_id backend) (\<lambda>i.
      bind_res (traverse (\<lambda>e. native_extent_of e (hc_preverified c)) extents) (\<lambda>native.
      let (status, r) = nl_hydrate_file lib path native (native_options_of c i) in
      if status \<noteq> 0 then Inl (native_error lib backend)
      else if nr_abi_version r \<noteq> ABI_VERSION \<or> nr_backend r \<noteq> i
      then Inl (HydrationError ''native hydration result has an incompatible ABI'')
      else Inr (metrics_of backend r)))))"

section \<open>Capture\<close>

record capture_call =
  cc_backend :: string
  cc_chunk_bytes :: int
  cc_queue_depth :: int
  cc_cuda_device :: int
  cc_file_sha256 :: bool
  cc_verify_readback :: bool
  cc_pad_extents :: bool

record capture_metrics =
  cm_backend :: string
  cm_bytes :: nat
  cm_file_bytes :: nat
  cm_chunks :: nat
  cm_checksummed_extents :: nat
  cm_initialization_s :: rat
  cm_io_service_s :: rat
  cm_io_wait_s :: rat
  cm_checksum_s :: rat
  cm_cuda_enqueue_s :: rat
  cm_cuda_synchronize_s :: rat
  cm_durability_s :: rat
  cm_verification_s :: rat
  cm_total_s :: rat

record capture_result =
  cr_metrics :: capture_metrics
  cr_digests :: "capture_digest list"
  cr_file_sha256 :: "string option"

text \<open>The loop over the extents with its running end.\<close>

definition capture_order_step :: "bool \<Rightarrow> int \<Rightarrow> capture_extent \<Rightarrow> int res" where
  "capture_order_step pad previous_end e =
     (if ce_file_offset e < previous_end
      then Inl (ValueError ''capture extents must be ordered and non-overlapping'')
      else if pad then
        (if ce_file_offset e mod DIRECT_ALIGNMENT \<noteq> 0
         then Inl (ValueError ''padded capture offsets must be 4096-byte aligned'')
         else Inr ((ce_file_offset e + ce_length e + DIRECT_ALIGNMENT - 1) div DIRECT_ALIGNMENT
                     * DIRECT_ALIGNMENT))
      else Inr (ce_file_offset e + ce_length e))"

definition check_capture_order :: "bool \<Rightarrow> capture_extent list \<Rightarrow> int res" where
  "check_capture_order pad extents = fold_res (capture_order_step pad) 0 extents"

fun checksum_id :: "capture_checksum \<Rightarrow> 32 word" where
  "checksum_id ChecksumNone = 0"
| "checksum_id ChecksumCrc32 = 1"
| "checksum_id ChecksumCrc32Sha256 = 2"

definition native_capture_extent_of :: "capture_extent \<Rightarrow> native_capture_extent res" where
  "native_capture_extent_of e =
     bind_res (opt_res (KeyErr (ce_checksum e)) (parse_checksum (ce_checksum e))) (\<lambda>k.
     Inr \<lparr>nce_source = word_of_int (ce_source e),
          nce_file_offset = word_of_int (ce_file_offset e),
          nce_length = word_of_int (ce_length e),
          nce_checksum = checksum_id k,
          nce_reserved = 0\<rparr>)"

definition capture_flags :: "capture_call \<Rightarrow> 32 word" where
  "capture_flags c =
     (let f = 0 in
      let f = (if cc_file_sha256 c then or f 1 else f) in
      let f = (if cc_verify_readback c then or f 2 else f) in
      (if cc_pad_extents c then or f 4 else f))"

definition capture_options_of :: "capture_call \<Rightarrow> 32 word \<Rightarrow> native_options" where
  "capture_options_of c i =
     \<lparr>no_abi_version = ABI_VERSION,
      no_backend = i,
      no_queue_depth = word_of_int (cc_queue_depth c),
      no_flags = capture_flags c,
      no_chunk_bytes = word_of_int (cc_chunk_bytes c),
      no_cuda_device = word_of_int (cc_cuda_device c),
      no_reserved = 0\<rparr>"

text \<open>\<^verbatim>\<open>f"{w:08x}"\<close>\<close>

definition hex8 :: "32 word \<Rightarrow> string" where
  "hex8 w = map (\<lambda>i. hex_digit (unat w div 16 ^ i mod 16)) [7, 6, 5, 4, 3, 2, 1, 0]"

definition captured_digest :: "capture_extent \<Rightarrow> native_capture_digest \<Rightarrow> capture_digest" where
  "captured_digest e d =
     \<lparr>cd_crc32 = (if ce_checksum e \<noteq> ''none'' then Some (hex8 (ncd_crc32 d)) else None),
      cd_sha256 = (if ce_checksum e = ''crc32+sha256'' then Some (bytes_hex (ncd_sha256 d)) else None)\<rparr>"

definition capture_metrics_of :: "string \<Rightarrow> native_capture_result \<Rightarrow> capture_metrics" where
  "capture_metrics_of backend r =
     \<lparr>cm_backend = backend,
      cm_bytes = unat (ncr_bytes r),
      cm_file_bytes = unat (ncr_file_bytes r),
      cm_chunks = unat (ncr_chunks r),
      cm_checksummed_extents = unat (ncr_checksummed_extents r),
      cm_initialization_s = secs (ncr_initialization_ns r),
      cm_io_service_s = secs (ncr_io_service_ns r),
      cm_io_wait_s = secs (ncr_io_wait_ns r),
      cm_checksum_s = secs (ncr_checksum_ns r),
      cm_cuda_enqueue_s = secs (ncr_cuda_enqueue_ns r),
      cm_cuda_synchronize_s = secs (ncr_cuda_synchronize_ns r),
      cm_durability_s = secs (ncr_durability_ns r),
      cm_verification_s = secs (ncr_verification_ns r),
      cm_total_s = secs (ncr_total_ns r)\<rparr>"

definition actual_backend :: "32 word \<Rightarrow> string option" where
  "actual_backend i = dict_get (map (\<lambda>(n, v). (v, n)) CAPTURE_BACKENDS) i"

definition capture ::
  "native_library \<Rightarrow> string \<Rightarrow> capture_extent list \<Rightarrow> capture_call \<Rightarrow> capture_result res" where
  "capture lib path extents c =
     (if extents = []
      then Inl (ValueError ''capture requires at least one extent'')
      else if cc_chunk_bytes c \<le> 0 \<or> cc_chunk_bytes c mod DIRECT_ALIGNMENT \<noteq> 0
      then Inl (ValueError ''capture chunk size must be 4096-byte aligned'')
      else if \<not> (1 \<le> cc_queue_depth c \<and> cc_queue_depth c \<le> 64)
      then Inl (ValueError ''capture queue depth must be between 1 and 64'')
      else
      bind_res (check_capture_order (cc_pad_extents c) extents) (\<lambda>_.
      bind_res (resolve_capture_backend lib (cc_backend c) extents (cc_pad_extents c)) (\<lambda>backend.
      case nl_capture_file lib of
        None \<Rightarrow> Inl (HydrationError ''native transfer library does not expose the capture ABI'')
      | Some capture_file \<Rightarrow>
          bind_res
            (if cc_backend c = ''auto'' \<and> backend = ''direct'' then Inr 0
             else opt_res (KeyErr backend) (dict_get CAPTURE_BACKENDS backend))
            (\<lambda>i.
          bind_res (traverse native_capture_extent_of extents) (\<lambda>native.
          let (status, digests, r) = capture_file path native (capture_options_of c i) in
          if status \<noteq> 0 then Inl (native_capture_error lib backend)
          else
          case actual_backend (ncr_backend r) of
            None \<Rightarrow> Inl (HydrationError ''native capture result has an incompatible ABI'')
          | Some actual \<Rightarrow>
              if ncr_abi_version r \<noteq> ABI_VERSION \<or> i \<noteq> 0 \<and> ncr_backend r \<noteq> i
              then Inl (HydrationError ''native capture result has an incompatible ABI'')
              else Inr
                \<lparr>cr_metrics = capture_metrics_of actual r,
                 cr_digests = map (\<lambda>(e, d). captured_digest e d)
                   (zip extents (map digests [0..<length extents])),
                 cr_file_sha256 =
                   (if cc_file_sha256 c then Some (bytes_hex (ncr_file_sha256 r)) else None)\<rparr>)))))"

section \<open>Selection from the environment\<close>

type_synonym environ = "string \<Rightarrow> string option"

definition HYDRATION_LIBRARY_ENV :: string where
  "HYDRATION_LIBRARY_ENV = ''COLDSNAP_HYDRATION_NATIVE_LIBRARY''"

definition HYDRATION_BACKEND_ENV :: string where
  "HYDRATION_BACKEND_ENV = ''COLDSNAP_HYDRATION_BACKEND''"

definition HYDRATION_LIBRARY_SHA256_ENV :: string where
  "HYDRATION_LIBRARY_SHA256_ENV = ''COLDSNAP_HYDRATION_NATIVE_SHA256''"

definition CAPTURE_BACKEND_ENV :: string where
  "CAPTURE_BACKEND_ENV = ''COLDSNAP_CAPTURE_BACKEND''"

text \<open>\<open>installed\<close> gives the library that a path resolves to, if it is a file.\<close>

definition native_hydrator_init :: "(string \<Rightarrow> native_library option) \<Rightarrow> string \<Rightarrow> native_library res" where
  "native_hydrator_init installed path =
     opt_res (HydrationError ''native hydration library does not exist'') (installed path)"

definition hydrator_sha256 :: "pylib \<Rightarrow> native_library \<Rightarrow> string" where
  "hydrator_sha256 L lib = sha256_hex L (nl_image lib)"

definition native_transport ::
  "pylib \<Rightarrow> (string \<Rightarrow> native_library option) \<Rightarrow> environ \<Rightarrow> native_library res" where
  "native_transport L installed env =
     (let library = (case env HYDRATION_LIBRARY_ENV of None \<Rightarrow> [] | Some p \<Rightarrow> p) in
      if library = []
      then Inl (HydrationError ''COLDSNAP_HYDRATION_NATIVE_LIBRARY is required for backend'')
      else
      bind_res (native_hydrator_init installed library) (\<lambda>lib.
      let expected = (case env HYDRATION_LIBRARY_SHA256_ENV of None \<Rightarrow> [] | Some h \<Rightarrow> h) in
      if expected = [] then Inr lib
      else if length expected \<noteq> 64 \<or> py_lower expected \<noteq> expected
      then Inl (HydrationError ''COLDSNAP_HYDRATION_NATIVE_SHA256 must be 64 lowercase hexadecimal characters'')
      else if hex_bytes expected = None
      then Inl (HydrationError ''COLDSNAP_HYDRATION_NATIVE_SHA256 is not hexadecimal'')
      else if hydrator_sha256 L lib \<noteq> expected
      then Inl (HydrationError ''native transfer library SHA-256 mismatch'')
      else Inr lib))"

definition hydrator_from_env ::
  "pylib \<Rightarrow> (string \<Rightarrow> native_library option) \<Rightarrow> environ \<Rightarrow> (native_library \<times> string) option res" where
  "hydrator_from_env L installed env =
     (let backend = (case env HYDRATION_BACKEND_ENV of None \<Rightarrow> ''python'' | Some b \<Rightarrow> b) in
      if backend = ''python'' then Inr None
      else if dict_get BACKENDS backend = None \<and> backend \<noteq> ''auto''
      then Inl (ValueError ''COLDSNAP_HYDRATION_BACKEND must be python, auto, buffered, direct, or gds'')
      else bind_res (native_transport L installed env) (\<lambda>lib. Inr (Some (lib, backend))))"

definition capture_from_env ::
  "pylib \<Rightarrow> (string \<Rightarrow> native_library option) \<Rightarrow> environ \<Rightarrow> (native_library \<times> string) option res" where
  "capture_from_env L installed env =
     (let backend = (case env CAPTURE_BACKEND_ENV of None \<Rightarrow> ''python'' | Some b \<Rightarrow> b) in
      if backend = ''python'' then Inr None
      else if dict_get CAPTURE_BACKENDS backend = None \<and> backend \<noteq> ''auto''
      then Inl (ValueError ''COLDSNAP_CAPTURE_BACKEND must be python, auto, buffered, or direct'')
      else
      bind_res (native_transport L installed env) (\<lambda>lib.
      bind_res (traverse (capture_available lib) (map fst CAPTURE_BACKENDS)) (\<lambda>oks.
      if \<not> list_ex (\<lambda>ok. ok) oks
      then Inl (HydrationError ''native transfer library does not expose an available capture backend'')
      else Inr (Some (lib, backend)))))"

section \<open>Checksums survive the trip through text\<close>

lemma hex8_value: "py_int16 (hex8 w) = Some (uint w)"
proof -
  define n where "n = unat w"
  have n: "n < 4294967296" unfolding n_def using unsigned_less [of w, where 'a = nat] by simp
  have step: "16 * (n div (16 * k)) + n div k mod 16 = n div k" for k
    by (metis div_mult2_eq mult.commute mult_div_mod_eq)
  have "hex8 w = map hex_digit (map (\<lambda>i. n div 16 ^ i mod 16) [7, 6, 5, 4, 3, 2, 1, 0])"
    by (simp add: hex8_def n_def)
  then have "py_int16 (hex8 w) =
      Some (int (foldl (\<lambda>a d. 16 * a + d) 0 (map (\<lambda>i. n div 16 ^ i mod 16) [7, 6, 5, 4, 3, 2, 1, 0])))"
    by (simp only: py_int16_hex list_all_iff) (subst py_int16_hex, simp_all)
  also have "foldl (\<lambda>a d. 16 * a + d) 0 (map (\<lambda>i. n div 16 ^ i mod 16) [7, 6, 5, 4, 3, 2, 1, 0]) = n"
  proof -
    have "n div 268435456 mod 16 = n div 268435456" "16 * (n div 16) + n mod 16 = n" using n by simp_all
    then show ?thesis
      using step [of 16777216, simplified] step [of 1048576, simplified] step [of 65536, simplified]
        step [of 4096, simplified] step [of 256, simplified] step [of 16, simplified]
      by simp
  qed
  finally show ?thesis by (simp add: n_def)
qed

lemma hex8_hex [simp]: "length (hex8 w) = 8" "py_lower (hex8 w) = hex8 w" "hex_bytes (hex8 w) \<noteq> None"
  by (simp_all add: hex8_def py_lower_def)

lemma hex8_not_Nil [simp]: "hex8 w \<noteq> []"
  by (simp add: hex8_def)

text \<open>The extent that reads a captured extent back into device memory.\<close>

definition reload_extent :: "capture_extent \<Rightarrow> capture_digest \<Rightarrow> int \<Rightarrow> hydration_extent" where
  "reload_extent e d destination =
     \<lparr>he_file_offset = ce_file_offset e, he_destination = destination, he_length = ce_length e,
      he_crc32 = cd_crc32 d, he_sha256 = cd_sha256 d\<rparr>"

text \<open>
  C35: the digests that capture reports for an extent are accepted as the checksums of the
  extent that loads it back, and reach the native library as the same words: the verification
  mode is the checksum kind of the captured extent, the expected CRC and SHA-256 are the ones
  the capture computed, and offset, length and address are exact when they fit 64 bits.
\<close>

theorem capture_digest_roundtrip:
  assumes "capture_extent_init e = Inr e" "length (ncd_sha256 d) = 32" "0 < destination"
    and "ce_file_offset e < 2 ^ 64" "ce_length e < 2 ^ 64" "destination < 2 ^ 64"
  shows "\<exists>k n. parse_checksum (ce_checksum e) = Some k \<and>
      hydration_extent_init (reload_extent e (captured_digest e d) destination) =
        Inr (reload_extent e (captured_digest e d) destination) \<and>
      native_extent_of (reload_extent e (captured_digest e d) destination) False = Inr n \<and>
      ne_verification n = checksum_id k \<and>
      ne_expected_crc32 n = (if k = ChecksumNone then 0 else ncd_crc32 d) \<and>
      ne_expected_sha256 n = (if k = ChecksumCrc32Sha256 then ncd_sha256 d else replicate 32 0) \<and>
      uint (ne_file_offset n) = ce_file_offset e \<and> uint (ne_length n) = ce_length e \<and>
      uint (ne_destination n) = destination"
proof -
  obtain k where k: "parse_checksum (ce_checksum e) = Some k"
    using assms(1) by (auto simp: capture_extent_init_def split: if_splits)
  have pos: "0 \<le> ce_file_offset e" "0 < ce_length e"
    using assms(1) by (auto simp: capture_extent_init_def split: if_splits)
  have ne: "bytes_hex (ncd_sha256 d) \<noteq> []"
    using assms(2) by (metis length_bytes_hex list.size(3) mult_eq_0_iff zero_neq_numeral)
  have word: "uint (word_of_int x :: 64 word) = x" if "0 \<le> x" "x < 2 ^ 64" for x
    using that by (simp add: uint_word_of_int)
  note [simp] = word
  consider "ce_checksum e = ''none'' \<and> k = ChecksumNone" | "ce_checksum e = ''crc32'' \<and> k = ChecksumCrc32"
    | "ce_checksum e = ''crc32+sha256'' \<and> k = ChecksumCrc32Sha256"
    using k by (auto simp: parse_checksum_def split: if_splits)
  then show ?thesis
    using assms(2-6) pos k ne
    by cases
      (auto simp: reload_extent_def captured_digest_def hydration_extent_init_def
        check_extent_crc32_def check_extent_sha256_def native_extent_of_def extent_digest_def
        extent_crc_def verification_mode_def hex8_value)
qed

definition demo_capture_extent :: capture_extent where
  "demo_capture_extent =
     \<lparr>ce_file_offset = 4096, ce_source = 140737488355328, ce_length = 8192, ce_checksum = ''crc32+sha256''\<rparr>"

definition demo_digest :: native_capture_digest where
  "demo_digest = \<lparr>ncd_crc32 = 0xCBF43926, ncd_reserved = 0, ncd_sha256 = replicate 32 7\<rparr>"

theorem capture_digest_roundtrip_witness:
  "\<exists>n. native_extent_of
       (reload_extent demo_capture_extent (captured_digest demo_capture_extent demo_digest) 4096) False =
       Inr n \<and>
     ne_expected_crc32 n = ncd_crc32 demo_digest \<and> ne_expected_sha256 n = ncd_sha256 demo_digest \<and>
     ne_verification n = 2"
proof -
  have "capture_extent_init demo_capture_extent = Inr demo_capture_extent"
    "parse_checksum (ce_checksum demo_capture_extent) = Some ChecksumCrc32Sha256"
    "ce_file_offset demo_capture_extent = 4096" "ce_length demo_capture_extent = 8192"
    by (simp_all add: demo_capture_extent_def capture_extent_init_def parse_checksum_def)
  moreover have "length (ncd_sha256 demo_digest) = 32" by (simp add: demo_digest_def)
  ultimately show ?thesis
    using capture_digest_roundtrip [of demo_capture_extent demo_digest 4096] by simp blast
qed

section \<open>Guards of the transfers\<close>

text \<open>
  With the policy \<^verbatim>\<open>auto\<close>, direct I/O is chosen exactly when every extent is aligned and the
  library offers the direct backend, buffered I/O when it is available and direct is not
  chosen, and otherwise the call is refused; an explicit backend is kept or refused.
\<close>

theorem resolve_backend_cases:
  "resolve_backend lib backend extents =
     (if backend = ''auto'' then
        (if direct_compatible extents \<and> nl_hydration_backend_available lib 2 \<noteq> 0 then Inr ''direct''
         else if nl_hydration_backend_available lib 1 \<noteq> 0 then Inr ''buffered''
         else Inl (HydrationError
           ''native hydration auto policy found no compatible buffered/direct backend''))
      else if backend \<in> {''buffered'', ''direct'', ''gds''} then Inr backend
      else Inl (ValueError ''hydration backend must be buffered, direct, or gds''))"
proof (cases "backend = ''auto''")
  case True
  then show ?thesis
    by (simp add: resolve_backend_def available_def backend_id_def BACKENDS_def) blast
next
  case False
  then show ?thesis by (simp add: resolve_backend_def backend_id_def BACKENDS_def)
qed

lemma traverse_Inr_map:
  "traverse f xs = Inr ys \<Longrightarrow> i < length xs \<Longrightarrow> f (xs ! i) = Inr (ys ! i)"
  by (auto simp: traverse_eq_Inr list_all2_conv_all_nth)

text \<open>
  C36: a hydration that returns metrics made one native call, with status zero and a result of
  the requested ABI and backend, on a non-empty list of extents, an aligned positive chunk
  size and a queue depth between 1 and 64; every extent that carries a CRC went to the library
  with verification on, unless the artifact was verified before, and the device-direct
  backend was used only on a verified artifact.
\<close>

theorem hydrate_guarded:
  assumes "hydrate lib path extents c = Inr m"
  shows "extents \<noteq> [] \<and> 0 < hc_chunk_bytes c \<and> 4096 dvd hc_chunk_bytes c \<and>
    1 \<le> hc_queue_depth c \<and> hc_queue_depth c \<le> 64 \<and>
    resolve_backend lib (hc_backend c) extents = Inr (hm_backend m) \<and>
    (hm_backend m = ''gds'' \<longrightarrow> hc_preverified c) \<and>
    (\<exists>native i r. dict_get BACKENDS (hm_backend m) = Some i \<and>
       nl_hydrate_file lib path native (native_options_of c i) = (0, r) \<and>
       nr_abi_version r = ABI_VERSION \<and> nr_backend r = i \<and> m = metrics_of (hm_backend m) r \<and>
       length native = length extents \<and>
       (\<forall>j < length extents. native_extent_of (extents ! j) (hc_preverified c) = Inr (native ! j) \<and>
          (he_crc32 (extents ! j) \<noteq> None \<and> \<not> hc_preverified c \<longrightarrow> ne_verification (native ! j) \<noteq> 0)))"
proof -
  have 1: "extents \<noteq> []" "0 < hc_chunk_bytes c" "hc_chunk_bytes c mod 4096 = 0"
    "1 \<le> hc_queue_depth c" "hc_queue_depth c \<le> 64"
    using assms by (auto simp: hydrate_def split: if_splits)
  obtain backend i native where b: "resolve_backend lib (hc_backend c) extents = Inr backend"
    "backend = ''gds'' \<longrightarrow> hc_preverified c" "dict_get BACKENDS backend = Some i"
    and t: "traverse (\<lambda>e. native_extent_of e (hc_preverified c)) extents = Inr native"
    using assms 1 by (auto simp: hydrate_def backend_id_def split: if_splits)
  obtain status r where r: "nl_hydrate_file lib path native (native_options_of c i) = (status, r)"
    by (cases "nl_hydrate_file lib path native (native_options_of c i)")
  have 2: "status = 0" "nr_abi_version r = ABI_VERSION" "nr_backend r = i" "m = metrics_of backend r"
    using assms 1 b t r by (auto simp: hydrate_def backend_id_def split: if_splits)
  have m: "hm_backend m = backend" by (simp add: 2 metrics_of_def)
  have "ne_verification n \<noteq> 0" if "native_extent_of e False = Inr n" "he_crc32 e \<noteq> None" for e n
    using that by (auto simp: native_extent_of_def verification_mode_def split: if_splits)
  then have all: "\<forall>j < length extents. native_extent_of (extents ! j) (hc_preverified c) = Inr (native ! j) \<and>
      (he_crc32 (extents ! j) \<noteq> None \<and> \<not> hc_preverified c \<longrightarrow> ne_verification (native ! j) \<noteq> 0)"
    using traverse_Inr_map [OF t] by (cases "hc_preverified c") (simp, simp, blast)
  show ?thesis
    unfolding m
    by (intro conjI exI [of _ native] exI [of _ i] exI [of _ r])
      (use 1 b r 2 all traverse_length [OF t] in \<open>simp_all add: dvd_eq_mod_eq_0\<close>)
qed

definition demo_library :: native_library where
  "demo_library =
     \<lparr>nl_hydrate_file = (\<lambda>path extents options. (0,
        \<lparr>nr_abi_version = 1, nr_backend = no_backend options,
         nr_bytes = sum_list (map ne_length extents), nr_chunks = 1, nr_verified_extents = 0,
         nr_initialization_ns = 0, nr_io_service_ns = 0, nr_io_wait_ns = 0, nr_checksum_ns = 0,
         nr_cuda_enqueue_ns = 0, nr_cuda_synchronize_ns = 0, nr_total_ns = 5\<rparr>)),
      nl_hydration_backend_available = (\<lambda>_. 1), nl_last_error = None,
      nl_capture_file = None, nl_capture_backend_available = None, nl_image = []\<rparr>"

definition demo_call :: hydrate_call where
  "demo_call =
     \<lparr>hc_backend = ''auto'', hc_chunk_bytes = 8192, hc_queue_depth = 4, hc_cuda_device = 0,
      hc_preverified = False, hc_register_device_buffers = False\<rparr>"

definition demo_extent :: hydration_extent where
  "demo_extent =
     \<lparr>he_file_offset = 4096, he_destination = 8192, he_length = 4096, he_crc32 = Some ''0000002a'',
      he_sha256 = None\<rparr>"

theorem hydrate_guarded_witness:
  "\<exists>m. hydrate demo_library ''weights.bin'' [demo_extent] demo_call = Inr m \<and> hm_backend m = ''direct'' \<and>
     resolve_backend demo_library ''auto'' [demo_extent] = Inr ''direct''"
proof -
  have "case hydrate demo_library ''weights.bin'' [demo_extent] demo_call of
      Inl e \<Rightarrow> False | Inr m \<Rightarrow> hm_backend m = ''direct''"
    by code_simp
  then obtain m where m: "hydrate demo_library ''weights.bin'' [demo_extent] demo_call = Inr m"
    "hm_backend m = ''direct''" by (auto split: sum.splits)
  have "resolve_backend demo_library (hc_backend demo_call) [demo_extent] = Inr (hm_backend m)"
    using hydrate_guarded [OF m(1)] by blast
  with m show ?thesis by (simp add: demo_call_def)
qed

text \<open>The range of file bytes that an extent occupies, padded if padding is on.\<close>

definition capture_end :: "bool \<Rightarrow> capture_extent \<Rightarrow> int" where
  "capture_end pad e =
     (if pad then align_up (ce_file_offset e + ce_length e) DIRECT_ALIGNMENT
      else ce_file_offset e + ce_length e)"

lemma capture_order_step_eq:
  "capture_order_step pad p e = Inr q \<longleftrightarrow>
   p \<le> ce_file_offset e \<and> (pad \<longrightarrow> DIRECT_ALIGNMENT dvd ce_file_offset e) \<and> q = capture_end pad e"
  by (auto simp: capture_order_step_def capture_end_def align_up_def dvd_eq_mod_eq_0)

fun capture_chain :: "bool \<Rightarrow> int \<Rightarrow> capture_extent list \<Rightarrow> bool" where
  "capture_chain pad p [] = True"
| "capture_chain pad p (e # es) =
     (p \<le> ce_file_offset e \<and> (pad \<longrightarrow> DIRECT_ALIGNMENT dvd ce_file_offset e) \<and>
      capture_chain pad (capture_end pad e) es)"

lemma fold_order_chain:
  "(\<exists>q. fold_res (capture_order_step pad) p es = Inr q) \<longleftrightarrow> capture_chain pad p es"
proof (induction es arbitrary: p)
  case (Cons e es)
  show ?case
  proof (cases "capture_order_step pad p e")
    case (Inl x)
    then have "\<not> (p \<le> ce_file_offset e \<and> (pad \<longrightarrow> DIRECT_ALIGNMENT dvd ce_file_offset e))"
      using capture_order_step_eq [of pad p e "capture_end pad e"] by auto
    then show ?thesis using Inl by auto
  next
    case (Inr q)
    then show ?thesis using Cons.IH [of q] capture_order_step_eq [of pad p e q] by auto
  qed
qed simp

lemma capture_end_ge: "0 < ce_length e \<Longrightarrow> ce_file_offset e < capture_end pad e"
  using align_up_ge [of DIRECT_ALIGNMENT "ce_file_offset e + ce_length e"]
  by (simp add: capture_end_def DIRECT_ALIGNMENT_def)

lemma capture_chain_pairwise:
  assumes "\<And>e. e \<in> set es \<Longrightarrow> 0 < ce_length e"
  shows "capture_chain pad p es \<longleftrightarrow>
    (\<forall>e \<in> set es. p \<le> ce_file_offset e \<and> (pad \<longrightarrow> DIRECT_ALIGNMENT dvd ce_file_offset e)) \<and>
    sorted_wrt (\<lambda>a b. capture_end pad a \<le> ce_file_offset b) es"
  using assms
proof (induction es arbitrary: p)
  case (Cons e es)
  then show ?case
    using capture_end_ge [of e pad] by (fastforce simp: less_le_trans)
qed simp

text \<open>
  The loop that checks the capture extents accepts a list of valid extents exactly when
  every extent ends (after padding, if padding is on) before each later extent starts, and
  padded extents start on a 4096-byte boundary. So no two captured extents share a file byte.
\<close>

theorem check_capture_order_correct:
  assumes "list_all (\<lambda>e. capture_extent_init e = Inr e) es"
  shows "(\<exists>q. check_capture_order pad es = Inr q) \<longleftrightarrow>
    sorted_wrt (\<lambda>a b. capture_end pad a \<le> ce_file_offset b) es \<and>
    (pad \<longrightarrow> list_all (\<lambda>e. DIRECT_ALIGNMENT dvd ce_file_offset e) es)"
proof -
  have "0 < ce_length e" "0 \<le> ce_file_offset e" if "e \<in> set es" for e
    using assms that by (auto simp: list_all_iff capture_extent_init_def split: if_splits)
  then show ?thesis
    unfolding check_capture_order_def fold_order_chain
    by (auto simp: capture_chain_pairwise list_all_iff)
qed

theorem check_capture_order_correct_witness:
  "\<exists>q. check_capture_order True
     [\<lparr>ce_file_offset = 0, ce_source = 1, ce_length = 100, ce_checksum = ''none''\<rparr>,
      \<lparr>ce_file_offset = 4096, ce_source = 1, ce_length = 100, ce_checksum = ''crc32''\<rparr>] = Inr q"
  by (subst check_capture_order_correct)
    (simp_all add: capture_extent_init_def parse_checksum_def capture_end_def align_up_def
      DIRECT_ALIGNMENT_def)

text \<open>
  the check of an extent's CRC text admits white space between pairs of digits, although
  its message asks for eight lowercase hexadecimal digits: \<^verbatim>\<open>bytes.fromhex\<close> skips it. The
  extent is accepted, and only the conversion for the native call fails.
\<close>

theorem extent_crc_white_space:
  "let e = \<lparr>he_file_offset = 0, he_destination = 4096, he_length = 1, he_crc32 = Some ''ab cd ef'',
            he_sha256 = None\<rparr>
   in hydration_extent_init e = Inr e \<and>
      native_extent_of e False = Inl (ValueError ''invalid literal for int() with base 16'')"
  by code_simp

end
