(* ===== verification/Cold_Device.thy ===== *)
theory Cold_Device
  imports Cold_Json
begin

text \<open>
  What the transfers move bytes between: device memory, addressed by device and byte, and
  files, as lists of bytes. Also \<^verbatim>\<open>zlib.crc32\<close>, whose running form the chunked copies use,
  and the copy loops themselves, as loops that may run forever, with the proof that they
  return and move exactly the bytes of the range.
\<close>

section \<open>Device memory\<close>

type_synonym device_memory = "int \<Rightarrow> int \<Rightarrow> byte"

definition read_mem :: "device_memory \<Rightarrow> int \<Rightarrow> int \<Rightarrow> nat \<Rightarrow> byte list" where
  "read_mem mem dev ptr n = map (\<lambda>i. mem dev (ptr + int i)) [0..<n]"

definition write_mem :: "device_memory \<Rightarrow> int \<Rightarrow> int \<Rightarrow> byte list \<Rightarrow> device_memory" where
  "write_mem mem dev ptr bs =
     (\<lambda>d a. if d = dev \<and> ptr \<le> a \<and> a < ptr + int (length bs) then bs ! nat (a - ptr) else mem d a)"

definition ranges_disjoint :: "int \<times> int \<times> nat \<Rightarrow> int \<times> int \<times> nat \<Rightarrow> bool" where
  "ranges_disjoint r s =
     (case (r, s) of ((d, p, n), (e, q, m)) \<Rightarrow> d \<noteq> e \<or> p + int n \<le> q \<or> q + int m \<le> p)"

lemma length_read_mem [simp]: "length (read_mem mem dev ptr n) = n"
  by (simp add: read_mem_def)

lemma read_write_same [simp]: "read_mem (write_mem mem dev ptr bs) dev ptr (length bs) = bs"
  by (rule nth_equalityI) (auto simp: read_mem_def write_mem_def)

lemma read_write_disjoint:
  "ranges_disjoint (dev, ptr, n) (dev', ptr', length bs) \<Longrightarrow>
   read_mem (write_mem mem dev' ptr' bs) dev ptr n = read_mem mem dev ptr n"
  by (auto simp: read_mem_def write_mem_def ranges_disjoint_def)

lemma write_write_adjacent:
  "write_mem (write_mem mem dev ptr as) dev (ptr + int (length as)) bs = write_mem mem dev ptr (as @ bs)"
proof (intro ext)
  fix d a
  have *: "nat (a - (ptr + int n)) = nat (a - ptr) - n" for n by arith
  show "write_mem (write_mem mem dev ptr as) dev (ptr + int (length as)) bs d a =
      write_mem mem dev ptr (as @ bs) d a"
    by (auto simp: write_mem_def nth_append nat_less_iff *)
qed

lemma write_mem_Nil [simp]: "write_mem mem dev ptr [] = mem"
  by (auto simp: write_mem_def fun_eq_iff)

section \<open>Files\<close>

text \<open>Writing at a position of a file that \<^verbatim>\<open>posix_fallocate\<close> has made long enough.\<close>

definition write_at :: "byte list \<Rightarrow> nat \<Rightarrow> byte list \<Rightarrow> byte list" where
  "write_at file pos bs =
     take pos (file @ replicate (pos - length file) 0) @ bs @ drop (pos + length bs) file"

definition read_at :: "byte list \<Rightarrow> nat \<Rightarrow> nat \<Rightarrow> byte list" where
  "read_at file pos n = take n (drop pos file)"

lemma length_write_at [simp]:
  "length (write_at file pos bs) = max (length file) (pos + length bs)"
  by (auto simp: write_at_def)

lemma read_write_at [simp]: "read_at (write_at file pos bs) pos (length bs) = bs"
  by (simp add: read_at_def write_at_def)

lemma nth_write_at_other:
  assumes "j < length file" "j < q \<or> q + length bs \<le> j"
  shows "write_at file q bs ! j = file ! j"
proof (cases "j < q")
  case True
  then show ?thesis using assms(1) by (simp add: write_at_def nth_append)
next
  case False
  then have le: "q + length bs \<le> j" "\<not> j - q < length bs" using assms(2) by simp_all
  have "write_at file q bs ! j = drop (q + length bs) file ! (j - (q + length bs))"
    using False le assms(1) by (simp add: write_at_def nth_append min_def)
  then show ?thesis using le(1) assms(1) by simp
qed

lemma read_write_at_other:
  assumes "pos + n \<le> length file" "pos + n \<le> q \<or> q + length bs \<le> pos"
  shows "read_at (write_at file q bs) pos n = read_at file pos n"
proof (rule nth_equalityI)
  show "length (read_at (write_at file q bs) pos n) = length (read_at file pos n)"
    using assms(1) by (simp add: read_at_def)
next
  fix i assume "i < length (read_at (write_at file q bs) pos n)"
  then have i: "i < n" by (simp add: read_at_def)
  then have "write_at file q bs ! (pos + i) = file ! (pos + i)"
    using assms by (intro nth_write_at_other) auto
  with i assms(1) show "read_at (write_at file q bs) pos n ! i = read_at file pos n ! i"
    by (simp add: read_at_def)
qed

lemma write_at_append:
  assumes "pos + length as + length bs \<le> length file"
  shows "write_at (write_at file pos as) (pos + length as) bs = write_at file pos (as @ bs)"
  using assms by (simp add: write_at_def min_def add.assoc) (cases as; auto simp: add_ac)

lemma write_at_Nil [simp]: "pos \<le> length file \<Longrightarrow> write_at file pos [] = file"
  by (simp add: write_at_def)

section \<open>CRC-32\<close>

unbundle bit_operations_syntax

text \<open>One step of the reflected polynomial \<^verbatim>\<open>0xEDB88320\<close>, byte by byte.\<close>

definition crc_bit :: "32 word \<Rightarrow> 32 word" where
  "crc_bit c = (if c AND 1 = 1 then drop_bit 1 c XOR 0xEDB88320 else drop_bit 1 c)"

definition crc_byte :: "32 word \<Rightarrow> byte \<Rightarrow> 32 word" where
  "crc_byte c b = (crc_bit ^^ 8) (c XOR ucast b)"

definition zlib_crc32 :: "byte list \<Rightarrow> 32 word \<Rightarrow> 32 word" where
  "zlib_crc32 bs crc = foldl crc_byte (crc XOR 0xFFFFFFFF) bs XOR 0xFFFFFFFF"

lemma zlib_crc32_append: "zlib_crc32 (as @ bs) crc = zlib_crc32 bs (zlib_crc32 as crc)"
  by (simp add: zlib_crc32_def xor.assoc)

lemma zlib_crc32_Nil [simp]: "zlib_crc32 [] crc = crc"
  by (simp add: zlib_crc32_def xor.assoc)

text \<open>The published check value of CRC-32 is that of the digits one to nine.\<close>

lemma zlib_crc32_check: "zlib_crc32 (ascii_bytes ''123456789'') 0 = 0xCBF43926"
proof -
  have step: "crc_byte c b = crc_bit (crc_bit (crc_bit (crc_bit (crc_bit (crc_bit (crc_bit (crc_bit
      (c XOR ucast b))))))))" for c b
    by (simp add: crc_byte_def eval_nat_numeral)
  have bytes: "ascii_bytes ''123456789'' = [0x31, 0x32, 0x33, 0x34, 0x35, 0x36, 0x37, 0x38, 0x39]"
    by (simp add: ascii_bytes_def)
  show ?thesis unfolding bytes zlib_crc32_def by (simp add: step crc_bit_def)
qed

section \<open>Copy loops\<close>

text \<open>
  The loop that stages a storage into a file chunk by chunk. Its state is the file, the
  bytes the storage digest and the blob digest have been fed, the running CRC and the number
  of bytes copied. A stage of no bytes would never get further, so the loop is partial.
\<close>

record copy_state =
  cy_file :: "byte list"
  cy_storage_digest :: "byte list"
  cy_blob_digest :: "byte list"
  cy_crc :: "32 word"
  cy_copied :: nat

partial_function (option) stage_out ::
  "nat \<Rightarrow> byte list \<Rightarrow> nat \<Rightarrow> copy_state \<Rightarrow> copy_state option" where
  "stage_out stage_size raw offset s =
     (if cy_copied s < length raw then
        (let n = min stage_size (length raw - cy_copied s);
             view = take n (drop (cy_copied s) raw) in
         stage_out stage_size raw offset
           (s\<lparr>cy_file := write_at (cy_file s) (offset + cy_copied s) view,
              cy_storage_digest := cy_storage_digest s @ view,
              cy_blob_digest := cy_blob_digest s @ view,
              cy_crc := zlib_crc32 view (cy_crc s),
              cy_copied := cy_copied s + n\<rparr>))
      else Some s)"

lemma stage_out_correct:
  assumes "0 < stage_size" "cy_copied s \<le> length raw" "offset + length raw \<le> length (cy_file s)"
  shows "stage_out stage_size raw offset s =
    Some (s\<lparr>cy_file := write_at (cy_file s) (offset + cy_copied s) (drop (cy_copied s) raw),
            cy_storage_digest := cy_storage_digest s @ drop (cy_copied s) raw,
            cy_blob_digest := cy_blob_digest s @ drop (cy_copied s) raw,
            cy_crc := zlib_crc32 (drop (cy_copied s) raw) (cy_crc s),
            cy_copied := length raw\<rparr>)"
  using assms(2,3)
proof (induction "length raw - cy_copied s" arbitrary: s rule: less_induct)
  case less
  show ?case
  proof (cases "cy_copied s < length raw")
    case False
    then show ?thesis using less.prems by (subst stage_out.simps) simp
  next
    case True
    define n where "n = min stage_size (length raw - cy_copied s)"
    define view where "view = take n (drop (cy_copied s) raw)"
    define rest where "rest = drop (cy_copied s + n) raw"
    define s' where "s' = s\<lparr>cy_file := write_at (cy_file s) (offset + cy_copied s) view,
        cy_storage_digest := cy_storage_digest s @ view, cy_blob_digest := cy_blob_digest s @ view,
        cy_crc := zlib_crc32 view (cy_crc s), cy_copied := cy_copied s + n\<rparr>"
    have n: "0 < n" "cy_copied s + n \<le> length raw" using True assms(1) by (auto simp: n_def)
    have len: "length view = n" using n by (simp add: view_def)
    have split: "drop (cy_copied s) raw = view @ rest"
      by (simp add: view_def rest_def add.commute flip: drop_drop)
    have lens: "cy_copied s + (n + length rest) = length raw" using n by (simp add: rest_def)
    have "stage_out stage_size raw offset s = stage_out stage_size raw offset s'"
      using True by (subst stage_out.simps) (simp add: s'_def n_def view_def Let_def)
    also have "\<dots> = Some (s'\<lparr>cy_file := write_at (cy_file s') (offset + cy_copied s') rest,
            cy_storage_digest := cy_storage_digest s' @ rest, cy_blob_digest := cy_blob_digest s' @ rest,
            cy_crc := zlib_crc32 rest (cy_crc s'), cy_copied := length raw\<rparr>)"
      using less.hyps [of s'] n less.prems len unfolding rest_def by (simp add: s'_def)
    also have "write_at (cy_file s') (offset + cy_copied s') rest =
        write_at (cy_file s) (offset + cy_copied s) (drop (cy_copied s) raw)"
      using write_at_append [of "offset + cy_copied s" view rest "cy_file s"] less.prems lens len
      by (simp add: s'_def split add.assoc)
    finally show ?thesis
      by (simp add: s'_def split zlib_crc32_append)
  qed
qed

text \<open>
  The loop that loads a storage from a file. A short read is the end of the file. What was
  copied before the error stays in device memory.
\<close>

record load_state =
  ld_memory :: device_memory
  ld_digest :: "byte list"
  ld_crc :: "32 word"
  ld_copied :: nat

partial_function (option) stage_in ::
  "nat \<Rightarrow> bool \<Rightarrow> byte list \<Rightarrow> nat \<Rightarrow> int \<Rightarrow> int \<Rightarrow> nat \<Rightarrow> load_state \<Rightarrow> (load_state \<times> bool) option" where
  "stage_in stage_size preverified file pos dev ptr remaining s =
     (if ld_copied s < remaining then
        (let n = min stage_size (remaining - ld_copied s);
             view = read_at file (pos + ld_copied s) n in
         if length view \<noteq> n then Some (s, False)
         else stage_in stage_size preverified file pos dev ptr remaining
           (s\<lparr>ld_memory := write_mem (ld_memory s) dev (ptr + int (ld_copied s)) view,
              ld_digest := (if preverified then ld_digest s else ld_digest s @ view),
              ld_crc := (if preverified then ld_crc s else zlib_crc32 view (ld_crc s)),
              ld_copied := ld_copied s + n\<rparr>))
      else Some (s, True))"

lemma read_at_split:
  assumes "m \<le> n"
  shows "read_at file pos n = read_at file pos m @ read_at file (pos + m) (n - m)"
proof -
  obtain k where "n = m + k" using assms le_Suc_ex by blast
  then have "take n (drop pos file) = take m (drop pos file) @ take k (drop m (drop pos file))" "n - m = k"
    by (simp_all only: take_add diff_add_inverse)
  then show ?thesis by (simp add: read_at_def add.commute)
qed

lemma stage_in_correct:
  assumes "0 < stage_size" "ld_copied s \<le> remaining" "pos + remaining \<le> length file"
  shows "stage_in stage_size preverified file pos dev ptr remaining s =
    Some (s\<lparr>ld_memory := write_mem (ld_memory s) dev (ptr + int (ld_copied s))
              (read_at file (pos + ld_copied s) (remaining - ld_copied s)),
            ld_digest := (if preverified then ld_digest s
              else ld_digest s @ read_at file (pos + ld_copied s) (remaining - ld_copied s)),
            ld_crc := (if preverified then ld_crc s
              else zlib_crc32 (read_at file (pos + ld_copied s) (remaining - ld_copied s)) (ld_crc s)),
            ld_copied := remaining\<rparr>, True)"
  using assms(2)
proof (induction "remaining - ld_copied s" arbitrary: s rule: less_induct)
  case less
  show ?case
  proof (cases "ld_copied s < remaining")
    case False
    then show ?thesis using less.prems by (subst stage_in.simps) (simp add: read_at_def)
  next
    case True
    define n where "n = min stage_size (remaining - ld_copied s)"
    define view where "view = read_at file (pos + ld_copied s) n"
    define rest where "rest = read_at file (pos + (ld_copied s + n)) (remaining - (ld_copied s + n))"
    define s' where "s' = s\<lparr>ld_memory := write_mem (ld_memory s) dev (ptr + int (ld_copied s)) view,
        ld_digest := (if preverified then ld_digest s else ld_digest s @ view),
        ld_crc := (if preverified then ld_crc s else zlib_crc32 view (ld_crc s)),
        ld_copied := ld_copied s + n\<rparr>"
    have n: "0 < n" "ld_copied s + n \<le> remaining" using True assms(1) by (auto simp: n_def)
    have len: "length view = n" using n assms(3) by (simp add: view_def read_at_def)
    have split: "read_at file (pos + ld_copied s) (remaining - ld_copied s) = view @ rest"
      using read_at_split [of n "remaining - ld_copied s" _ "pos + ld_copied s"] n
      by (simp add: view_def rest_def add.assoc)
    have "stage_in stage_size preverified file pos dev ptr remaining s =
        stage_in stage_size preverified file pos dev ptr remaining s'"
      using True len by (subst stage_in.simps) (simp add: s'_def n_def view_def Let_def)
    also have "\<dots> = Some (s'\<lparr>ld_memory := write_mem (ld_memory s') dev (ptr + int (ld_copied s')) rest,
            ld_digest := (if preverified then ld_digest s' else ld_digest s' @ rest),
            ld_crc := (if preverified then ld_crc s' else zlib_crc32 rest (ld_crc s')),
            ld_copied := remaining\<rparr>, True)"
      using less.hyps [of s'] n unfolding rest_def by (simp add: s'_def)
    also have "write_mem (ld_memory s') dev (ptr + int (ld_copied s')) rest =
        write_mem (ld_memory s) dev (ptr + int (ld_copied s)) (view @ rest)"
      using write_write_adjacent [of "ld_memory s" dev "ptr + int (ld_copied s)" view rest] len
      by (simp add: s'_def add.assoc)
    finally show ?thesis by (simp add: s'_def split zlib_crc32_append)
  qed
qed

lemma stage_in_short:
  assumes "0 < stage_size" "ld_copied s < remaining" "length file < pos + remaining"
  shows "\<exists>s'. stage_in stage_size preverified file pos dev ptr remaining s = Some (s', False)"
  using assms(2)
proof (induction "remaining - ld_copied s" arbitrary: s rule: less_induct)
  case less
  define n where "n = min stage_size (remaining - ld_copied s)"
  define view where "view = read_at file (pos + ld_copied s) n"
  show ?case
  proof (cases "length view = n")
    case False
    then show ?thesis using less.prems
      by (subst stage_in.simps) (simp add: n_def view_def Let_def)
  next
    case True
    have "ld_copied s + n < remaining"
    proof (rule ccontr)
      assume "\<not> ld_copied s + n < remaining"
      then have "ld_copied s + n = remaining" using less.prems by (simp add: n_def)
      with True assms(3) less.prems show False
        by (auto simp: view_def read_at_def)
    qed
    moreover have "0 < n" using assms(1) less.prems by (simp add: n_def)
    ultimately have "\<exists>s'. stage_in stage_size preverified file pos dev ptr remaining
        (s\<lparr>ld_memory := m, ld_digest := d, ld_crc := c, ld_copied := ld_copied s + n\<rparr>) = Some (s', False)"
      for m d c by (intro less.hyps) simp_all
    then show ?thesis using less.prems True
      by (subst stage_in.simps) (simp add: n_def view_def Let_def)
  qed
qed

end
