(* ===== verification/Cold_Validation.thy ===== *)
theory Cold_Validation
  imports Cold_Device
begin

text \<open>
  Model of \<^verbatim>\<open>integrations/core/coldsnap_core/validation.py\<close>: the SHA-256 validation of a payload
  file with a cached record beside it, and the admission of a result of an external
  validator.

  The file system is a map from paths to nodes with their \<^verbatim>\<open>stat\<close> fields and content. Other
  processes may act while a payload is validated: the opened file is a sequence of versions
  that the reads see one after the other, and a function says what happens to the file system
  between closing the payload and publishing the record. Wall-clock values are arguments. The
  record is written without the indentation of the source, which reading skips.
\<close>

section \<open>File system\<close>

record file_stat =
  st_dev :: int
  st_ino :: int
  st_size :: int
  st_mtime_ns :: int
  st_ctime_ns :: int
  st_uid :: int
  st_gid :: int
  st_mode :: int

record file_node =
  fn_stat :: file_stat
  fn_regular :: bool
  fn_data :: "byte list"

type_synonym file_system = "string \<Rightarrow> file_node option"

definition path_name :: "string \<Rightarrow> string" where
  "path_name p = last (split_on CHR ''/'' p)"

text \<open>The permission bits of group and others, \<^verbatim>\<open>mode & 0o077 == 0\<close>, and \<^verbatim>\<open>stat.S_IMODE\<close>.\<close>

definition private_mode :: "int \<Rightarrow> bool" where
  "private_mode m \<longleftrightarrow> m mod 64 = 0"

definition imode :: "int \<Rightarrow> int" where
  "imode m = m mod 4096"

section \<open>Digests and records\<close>

definition RECORD_SUFFIX :: string where
  "RECORD_SUFFIX = ''.coldsnap-validation.json''"

definition RECORD_KIND :: string where
  "RECORD_KIND = ''coldsnap-payload-validation''"

definition RESULT_KIND :: string where
  "RESULT_KIND = ''coldsnap-payload-validation-result''"

definition PROVIDER :: string where
  "PROVIDER = ''sha256-cache-v1''"

definition DEFAULT_HASH_CHUNK_BYTES :: int where
  "DEFAULT_HASH_CHUNK_BYTES = 16 * 1024 ^ 2"

definition normalize_sha256 :: "string \<Rightarrow> string res" where
  "normalize_sha256 value =
     (let digest = remove_prefix value ''sha256:'' in
      if length digest \<noteq> 64 \<or> py_lower digest \<noteq> digest
      then Inl (PayloadValidationError ''invalid_expected_digest'')
      else if hex_bytes digest = None
      then Inl (PayloadValidationError ''invalid_expected_digest'')
      else Inr (''sha256:'' @ digest))"

definition validation_record_path :: "string \<Rightarrow> string" where
  "validation_record_path blob = blob @ RECORD_SUFFIX"

definition open_regular_file :: "file_system \<Rightarrow> string \<Rightarrow> file_node res" where
  "open_regular_file fs path =
     (case fs path of
        None \<Rightarrow> Inl FileNotFoundErr
      | Some n \<Rightarrow> if fn_regular n then Inr n else Inl (PayloadValidationError ''unusable_path''))"

definition content_identity :: "file_stat \<Rightarrow> json" where
  "content_identity s =
     JObj [(''device'', JInt (st_dev s)), (''inode'', JInt (st_ino s)),
           (''size'', JInt (st_size s)), (''mtime_ns'', JInt (st_mtime_ns s))]"

definition diagnostic_identity :: "file_stat \<Rightarrow> json" where
  "diagnostic_identity s =
     JObj [(''ctime_ns'', JInt (st_ctime_ns s)), (''uid'', JInt (st_uid s)),
           (''gid'', JInt (st_gid s)), (''mode'', JInt (imode (st_mode s)))]"

definition expected_json :: "int \<Rightarrow> string \<Rightarrow> json" where
  "expected_json n sha = JObj [(''bytes'', JInt n), (''sha256'', JStr sha)]"

definition record_matches :: "json \<Rightarrow> string \<Rightarrow> string \<Rightarrow> int \<Rightarrow> json \<Rightarrow> bool" where
  "record_matches record blob expected_sha256 expected_bytes identity =
     (is_obj record
      \<and> py_eq (jget_none record ''format'') (JInt 1)
      \<and> py_eq (jget_none record ''kind'') (JStr RECORD_KIND)
      \<and> py_eq (jget_none record ''provider'') (JStr PROVIDER)
      \<and> py_eq (jget_none record ''blob'') (JStr (path_name blob))
      \<and> py_eq (jget_none record ''expected'') (expected_json expected_bytes expected_sha256)
      \<and> py_eq (jget_none record ''content_identity'') identity)"

section \<open>Hashing an open file\<close>

text \<open>
  \<open>versions k\<close> is the opened file when it is looked at for the \<open>k\<close>-th time: first for its status,
  then for one read after the other. The loop ends at the first empty read, which may never
  come if the file keeps growing.
\<close>

partial_function (option) hash_loop ::
  "(nat \<Rightarrow> file_node) \<Rightarrow> nat \<Rightarrow> nat \<Rightarrow> byte list \<Rightarrow> (byte list \<times> nat) option" where
  "hash_loop versions chunk_bytes k acc =
     (let chunk = read_at (fn_data (versions k)) (length acc) chunk_bytes in
      if chunk = [] then Some (acc, k)
      else hash_loop versions chunk_bytes (Suc k) (acc @ chunk))"

record hash_result =
  hr_digest :: string
  hr_hashed :: nat
  hr_identity :: json
  hr_diagnostics :: json

definition hash_descriptor ::
  "pylib \<Rightarrow> (nat \<Rightarrow> file_node) \<Rightarrow> int \<Rightarrow> hash_result res option" where
  "hash_descriptor L versions chunk_bytes =
     (if chunk_bytes \<le> 0 then Some (Inl (ValueError ''hash chunk size must be positive''))
      else
      let before = content_identity (fn_stat (versions 0)) in
      case hash_loop versions (nat chunk_bytes) 1 [] of
        None \<Rightarrow> None
      | Some (content, k) \<Rightarrow>
          let after_stat = fn_stat (versions (Suc k)); after = content_identity after_stat in
          if \<not> py_eq before after
          then Some (Inl (PayloadValidationError ''changed_during_validation''))
          else Some (Inr
            \<lparr>hr_digest = ''sha256:'' @ sha256_hex L content, hr_hashed = length content,
             hr_identity = after, hr_diagnostics = diagnostic_identity after_stat\<rparr>))"

definition file_sha256 ::
  "pylib \<Rightarrow> file_system \<Rightarrow> (nat \<Rightarrow> file_node) \<Rightarrow> string \<Rightarrow> int \<Rightarrow> string res option" where
  "file_sha256 L fs versions path chunk_bytes =
     (case open_regular_file fs path of
        Inl e \<Rightarrow> Some (Inl e)
      | Inr n \<Rightarrow>
          map_option (\<lambda>r. bind_res r (\<lambda>h. Inr (remove_prefix (hr_digest h) ''sha256:'')))
            (hash_descriptor L versions chunk_bytes))"

section \<open>Publishing and validating\<close>

text \<open>
  Writing the record creates a regular file of mode 0600 (33152 with the file type); its other status fields are whatever the
  file system gives it.
\<close>

definition write_json_atomic ::
  "pylib \<Rightarrow> (file_system \<Rightarrow> file_stat) \<Rightarrow> file_system \<Rightarrow> string \<Rightarrow> json \<Rightarrow> file_system" where
  "write_json_atomic L new_stat fs path value =
     fs(path \<mapsto>
       \<lparr>fn_stat = (new_stat fs)\<lparr>st_mode := 33152\<rparr>, fn_regular = True,
        fn_data = ascii_bytes (json_text L value @ [CHR 0x0A])\<rparr>)"

definition record_json ::
  "string \<Rightarrow> string \<Rightarrow> int \<Rightarrow> file_stat \<Rightarrow> string \<Rightarrow> int \<Rightarrow> json" where
  "record_json blob expected_sha256 expected_bytes s evidence now =
     JObj [(''format'', JInt 1), (''kind'', JStr RECORD_KIND), (''provider'', JStr PROVIDER),
           (''blob'', JStr (path_name blob)),
           (''expected'', expected_json expected_bytes expected_sha256),
           (''content_identity'', content_identity s),
           (''diagnostic_identity'', diagnostic_identity s),
           (''content_evidence'', JStr evidence), (''validated_unix_ns'', JInt now)]"

definition publish_validation_record ::
  "pylib \<Rightarrow> (file_system \<Rightarrow> file_stat) \<Rightarrow> int \<Rightarrow> file_system \<Rightarrow> string \<Rightarrow> string \<Rightarrow> int \<Rightarrow>
   string option \<Rightarrow> string \<Rightarrow> json res \<times> file_system" where
  "publish_validation_record L new_stat now fs blob expected_sha256 expected_bytes record_path evidence =
     (case bind_res (normalize_sha256 expected_sha256) (\<lambda>sha.
           bind_res (open_regular_file fs blob) (\<lambda>n. Inr (sha, fn_stat n))) of
        Inl e \<Rightarrow> (Inl e, fs)
      | Inr (sha, s) \<Rightarrow>
          if st_size s \<noteq> expected_bytes then (Inl (PayloadValidationError ''size_mismatch''), fs)
          else
          let record = record_json blob sha expected_bytes s evidence now;
              target = (case record_path of None \<Rightarrow> validation_record_path blob | Some p \<Rightarrow> p) in
          (Inr record, write_json_atomic L new_stat fs target record))"

text \<open>What the rest of the system contributes to one validation.\<close>

record validation_env =
  ve_versions :: "file_node \<Rightarrow> nat \<Rightarrow> file_node"
  ve_gap :: "file_system \<Rightarrow> file_system"
  ve_new_stat :: "file_system \<Rightarrow> file_stat"
  ve_now :: int
  ve_seconds :: pyfloat

definition read_marker :: "pylib \<Rightarrow> file_system \<Rightarrow> string \<Rightarrow> json option \<times> bool" where
  "read_marker L fs marker =
     (case fs marker of
        None \<Rightarrow> (None, False)
      | Some n \<Rightarrow>
          (case bind_res (utf8_decode (fn_data n)) (json_loads L) of
             Inl _ \<Rightarrow> None
           | Inr v \<Rightarrow> Some v,
           fn_regular n \<and> private_mode (st_mode (fn_stat n))))"

definition accept_json ::
  "string \<Rightarrow> string \<Rightarrow> int \<Rightarrow> pyfloat \<Rightarrow> string \<Rightarrow> json \<Rightarrow> json \<Rightarrow> json" where
  "accept_json reason evidence hashed seconds marker identity diagnostics =
     JObj [(''format'', JInt 1), (''kind'', JStr RESULT_KIND), (''provider'', JStr PROVIDER),
           (''decision'', JStr ''accept''), (''reason'', JStr reason),
           (''content_evidence'', JStr evidence), (''bytes_hashed'', JInt hashed),
           (''seconds'', JFloat seconds), (''record'', JStr marker),
           (''content_identity'', identity), (''diagnostic_identity'', diagnostics)]"

definition validate_payload_python ::
  "pylib \<Rightarrow> validation_env \<Rightarrow> file_system \<Rightarrow> string \<Rightarrow> string \<Rightarrow> int \<Rightarrow> string option \<Rightarrow> int \<Rightarrow>
   (json res \<times> file_system) option" where
  "validate_payload_python L E fs blob expected_sha256 expected_bytes record_path chunk_bytes =
     (let marker = (case record_path of None \<Rightarrow> validation_record_path blob | Some p \<Rightarrow> p) in
      case bind_res (normalize_sha256 expected_sha256) (\<lambda>sha.
           bind_res (open_regular_file fs blob) (\<lambda>n. Inr (sha, n))) of
        Inl e \<Rightarrow> Some (Inl e, fs)
      | Inr (sha, n) \<Rightarrow>
          let identity = content_identity (fn_stat n) in
          if st_size (fn_stat n) \<noteq> expected_bytes
          then Some (Inl (PayloadValidationError ''size_mismatch''), fs)
          else
          let (record, marker_mode_ok) = read_marker L fs marker in
          if marker_mode_ok \<and>
             (case record of None \<Rightarrow> False
              | Some r \<Rightarrow> record_matches r blob sha expected_bytes identity)
          then Some (Inr (accept_json ''cached_validation'' ''cached-full-sha256'' 0 (ve_seconds E)
                       marker identity (diagnostic_identity (fn_stat n))), fs)
          else
          (case hash_descriptor L (ve_versions E n) chunk_bytes of
             None \<Rightarrow> None
           | Some (Inl e) \<Rightarrow> Some (Inl e, fs)
           | Some (Inr h) \<Rightarrow>
               if hr_digest h \<noteq> sha
               then Some (Inl (PayloadValidationError ''digest_mismatch''), fs)
               else
               let (published, fs') =
                 publish_validation_record L (ve_new_stat E) (ve_now E) (ve_gap E fs) blob sha
                   expected_bytes (Some marker) ''full-sha256-this-operation'' in
               (case published of
                  Inl e \<Rightarrow> Some (Inl e, fs')
                | Inr _ \<Rightarrow>
                    Some (Inr (accept_json ''revalidated_existing'' ''full-sha256-this-operation''
                      (int (hr_hashed h)) (ve_seconds E) marker (hr_identity h) (hr_diagnostics h)), fs'))))"

section \<open>External validators\<close>

type_synonym environment = "string \<Rightarrow> string option"

definition validation_transport :: "environment \<Rightarrow> string res" where
  "validation_transport env =
     (let configured = py_lower (py_strip
            (case env ''COLDSNAP_PAYLOAD_VALIDATION_TRANSPORT'' of None \<Rightarrow> ''auto'' | Some v \<Rightarrow> v)) in
      if configured \<notin> {''auto'', ''python'', ''cli'', ''rpc''}
      then Inl (PayloadValidationError ''invalid_external_configuration'')
      else if configured \<noteq> ''auto'' then Inr configured
      else if (case env ''COLDSNAP_PAYLOAD_VALIDATION_RPC_SOCKET'' of None \<Rightarrow> False | Some v \<Rightarrow> v \<noteq> [])
      then Inr ''rpc''
      else if (case env ''COLDSNAP_PAYLOAD_VALIDATION_COMMAND'' of None \<Rightarrow> False | Some v \<Rightarrow> v \<noteq> [])
      then Inr ''cli''
      else Inr ''python'')"

text \<open>\<open>json_item v k\<close> is \<^verbatim>\<open>v[k]\<close> with a string key.\<close>

fun json_item :: "json \<Rightarrow> string \<Rightarrow> json res" where
  "json_item (JObj kvs) k = opt_res (KeyErr k) (dict_get kvs k)"
| "json_item _ k = Inl (TypeErr ''object is not subscriptable with a string'')"

definition json_ints :: "json \<Rightarrow> string list \<Rightarrow> (string \<times> json) list res" where
  "json_ints v names =
     traverse (\<lambda>k. bind_res (json_item v k) (\<lambda>w. bind_res (json_int w) (\<lambda>i. Inr (k, JInt i)))) names"

text \<open>
  The identity part of the admission check: the first field that is missing or differs ends
  the check. \<open>str\<close> and \<open>float\<close> convert a value of the admission to text and to a float.
\<close>

definition admission_differs :: "json \<Rightarrow> json \<Rightarrow> (bool \<times> string \<times> json) list \<Rightarrow> bool res" where
  "admission_differs admission validation checks =
     fold_res (\<lambda>d (outer, k, v).
       if d then Inr True
       else bind_res (json_item (if outer then admission else validation) k) (\<lambda>w. Inr (\<not> py_eq w v)))
     False checks"

definition external_admission ::
  "(json \<Rightarrow> string) \<Rightarrow> (json \<Rightarrow> pyfloat res) \<Rightarrow> json \<Rightarrow> string \<Rightarrow> string \<Rightarrow> string \<Rightarrow> int \<Rightarrow> json res" where
  "external_admission str to_float admission blob marker expected_sha256 expected_bytes =
     bind_res (json_item admission ''validation'') (\<lambda>validation.
     bind_res (admission_differs admission validation
       [(True, ''format'', JInt 1), (True, ''kind'', JStr RESULT_KIND),
        (True, ''decision'', JStr ''accept''), (True, ''path'', JStr blob),
        (True, ''bytes'', JInt expected_bytes), (True, ''sha256'', JStr expected_sha256),
        (False, ''record'', JStr marker), (False, ''provider'', JStr PROVIDER)]) (\<lambda>differs.
     if differs then Inl (ValueError ''admission identity differs from the request'')
     else
     bind_res (json_ints validation [''device'', ''inode'', ''size'', ''mtime_ns'']) (\<lambda>content.
     bind_res (json_ints validation [''ctime_ns'', ''uid'', ''gid'', ''mode'']) (\<lambda>diagnostics.
     if dict_get content ''size'' \<noteq> Some (JInt expected_bytes)
     then Inl (ValueError ''admission content size differs from the request'')
     else
     bind_res (json_item validation ''reason'') (\<lambda>reason.
     bind_res (json_item validation ''content_evidence'') (\<lambda>evidence.
     bind_res (bind_res (json_item validation ''bytes_hashed'') json_int) (\<lambda>hashed.
     bind_res (bind_res (json_item validation ''seconds'') to_float) (\<lambda>seconds.
     Inr (accept_json (str reason) (str evidence) hashed seconds marker
       (JObj content) (JObj diagnostics))))))))))"

text \<open>The classes that the handler around it catches.\<close>

fun lookup_error :: "exn \<Rightarrow> bool" where
  "lookup_error (KeyErr _) = True"
| "lookup_error (TypeErr _) = True"
| "lookup_error e = is_value_error e"

definition normalize_external_admission ::
  "(json \<Rightarrow> string) \<Rightarrow> (json \<Rightarrow> pyfloat res) \<Rightarrow> json \<Rightarrow> string \<Rightarrow> string \<Rightarrow> string \<Rightarrow> int \<Rightarrow> json res" where
  "normalize_external_admission str to_float admission blob marker expected_sha256 expected_bytes =
     catch_res (external_admission str to_float admission blob marker expected_sha256 expected_bytes)
       (\<lambda>e. if lookup_error e then Inl (PayloadValidationError ''invalid_external_admission'') else Inl e)"

text \<open>
  The two external transports are arguments of the dispatch: what the configured command or
  socket answers for this request.
\<close>

definition validate_payload ::
  "pylib \<Rightarrow> validation_env \<Rightarrow> environment \<Rightarrow> (string \<Rightarrow> string \<Rightarrow> string \<Rightarrow> int \<Rightarrow> json res) \<Rightarrow>
   (string \<Rightarrow> string \<Rightarrow> string \<Rightarrow> int \<Rightarrow> json res) \<Rightarrow> file_system \<Rightarrow> string \<Rightarrow> string \<Rightarrow> int \<Rightarrow>
   string option \<Rightarrow> int \<Rightarrow> (json res \<times> file_system) option" where
  "validate_payload L E env cli rpc fs blob expected_sha256 expected_bytes record_path chunk_bytes =
     (let marker = (case record_path of None \<Rightarrow> validation_record_path blob | Some p \<Rightarrow> p) in
      case bind_res (normalize_sha256 expected_sha256) (\<lambda>sha.
           bind_res (validation_transport env) (\<lambda>t. Inr (sha, t))) of
        Inl e \<Rightarrow> Some (Inl e, fs)
      | Inr (sha, transport) \<Rightarrow>
          if transport = ''python'' \<or> marker \<noteq> validation_record_path blob
             \<or> chunk_bytes \<noteq> DEFAULT_HASH_CHUNK_BYTES
          then validate_payload_python L E fs blob sha expected_bytes (Some marker) chunk_bytes
          else if transport = ''cli'' then Some (cli blob marker sha expected_bytes, fs)
          else Some (rpc blob marker sha expected_bytes, fs))"

text \<open>\<^verbatim>\<open>record | {...}\<close> of two dictionaries; a record that is no dictionary is a \<^verbatim>\<open>TypeError\<close>.\<close>

definition verify_validation_record ::
  "pylib \<Rightarrow> validation_env \<Rightarrow> environment \<Rightarrow> (string \<Rightarrow> string \<Rightarrow> string \<Rightarrow> int \<Rightarrow> json res) \<Rightarrow>
   (string \<Rightarrow> string \<Rightarrow> string \<Rightarrow> int \<Rightarrow> json res) \<Rightarrow> file_system \<Rightarrow> string \<Rightarrow> string \<Rightarrow> string \<Rightarrow>
   int option \<Rightarrow> (json res \<times> file_system) option" where
  "verify_validation_record L E env cli rpc fs blob expected_sha256 marker expected_bytes =
     (case (case expected_bytes of
              Some n \<Rightarrow> Inr n
            | None \<Rightarrow> (case fs blob of None \<Rightarrow> Inl FileNotFoundErr | Some n \<Rightarrow> Inr (st_size (fn_stat n)))) of
        Inl e \<Rightarrow> Some (Inl e, fs)
      | Inr blob_size \<Rightarrow>
          (case validate_payload L E env cli rpc fs blob expected_sha256 blob_size (Some marker)
              DEFAULT_HASH_CHUNK_BYTES of
             None \<Rightarrow> None
           | Some (Inl e, fs') \<Rightarrow> Some (Inl e, fs')
           | Some (Inr result, fs') \<Rightarrow>
               Some (bind_res
                 (catch_res
                   (case fs' marker of
                      None \<Rightarrow> Inl FileNotFoundErr
                    | Some n \<Rightarrow> bind_res (utf8_decode (fn_data n)) (json_loads L))
                   (\<lambda>e. Inl (PayloadValidationError ''record_unreadable'')))
                 (\<lambda>record.
                  case record of
                    JObj kvs \<Rightarrow>
                      bind_res (normalize_sha256 expected_sha256) (\<lambda>sha.
                      Inr (JObj (dict_put ''validation'' result
                        (dict_put ''sha256'' (JStr (remove_prefix sha ''sha256:'')) kvs))))
                  | _ \<Rightarrow> Inl (TypeErr ''unsupported operand type(s) for |'')), fs')))"

section \<open>Records read back\<close>

lemma record_json_ok:
  "json_ok (record_json blob sha n s ev now)" "float_free (record_json blob sha n s ev now)"
  by (auto simp: record_json_def expected_json_def content_identity_def diagnostic_identity_def
      dict_ok_def dict_keys_def)

lemma content_identity_ok [simp]:
  "json_ok (content_identity s)" "\<not> has_nan (content_identity s)"
  by (simp_all add: content_identity_def dict_ok_def dict_keys_def)

lemma expected_json_ok [simp]: "json_ok (expected_json n sha)" "\<not> has_nan (expected_json n sha)"
  by (simp_all add: expected_json_def dict_ok_def dict_keys_def)

lemma read_marker_written:
  "read_marker L (write_json_atomic L ns fs m (record_json blob sha n s ev now)) m =
    (Some (json_norm (record_json blob sha n s ev now)), True)"
proof -
  let ?v = "record_json blob sha n s ev now"
  have "utf8_decode (ascii_bytes (json_text L ?v @ [CHR 0x0A])) = Inr (json_text L ?v @ [CHR 0x0A])"
    using json_text_ascii [OF record_json_ok(2)] by (intro utf8_decode_ascii) simp
  moreover have "json_loads L (json_text L ?v @ [CHR 0x0A]) = Inr (json_norm ?v)"
    using float_free_readable [OF record_json_ok(2)]
    by (intro json_loads_text_ws record_json_ok) (auto simp: is_json_ws_def)
  ultimately show ?thesis
    by (simp add: read_marker_def write_json_atomic_def private_mode_def)
qed

lemma record_json_get:
  "jget_none (json_norm (record_json blob sha n s ev now)) ''format'' = JInt 1"
  "jget_none (json_norm (record_json blob sha n s ev now)) ''kind'' = JStr RECORD_KIND"
  "jget_none (json_norm (record_json blob sha n s ev now)) ''provider'' = JStr PROVIDER"
  "jget_none (json_norm (record_json blob sha n s ev now)) ''blob'' = JStr (path_name blob)"
  "jget_none (json_norm (record_json blob sha n s ev now)) ''expected'' = json_norm (expected_json n sha)"
  "jget_none (json_norm (record_json blob sha n s ev now)) ''content_identity'' = json_norm (content_identity s)"
proof -
  have ok: "dict_ok kvs" if "record_json blob sha n s ev now = JObj kvs" for kvs
    using record_json_ok(1) [of blob sha n s ev now] that by simp
  note get = jget_norm [OF ok [unfolded record_json_def], OF refl]
  show
    "jget_none (json_norm (record_json blob sha n s ev now)) ''format'' = JInt 1"
    "jget_none (json_norm (record_json blob sha n s ev now)) ''kind'' = JStr RECORD_KIND"
    "jget_none (json_norm (record_json blob sha n s ev now)) ''provider'' = JStr PROVIDER"
    "jget_none (json_norm (record_json blob sha n s ev now)) ''blob'' = JStr (path_name blob)"
    "jget_none (json_norm (record_json blob sha n s ev now)) ''expected'' = json_norm (expected_json n sha)"
    "jget_none (json_norm (record_json blob sha n s ev now)) ''content_identity'' = json_norm (content_identity s)"
    unfolding record_json_def jget_none_def get by simp_all
qed

lemma expected_json_eq:
  "py_eq (json_norm (expected_json n sha)) (expected_json m sha') \<longleftrightarrow> n = m \<and> sha = sha'"
proof -
  have "json_norm (expected_json n sha) = expected_json n sha"
    by (simp add: expected_json_def)
  then show ?thesis by (simp add: expected_json_def py_eq.simps [of "JObj _" "JObj _"])
qed

lemma record_matches_written:
  "record_matches (json_norm (record_json blob sha n s ev now)) blob sha' m (content_identity t) \<longleftrightarrow>
   n = m \<and> sha = sha' \<and> py_eq (json_norm (content_identity s)) (content_identity t)"
  unfolding record_matches_def record_json_get by (auto simp: expected_json_eq) (simp_all add: record_json_def)

section \<open>Hashing an unchanged file\<close>

lemma hash_loop_const:
  assumes "0 < chunk_bytes" "acc = take (length acc) (fn_data n)"
  shows "\<exists>k'. hash_loop (\<lambda>_. n) chunk_bytes k acc = Some (fn_data n, k')"
  using assms(2)
proof (induction "length (fn_data n) - length acc" arbitrary: acc k rule: less_induct)
  case less
  define c where "c = read_at (fn_data n) (length acc) chunk_bytes"
  show ?case
  proof (cases "c = []")
    case True
    then have "length (fn_data n) \<le> length acc" using assms(1) by (simp add: c_def read_at_def)
    then have "acc = fn_data n" using less.prems by simp
    with True show ?thesis by (subst hash_loop.simps) (simp add: c_def)
  next
    case False
    have acc: "acc = take (length acc) (fn_data n)" by (rule less.prems)
    have lt: "length acc < length (fn_data n)" using False by (simp add: c_def read_at_def)
    have "take (length acc + chunk_bytes) (fn_data n) = acc @ c"
      using acc by (simp add: c_def read_at_def take_add)
    then have "acc @ c = take (length (acc @ c)) (fn_data n)"
      by (metis append_take_drop_id le_cases take_all length_take min.absorb2 take_take min.absorb1 min_def)
    moreover have "length (fn_data n) - length (acc @ c) < length (fn_data n) - length acc"
      using False lt by (cases c) auto
    ultimately have "\<exists>k'. hash_loop (\<lambda>_. n) chunk_bytes (Suc k) (acc @ c) = Some (fn_data n, k')"
      using less.hyps by blast
    then show ?thesis using False by (subst hash_loop.simps) (simp add: c_def Let_def)
  qed
qed

lemma hash_descriptor_const:
  assumes "0 < chunk_bytes"
  shows "hash_descriptor L (\<lambda>_. n) chunk_bytes =
    Some (Inr \<lparr>hr_digest = ''sha256:'' @ sha256_hex L (fn_data n), hr_hashed = length (fn_data n),
      hr_identity = content_identity (fn_stat n), hr_diagnostics = diagnostic_identity (fn_stat n)\<rparr>)"
proof -
  obtain k where "hash_loop (\<lambda>_. n) (nat chunk_bytes) 1 [] = Some (fn_data n, k)"
    using hash_loop_const [of "nat chunk_bytes" "[]" n 1] assms by auto
  moreover have "py_eq (content_identity s) (content_identity s)" for s
    by (rule py_eq_norm) simp_all
  ultimately show ?thesis using assms by (simp add: hash_descriptor_def Let_def)
qed

section \<open>The cache\<close>

text \<open>Nothing changes the payload or the file system while it is validated.\<close>

definition quiet :: "validation_env \<Rightarrow> bool" where
  "quiet E \<longleftrightarrow> (\<forall>n. ve_versions E n = (\<lambda>_. n)) \<and> (\<forall>fs. ve_gap E fs = fs)"

text \<open>
  The record at \<open>marker\<close> does not lie about the payload: if it matches the payload's name, size
  and status and a digest, then the payload has that digest.
\<close>

definition record_sound :: "pylib \<Rightarrow> file_system \<Rightarrow> string \<Rightarrow> string \<Rightarrow> bool" where
  "record_sound L fs blob marker \<longleftrightarrow>
     (\<forall>n r sha m. fs blob = Some n \<longrightarrow> read_marker L fs marker = (Some r, True) \<longrightarrow>
        record_matches r blob sha m (content_identity (fn_stat n)) \<longrightarrow>
        ''sha256:'' @ sha256_hex L (fn_data n) = sha)"

definition cached_accept :: "json res \<Rightarrow> bool" where
  "cached_accept r =
     (case r of
        Inl _ \<Rightarrow> False
      | Inr j \<Rightarrow> jget j ''reason'' = Some (JStr ''cached_validation'') \<and> jget j ''bytes_hashed'' = Some (JInt 0))"

definition accepted :: "json res \<Rightarrow> bool" where
  "accepted r = (case r of Inl _ \<Rightarrow> False | Inr j \<Rightarrow> jget j ''decision'' = Some (JStr ''accept''))"

lemma normalize_sha256_form:
  "normalize_sha256 v = Inr s \<Longrightarrow> \<exists>d. s = ''sha256:'' @ d \<and> length d = 64"
  by (auto simp: normalize_sha256_def Let_def split: if_splits)

lemma remove_sha256_prefix [simp]: "remove_prefix (''sha256:'' @ d) ''sha256:'' = d"
  by (simp add: remove_prefix_def starts_with_def)

lemma normalize_sha256_idem: "normalize_sha256 v = Inr s \<Longrightarrow> normalize_sha256 s = Inr s"
  by (auto simp: normalize_sha256_def Let_def remove_prefix_def starts_with_def split: if_splits)

lemma publish_eq:
  assumes "normalize_sha256 sha = Inr sha" "fs blob = Some n" "fn_regular n"
    and "st_size (fn_stat n) = expected_bytes"
  shows "publish_validation_record L ns now fs blob sha expected_bytes (Some marker) ev =
    (Inr (record_json blob sha expected_bytes (fn_stat n) ev now),
     write_json_atomic L ns fs marker (record_json blob sha expected_bytes (fn_stat n) ev now))"
  using assms by (simp add: publish_validation_record_def open_regular_file_def Let_def)

text \<open>After a record has been published, the next validation accepts the payload unread.\<close>

lemma cached_after_publish:
  assumes "normalize_sha256 sha0 = Inr sha" "fs blob = Some n" "fn_regular n"
    and "st_size (fn_stat n) = expected_bytes" "marker \<noteq> blob"
    and "fs' = write_json_atomic L ns fs marker (record_json blob sha expected_bytes (fn_stat n) ev now)"
  shows "\<exists>r. validate_payload_python L E fs' blob sha0 expected_bytes (Some marker) c = Some (r, fs') \<and>
    accepted r \<and> cached_accept r"
proof -
  have "fs' blob = Some n" using assms(2,5,6) by (simp add: write_json_atomic_def)
  moreover have "py_eq (json_norm (content_identity (fn_stat n))) (content_identity (fn_stat n))"
    by (rule py_eq_norm_self) simp_all
  ultimately show ?thesis
    using assms(1,3,4) read_marker_written [of L ns fs marker blob sha expected_bytes "fn_stat n" ev now]
    unfolding assms(6)
    by (simp add: validate_payload_python_def open_regular_file_def record_matches_written
        accept_json_def cached_accept_def accepted_def)
qed

lemma validate_unchanged:
  assumes "quiet E" "normalize_sha256 sha0 = Inr sha" "fs blob = Some n" "fn_regular n"
    and "0 < chunk_bytes" "marker \<noteq> blob" "record_sound L fs blob marker"
    and "st_size (fn_stat n) = expected_bytes"
  shows "validate_payload_python L E fs blob sha0 expected_bytes (Some marker) chunk_bytes =
      Some (Inl (PayloadValidationError ''digest_mismatch''), fs) \<and>
      ''sha256:'' @ sha256_hex L (fn_data n) \<noteq> sha \<or>
    ''sha256:'' @ sha256_hex L (fn_data n) = sha \<and>
    (\<exists>r fs'. validate_payload_python L E fs blob sha0 expected_bytes (Some marker) chunk_bytes = Some (r, fs') \<and>
       accepted r \<and> fs' blob = fs blob \<and>
       (fs' = fs \<or> fs' = write_json_atomic L (ve_new_stat E) fs marker
          (record_json blob sha expected_bytes (fn_stat n) ''full-sha256-this-operation'' (ve_now E))) \<and>
       (\<exists>r'. validate_payload_python L E fs' blob sha0 expected_bytes (Some marker) chunk_bytes = Some (r', fs') \<and>
          cached_accept r'))"
proof -
  let ?w = "write_json_atomic L (ve_new_stat E) fs marker
      (record_json blob sha expected_bytes (fn_stat n) ''full-sha256-this-operation'' (ve_now E))"
  obtain rcd ok where m: "read_marker L fs marker = (rcd, ok)" by fastforce
  define hit where "hit = (ok \<and> (case rcd of None \<Rightarrow> False
      | Some r \<Rightarrow> record_matches r blob sha expected_bytes (content_identity (fn_stat n))))"
  have open_ok: "open_regular_file fs blob = Inr n" using assms(3,4) by (simp add: open_regular_file_def)
  have v: "ve_versions E n = (\<lambda>_. n)" "ve_gap E fs = fs" using assms(1) by (simp_all add: quiet_def)
  show ?thesis
  proof (cases hit)
    case True
    then obtain r where r: "rcd = Some r" "ok"
      "record_matches r blob sha expected_bytes (content_identity (fn_stat n))"
      by (auto simp: hit_def split: option.splits)
    have "''sha256:'' @ sha256_hex L (fn_data n) = sha"
    proof -
      have "read_marker L fs marker = (Some r, True)" using m r by simp
      then show ?thesis using assms(3,7) r(3) unfolding record_sound_def by blast
    qed
    moreover have "\<exists>r. validate_payload_python L E fs blob sha0 expected_bytes (Some marker) chunk_bytes =
        Some (r, fs) \<and> accepted r \<and> cached_accept r"
      using assms(2,8) m r open_ok
      by (simp add: validate_payload_python_def accept_json_def accepted_def cached_accept_def)
    ultimately show ?thesis by blast
  next
    case False
    then have run: "validate_payload_python L E fs blob sha0 expected_bytes (Some marker) chunk_bytes =
        (if ''sha256:'' @ sha256_hex L (fn_data n) \<noteq> sha
         then Some (Inl (PayloadValidationError ''digest_mismatch''), fs)
         else Some (Inr (accept_json ''revalidated_existing'' ''full-sha256-this-operation''
           (int (length (fn_data n))) (ve_seconds E) marker (content_identity (fn_stat n))
           (diagnostic_identity (fn_stat n))), ?w))"
      using assms(2,8) m open_ok v hash_descriptor_const [OF assms(5), of L n]
        publish_eq [where fs = fs and blob = blob and n = n, OF normalize_sha256_idem [OF assms(2)] assms(3,4,8)]
      unfolding hit_def by (simp add: validate_payload_python_def Let_def split: option.splits) blast
    show ?thesis
    proof (cases "''sha256:'' @ sha256_hex L (fn_data n) = sha")
      case True
      have "?w blob = fs blob" using assms(6) by (simp add: write_json_atomic_def)
      moreover have "accepted (Inr (accept_json a b c d e f g))" for a b c d e f g
        by (simp add: accepted_def accept_json_def)
      ultimately show ?thesis
        using True run cached_after_publish [where fs = fs and blob = blob and n = n, OF assms(2-4,8,6) refl]
        by (simp add: exI [of _ ?w]) blast
    qed (use run in simp)
  qed
qed


text \<open>
  C39: the record is published from the status of whatever is at the path after the payload was
  hashed, not from the file that was hashed. If the payload is replaced by a file of the same
  size in between, the validation accepts, and the record it leaves makes every later
  validation accept the replacement, whatever its content is.
\<close>

theorem validation_race:
  assumes "normalize_sha256 sha0 = Inr sha" "fs blob = Some n" "fn_regular n"
    and "st_size (fn_stat n) = expected_bytes" "''sha256:'' @ sha256_hex L (fn_data n) = sha"
    and "fs marker = None" "marker \<noteq> blob" "0 < chunk_bytes"
    and "ve_versions E n = (\<lambda>_. n)" "ve_gap E fs = fs(blob \<mapsto> m)"
    and "fn_regular m" "st_size (fn_stat m) = expected_bytes"
  shows "\<exists>r fs'. validate_payload_python L E fs blob sha0 expected_bytes (Some marker) chunk_bytes = Some (r, fs') \<and>
    accepted r \<and> fs' blob = Some m \<and>
    (\<forall>E'. \<exists>r'. validate_payload_python L E' fs' blob sha0 expected_bytes (Some marker) chunk_bytes =
       Some (r', fs') \<and> cached_accept r')"
proof -
  let ?fs = "fs(blob \<mapsto> m)"
  let ?w = "write_json_atomic L (ve_new_stat E) ?fs marker
      (record_json blob sha expected_bytes (fn_stat m) ''full-sha256-this-operation'' (ve_now E))"
  have pub: "publish_validation_record L (ve_new_stat E) (ve_now E) ?fs blob sha expected_bytes
      (Some marker) ''full-sha256-this-operation'' =
      (Inr (record_json blob sha expected_bytes (fn_stat m) ''full-sha256-this-operation'' (ve_now E)), ?w)"
    using publish_eq [OF normalize_sha256_idem [OF assms(1)], of ?fs blob m] assms(11,12) by simp
  have "\<exists>r. validate_payload_python L E fs blob sha0 expected_bytes (Some marker) chunk_bytes = Some (r, ?w) \<and>
      accepted r"
    using assms(1-6,9,10) hash_descriptor_const [OF assms(8), of L n] pub
    by (simp add: validate_payload_python_def open_regular_file_def read_marker_def accepted_def
        accept_json_def)
  moreover have "?w blob = Some m" using assms(7) by (simp add: write_json_atomic_def)
  moreover have "\<exists>r'. validate_payload_python L E' ?w blob sha0 expected_bytes (Some marker) chunk_bytes =
      Some (r', ?w) \<and> accepted r' \<and> cached_accept r'" for E'
    by (rule cached_after_publish [where fs = ?fs and n = m, OF assms(1) _ assms(11,12,7) refl]) simp
  ultimately show ?thesis by blast
qed

section \<open>A payload of thirty-two bytes\<close>

definition demo_stat :: "int \<Rightarrow> file_stat" where
  "demo_stat ino =
     \<lparr>st_dev = 1, st_ino = ino, st_size = 32, st_mtime_ns = 5, st_ctime_ns = 6, st_uid = 0, st_gid = 0,
      st_mode = 33152\<rparr>"

definition demo_node :: "int \<Rightarrow> byte \<Rightarrow> file_node" where
  "demo_node ino b = \<lparr>fn_stat = demo_stat ino, fn_regular = True, fn_data = replicate 32 b\<rparr>"

definition demo_fs :: file_system where
  "demo_fs = (\<lambda>_. None)(''w.bin'' \<mapsto> demo_node 7 1)"

definition demo_sha :: string where
  "demo_sha = bytes_hex (replicate 32 1)"

definition demo_env :: "(file_system \<Rightarrow> file_system) \<Rightarrow> validation_env" where
  "demo_env gap =
     \<lparr>ve_versions = (\<lambda>n _. n), ve_gap = gap, ve_new_stat = (\<lambda>_. demo_stat 9), ve_now = 0,
      ve_seconds = FFinite 0\<rparr>"

lemma not_prefixed: "length d = 64 \<Longrightarrow> hex_bytes d \<noteq> None \<Longrightarrow> remove_prefix d ''sha256:'' = d"
proof (cases "starts_with d ''sha256:''")
  case True
  assume d: "length d = 64" "hex_bytes d \<noteq> None"
  obtain e where "d = CHR ''s'' # CHR ''h'' # e"
    using True d(1) by (metis append_Cons append_take_drop_id starts_with_def)
  with d(2) show ?thesis by (simp add: is_ascii_space_def hex_val_def)
qed (simp add: remove_prefix_def)

lemma demo_normal: "normalize_sha256 demo_sha = Inr (''sha256:'' @ demo_sha)"
proof -
  have len: "length demo_sha = 64" "hex_bytes demo_sha \<noteq> None" by (simp_all add: demo_sha_def)
  have "remove_prefix demo_sha ''sha256:'' = demo_sha" using len by (rule not_prefixed)
  then show ?thesis using len by (simp add: normalize_sha256_def demo_sha_def)
qed

lemma demo_hash: "sha256_hex plain_lib (fn_data (demo_node i 1)) = demo_sha"
  by (simp add: sha256_hex_def demo_node_def demo_sha_def)

lemma demo_record_sound: "record_sound L demo_fs ''w.bin'' ''w.rec''"
  by (simp add: record_sound_def read_marker_def demo_fs_def)


theorem validation_race_witness:
  "\<exists>r fs'. validate_payload_python plain_lib (demo_env (\<lambda>fs. fs(''w.bin'' \<mapsto> demo_node 8 2))) demo_fs
       ''w.bin'' demo_sha 32 (Some ''w.rec'') 8 = Some (r, fs') \<and>
     accepted r \<and> fs' ''w.bin'' = Some (demo_node 8 2) \<and>
     sha256_hex plain_lib (fn_data (demo_node 8 2)) \<noteq> demo_sha"
proof -
  let ?E = "demo_env (\<lambda>fs. fs(''w.bin'' \<mapsto> demo_node 8 2))"
  have fs: "demo_fs ''w.bin'' = Some (demo_node 7 1)" "demo_fs ''w.rec'' = None" by (simp_all add: demo_fs_def)
  have n: "fn_regular (demo_node i b)" "st_size (fn_stat (demo_node i b)) = 32" for i b
    by (simp_all add: demo_node_def demo_stat_def)
  have E: "ve_versions ?E k = (\<lambda>_. k)" "ve_gap ?E fs = fs(''w.bin'' \<mapsto> demo_node 8 2)" for k fs
    by (simp_all add: demo_env_def)
  have "sha256_hex plain_lib (fn_data (demo_node 8 2)) \<noteq> demo_sha"
    by (auto simp: sha256_hex_def demo_node_def demo_sha_def dest!: bytes_hex_inj)
  then show ?thesis
    using validation_race [OF demo_normal fs(1) n _ fs(2) _ _ E(1) E(2) n, of plain_lib 8] demo_hash [of 7]
    by auto
qed

text \<open>
  the digest check admits white space. Sixty-four characters of which two are spaces
  between pairs of digits are taken as a SHA-256 value although the message asks for 64
  lowercase hexadecimal characters, and no content can ever match such a value.
\<close>

theorem normalize_sha256_white_space:
  "let d = replicate 62 CHR ''a'' @ ''  '' in
   normalize_sha256 d = Inr (''sha256:'' @ d) \<and>
   list_all (\<lambda>c. \<not> is_space c) (sha256_hex L content)"
proof -
  have 1: "hex_bytes (replicate (2 * n) CHR ''a'' @ ''  '') = Some (replicate n 170)" for n
    by (induction n) (simp_all add: is_ascii_space_def hex_val_def)
  have "list_all (\<lambda>c. \<not> is_space c) (bytes_hex bs)" for bs
    by (induction bs) (simp_all add: bytes_hex_def byte_nibbles)
  moreover have "py_lower (replicate 62 CHR ''a'' @ ''  '') = replicate 62 CHR ''a'' @ ''  ''"
    by (simp add: py_lower_def lower_char_def map_replicate_const)
  moreover have "remove_prefix (replicate 62 CHR ''a'' @ ''  '') ''sha256:'' = replicate 62 CHR ''a'' @ ''  ''"
    using 1 [of 31] by (intro not_prefixed) simp_all
  ultimately show ?thesis
    using 1 [of 31] by (simp add: normalize_sha256_def sha256_hex_def)
qed

section \<open>Admissions of an external validator\<close>

lemma admission_fold:
  "fold_res (\<lambda>d (outer, k, v).
       if d then Inr True
       else bind_res (json_item (if outer then a else b) k) (\<lambda>w. Inr (\<not> py_eq w v))) d checks = Inr False \<longleftrightarrow>
   \<not> d \<and> (\<forall>(outer, k, v) \<in> set checks. \<exists>w. json_item (if outer then a else b) k = Inr w \<and> py_eq w v)"
proof (induction checks arbitrary: d)
  case (Cons c checks)
  obtain outer k v where c: "c = (outer, k, v)" by (cases c)
  show ?case
  proof (cases "d \<or> (\<exists>e. json_item (if outer then a else b) k = Inl e)")
    case True
    then show ?thesis using Cons.IH [of True] by (auto simp: c)
  next
    case False
    then obtain w where "json_item (if outer then a else b) k = Inr w" "\<not> d"
      by (cases "json_item (if outer then a else b) k") auto
    then show ?thesis using Cons.IH [of "\<not> py_eq w v"] by (auto simp: c)
  qed
qed simp

lemma json_item_raises [raises_intros]: "raises_only lookup_error (json_item v k)"
  by (cases v) (auto simp: raises_only_def opt_res_def split: option.splits)

lemma json_int_raises [raises_intros]: "raises_only lookup_error (json_int v)"
  by (cases v rule: json_int.cases) (auto simp: raises_only_def opt_res_def split: option.splits)

lemma json_ints_raises [raises_intros]: "raises_only lookup_error (json_ints v ks)"
  unfolding json_ints_def by (intro raises_intros)

lemma admission_differs_raises [raises_intros]: "raises_only lookup_error (admission_differs a v checks)"
  unfolding admission_differs_def by (intro raises_intros) (auto intro!: raises_intros)

lemma external_admission_raises:
  assumes "\<And>v. raises_only lookup_error (to_float v)"
  shows "raises_only lookup_error (external_admission str to_float admission blob marker sha n)"
  unfolding external_admission_def by (intro raises_intros assms) simp_all

lemma json_item_eq [simp]: "json_item v k = Inr w \<longleftrightarrow> jget v k = Some w"
  by (cases v) auto


definition demo_admission :: "int \<Rightarrow> json" where
  "demo_admission n = JObj [(''format'', JInt 1), (''kind'', JStr RESULT_KIND),
     (''decision'', JStr ''accept''), (''path'', JStr ''w.bin''), (''bytes'', JInt 7),
     (''sha256'', JStr ''sha256:00''),
     (''validation'', JObj [(''record'', JStr ''w.rec''), (''provider'', JStr PROVIDER),
        (''device'', JInt 1), (''inode'', JInt 2), (''size'', JInt n), (''mtime_ns'', JInt 3),
        (''ctime_ns'', JInt 4), (''uid'', JInt 0), (''gid'', JInt 0), (''mode'', JInt 384),
        (''reason'', JStr ''revalidated_existing''), (''content_evidence'', JStr ''full''),
        (''bytes_hashed'', JInt 7), (''seconds'', JInt 1)])]"


end
