(* ===== verification/Cold_Artifact.thy ===== *)
theory Cold_Artifact
  imports Cold_Hydration Cold_Validation
begin

text \<open>
  Model of \<^verbatim>\<open>integrations/core/coldsnap_core/artifact.py\<close>: capture of the registered CUDA
  tensors of a model into a blob with a manifest beside it, and restore of that blob into the
  storages of a freshly built model at other addresses.

  A tensor is the values of the methods that are called on it. Device memory is that of
  \<open>Cold_Device\<close>, files are those of \<open>Cold_Validation\<close>. Capture returns the sequence of file
  operations it performs, so that what a crash leaves behind is a prefix of them. The native
  transfer library is a parameter, with what it does to memory and to the captured file;
  wall-clock times are left out of the metrics.
\<close>

section \<open>Tensors and models\<close>

record tensor =
  t_dtype :: string
  t_shape :: "int list"
  t_stride :: "int list"
  t_data_ptr :: int
  t_numel :: int
  t_element_size :: int
  t_device_type :: string
  t_device_index :: "int option"
  t_storage_ptr :: int
  t_storage_nbytes :: int

record nn_model =
  nm_modules :: "(string \<times> string list) list option"
  nm_parameters :: "(string \<times> tensor) list"
  nm_buffers :: "(string \<times> tensor) list"

definition ALIGNMENT :: int where
  "ALIGNMENT = 4096"

definition ARTIFACT_KIND :: string where
  "ARTIFACT_KIND = ''coldsnap-pytorch-semantic-weights''"

definition artifact_align :: "int \<Rightarrow> int" where
  "artifact_align value = align_up value ALIGNMENT"

definition artifact_json :: "pylib \<Rightarrow> json \<Rightarrow> byte list" where
  "artifact_json L value = ascii_bytes (json_text L value)"

definition device_index :: "tensor \<Rightarrow> int" where
  "device_index t = (case t_device_index t of None \<Rightarrow> 0 | Some i \<Rightarrow> i)"

type_synonym storage_key = "int \<times> int \<times> int"

definition storage_key :: "tensor \<Rightarrow> storage_key" where
  "storage_key t = (t_storage_ptr t, t_storage_nbytes t, device_index t)"

definition nonpersistent_buffers :: "nn_model \<Rightarrow> string list" where
  "nonpersistent_buffers m =
     (case nm_modules m of
        None \<Rightarrow> []
      | Some ms \<Rightarrow> concat (map (\<lambda>(mn, locals).
          map (\<lambda>l. if mn \<noteq> [] then mn @ ''.'' @ l else l) locals) ms))"

definition register_tensor ::
  "string list \<Rightarrow> (string, tensor) dict \<Rightarrow> string \<times> string \<times> tensor \<Rightarrow> (string, tensor) dict res" where
  "register_tensor nonpersistent tensors v =
     (case v of (kind, name, t) \<Rightarrow>
        if kind = ''buffer'' \<and> name \<in> set nonpersistent then Inr tensors
        else if t_device_type t = ''cuda'' \<and> 0 < t_numel t then
          (let key = kind @ '':'' @ name in
           if key \<in> set (dict_keys tensors) then Inl (ArtifactError ''duplicate registered tensor'')
           else Inr (dict_put key t tensors))
        else Inr tensors)"

definition registered_cuda_tensors :: "nn_model \<Rightarrow> (string, tensor) dict res" where
  "registered_cuda_tensors m =
     bind_res
       (fold_res (register_tensor (nonpersistent_buffers m)) []
         (map (\<lambda>v. (''parameter'', v)) (nm_parameters m) @ map (\<lambda>v. (''buffer'', v)) (nm_buffers m)))
       (\<lambda>tensors.
     if tensors = [] then Inl (ArtifactError ''model has no registered CUDA tensors'')
     else Inr tensors)"

definition tensor_reference :: "string \<Rightarrow> tensor \<Rightarrow> int \<Rightarrow> json" where
  "tensor_reference name t storage_pointer =
     JObj [(''name'', JStr name), (''dtype'', JStr (t_dtype t)),
           (''shape'', JList (map JInt (t_shape t))), (''stride'', JList (map JInt (t_stride t))),
           (''storage_offset_bytes'', JInt (t_data_ptr t - storage_pointer)),
           (''nbytes'', JInt (t_numel t * t_element_size t))]"

type_synonym group = "tensor \<times> json list"

definition group_step :: "(storage_key, group) dict \<Rightarrow> string \<times> tensor \<Rightarrow> (storage_key, group) dict" where
  "group_step groups v =
     (case v of (name, t) \<Rightarrow>
        let key = storage_key t;
            (first, refs) = (case dict_get groups key of None \<Rightarrow> (t, []) | Some g \<Rightarrow> g) in
        dict_put key (first, refs @ [tensor_reference name t (t_storage_ptr t)]) groups)"

definition ref_name :: "json \<Rightarrow> string" where
  "ref_name r = (case jget r ''name'' of Some (JStr s) \<Rightarrow> s | _ \<Rightarrow> [])"

definition storage_groups :: "nn_model \<Rightarrow> group list res" where
  "storage_groups m =
     bind_res (registered_cuda_tensors m) (\<lambda>tensors.
     Inr (sort_key (\<lambda>g. ref_name (hd (snd g)))
       (map snd (foldl group_step [] (sort_key fst tensors)))))"

section \<open>Identity comparison\<close>

function identity_mismatches :: "json \<Rightarrow> json \<Rightarrow> string \<Rightarrow> string list" where
  "identity_mismatches expected actual path =
     (case (expected, actual) of
        (JObj es, JObj as) \<Rightarrow>
          concat (map (\<lambda>key.
            let child = path @ ''.'' @ key in
            case dict_get es key of
              None \<Rightarrow> [child @ '' is unexpected'']
            | Some e \<Rightarrow>
                (case dict_get as key of
                   None \<Rightarrow> [child @ '' is missing'']
                 | Some a \<Rightarrow> identity_mismatches e a child))
            (sort (remdups (dict_keys es @ dict_keys as))))
      | _ \<Rightarrow> if \<not> py_eq expected actual then [path @ '': expected, found''] else [])"
  by pat_completeness auto
termination
proof (relation "measure (\<lambda>(e, _, _). size e)", goal_cases)
  case (2 expected actual path x y es as key child e a)
  then show ?case using size_obj_elem [of "(key, e)" es] map_of_SomeD [of es key e] by auto
qed simp

declare identity_mismatches.simps [simp del]

section \<open>Manifests\<close>

record artifact =
  ar_root :: string
  ar_manifest_path :: string
  ar_blob_path :: string
  ar_lock_path :: string

definition fsencode :: "string \<Rightarrow> byte list" where
  "fsencode s =
     concat (map (\<lambda>c. if code c < 128 then [of_nat (code c)]
       else [of_nat (192 + code c div 64), of_nat (128 + code c mod 64)]) s)"

text \<open>\<open>resolved\<close> is \<^verbatim>\<open>root.resolve()\<close>, which depends on the symbolic links of the file system.\<close>

definition artifact_init :: "pylib \<Rightarrow> string \<Rightarrow> string \<Rightarrow> string option \<Rightarrow> artifact" where
  "artifact_init L resolved base lock_root =
     \<lparr>ar_root = base,
      ar_manifest_path = base @ ''/manifest.json'',
      ar_blob_path = base @ ''/weights.blob'',
      ar_lock_path =
        (case lock_root of
           None \<Rightarrow> base @ ''/.lock''
         | Some d \<Rightarrow> d @ ''/'' @ sha256_hex L (fsencode resolved) @ ''.lock'')\<rparr>"

text \<open>\<open>json_get v k\<close> is \<^verbatim>\<open>v.get(k)\<close>, which only dictionaries have.\<close>

fun json_get :: "json \<Rightarrow> string \<Rightarrow> json res" where
  "json_get (JObj kvs) k = Inr (jget_none (JObj kvs) k)"
| "json_get _ k = Inl (AttributeErr ''object has no attribute get'')"

definition json_get_int :: "json \<Rightarrow> string \<Rightarrow> int \<Rightarrow> int res" where
  "json_get_int v k missing =
     (case jget v k of
        None \<Rightarrow> bind_res (json_get v k) (\<lambda>_. Inr missing)
      | Some w \<Rightarrow> json_int w)"

definition read_manifest :: "pylib \<Rightarrow> file_system \<Rightarrow> string \<Rightarrow> json res" where
  "read_manifest L fs path =
     (case fs path of
        None \<Rightarrow> Inl (ArtifactError ''artifact manifest is missing'')
      | Some n \<Rightarrow>
          catch_res (bind_res (utf8_decode (fn_data n)) (json_loads L))
            (\<lambda>e. if e = JSONDecodeError \<or> is_os_error e
                 then Inl (ArtifactError ''cannot read artifact manifest'') else Inl e))"

definition load_manifest ::
  "pylib \<Rightarrow> file_system \<Rightarrow> artifact \<Rightarrow> json option \<Rightarrow> string option \<Rightarrow> int \<Rightarrow> json res" where
  "load_manifest L fs A identity blob_path blob_offset =
     bind_res (read_manifest L fs (ar_manifest_path A)) (\<lambda>manifest.
     bind_res (json_get manifest ''format'') (\<lambda>format.
     bind_res (json_get manifest ''kind'') (\<lambda>kind.
     if \<not> py_eq format (JInt 1) \<or> \<not> py_eq kind (JStr ARTIFACT_KIND)
     then Inl (ArtifactError ''artifact format or kind is incompatible'')
     else if (case identity of None \<Rightarrow> False
              | Some i \<Rightarrow> identity_mismatches i (jget_none manifest ''identity'') ''identity'' \<noteq> [])
     then Inl (ArtifactError ''artifact compatibility mismatch'')
     else
     let selected_blob = (case blob_path of None \<Rightarrow> ar_blob_path A | Some p \<Rightarrow> p) in
     if blob_offset < 0 then Inl (ArtifactError ''artifact blob offset cannot be negative'')
     else
     case fs selected_blob of
       None \<Rightarrow> Inl (ArtifactError ''artifact blob is missing'')
     | Some n \<Rightarrow>
         bind_res (json_get_int manifest ''blob_bytes'' (-1)) (\<lambda>blob_bytes.
         let blob_size = st_size (fn_stat n); expected_end = blob_offset + blob_bytes in
         if blob_path = None \<and> blob_size \<noteq> expected_end \<or> blob_path \<noteq> None \<and> blob_size < expected_end
         then Inl (ArtifactError ''artifact blob size mismatch'')
         else Inr manifest))))"

fun is_artifact_error :: "exn \<Rightarrow> bool" where
  "is_artifact_error (ArtifactError _) = True"
| "is_artifact_error _ = False"

definition is_compatible :: "pylib \<Rightarrow> file_system \<Rightarrow> artifact \<Rightarrow> json \<Rightarrow> bool res" where
  "is_compatible L fs A identity =
     catch_res (bind_res (load_manifest L fs A (Some identity) None 0) (\<lambda>_. Inr True))
       (\<lambda>e. if is_artifact_error e then Inr False else Inl e)"

section \<open>The world around an artifact\<close>

text \<open>
  What the process contributes: the environment and the installed native libraries, what a
  call of the library does to device memory and which file a capture leaves, the status of new
  files, \<^verbatim>\<open>str\<close> of a manifest value, the process id, the other writers of \<open>Cold_Validation\<close>, its external
  transports, and where a tensor's storage is found after the transfer.
\<close>

record artifact_world =
  aw_environ :: environ
  aw_installed :: "string \<Rightarrow> native_library option"
  aw_hydrated_memory :: "string \<Rightarrow> hydration_extent list \<Rightarrow> hydrate_call \<Rightarrow> device_memory \<Rightarrow> device_memory"
  aw_captured_file :: "string \<Rightarrow> capture_extent list \<Rightarrow> capture_call \<Rightarrow> byte list option"
  aw_new_stat :: file_stat
  aw_str :: "json \<Rightarrow> string"
  aw_pid :: int
  aw_validation :: validation_env
  aw_cli :: "string \<Rightarrow> string \<Rightarrow> string \<Rightarrow> int \<Rightarrow> json res"
  aw_rpc :: "string \<Rightarrow> string \<Rightarrow> string \<Rightarrow> int \<Rightarrow> json res"
  aw_storage_after :: "tensor \<Rightarrow> int \<times> int"

definition verify_preverified ::
  "pylib \<Rightarrow> artifact_world \<Rightarrow> file_system \<Rightarrow> artifact \<Rightarrow> json \<Rightarrow> string option \<Rightarrow>
   (json res \<times> file_system) option" where
  "verify_preverified L W fs A manifest marker =
     (let marker_path = (case marker of Some p \<Rightarrow> p
            | None \<Rightarrow> ar_blob_path A @ ''.coldsnap-verified.json'');
          digest = aw_str W (case jget manifest ''blob_sha256'' of None \<Rightarrow> JStr [] | Some v \<Rightarrow> v) in
      map_option
        (\<lambda>(r, fs'). (catch_res r (\<lambda>e. if is_os_error e \<or> is_runtime_error e \<or> is_value_error e
           then Inl (ArtifactError ''preverified artifact admission failed'') else Inl e), fs'))
        (verify_validation_record L (aw_validation W) (aw_environ W) (aw_cli W) (aw_rpc W) fs
          (ar_blob_path A) digest marker_path None))"

section \<open>Capture\<close>

datatype fs_op = FsWrite string "byte list" | FsReplace string string | FsUnlink string

fun apply_op :: "file_stat \<Rightarrow> file_system \<Rightarrow> fs_op \<Rightarrow> file_system" where
  "apply_op s fs (FsWrite p data) =
     fs(p \<mapsto> \<lparr>fn_stat = s\<lparr>st_size := int (length data)\<rparr>, fn_regular = True, fn_data = data\<rparr>)"
| "apply_op s fs (FsReplace p q) = (fs(q := fs p))(p := None)"
| "apply_op s fs (FsUnlink p) = fs(p := None)"

record artifact_metrics =
  am_operation :: string
  am_backend :: string
  am_bytes :: int
  am_storages :: nat

type_synonym placement = "tensor \<times> json list \<times> int \<times> int"

definition layout_step :: "int \<times> placement list \<Rightarrow> group \<Rightarrow> int \<times> placement list" where
  "layout_step acc g =
     (case acc of (position, placed) \<Rightarrow>
        let p = artifact_align position; n = t_storage_nbytes (fst g) in
        (p + n, placed @ [(fst g, snd g, p, n)]))"

definition artifact_layout :: "group list \<Rightarrow> int \<times> placement list" where
  "artifact_layout groups = foldl layout_step (0, []) groups"

definition storage_entry :: "int \<Rightarrow> int \<Rightarrow> string \<Rightarrow> string \<Rightarrow> json list \<Rightarrow> json" where
  "storage_entry offset nbytes crc32 sha256 refs =
     JObj [(''offset'', JInt offset), (''nbytes'', JInt nbytes), (''crc32'', JStr crc32),
           (''sha256'', JStr sha256), (''refs'', JList refs)]"

definition storage_bytes :: "device_memory \<Rightarrow> tensor \<Rightarrow> byte list" where
  "storage_bytes mem t = read_mem mem (device_index t) (t_storage_ptr t) (nat (t_storage_nbytes t))"

record capture_state =
  ct_file :: "byte list"
  ct_blob_digest :: "byte list"
  ct_written :: int
  ct_entries :: "json list"

text \<open>One storage of the staged copy: the padding up to its offset, then its bytes.\<close>

definition capture_storage ::
  "pylib \<Rightarrow> device_memory \<Rightarrow> nat \<Rightarrow> capture_state \<Rightarrow> placement \<Rightarrow> capture_state option" where
  "capture_storage L mem stage_size s p =
     (case p of (t, refs, offset, nbytes) \<Rightarrow>
        let padding = replicate (nat (offset - ct_written s)) (0 :: byte);
            file = (if offset \<noteq> ct_written s then write_at (ct_file s) (nat (ct_written s)) padding
                    else ct_file s);
            blob_digest = (if offset \<noteq> ct_written s then ct_blob_digest s @ padding
                    else ct_blob_digest s) in
        map_option
          (\<lambda>c. \<lparr>ct_file = cy_file c, ct_blob_digest = cy_blob_digest c, ct_written = offset + nbytes,
               ct_entries = ct_entries s @
                 [storage_entry offset nbytes (hex8 (cy_crc c)) (sha256_hex L (cy_storage_digest c)) refs]\<rparr>)
          (stage_out stage_size (storage_bytes mem t) (nat offset)
             \<lparr>cy_file = file, cy_storage_digest = [], cy_blob_digest = blob_digest, cy_crc = 0,
              cy_copied = 0\<rparr>))"

fun capture_storages ::
  "pylib \<Rightarrow> device_memory \<Rightarrow> nat \<Rightarrow> capture_state \<Rightarrow> placement list \<Rightarrow> capture_state option" where
  "capture_storages L mem stage_size s [] = Some s"
| "capture_storages L mem stage_size s (p # ps) =
     (case capture_storage L mem stage_size s p of
        None \<Rightarrow> None
      | Some s' \<Rightarrow> capture_storages L mem stage_size s' ps)"

text \<open>
  The two ways to write the blob. Both return the backend, the entries and the digest of the
  blob or an exception, and the temporary file they leave.
\<close>

type_synonym blob_result = "(string \<times> json list \<times> string) res \<times> byte list option"

definition capture_python ::
  "pylib \<Rightarrow> device_memory \<Rightarrow> int \<Rightarrow> int \<Rightarrow> placement list \<Rightarrow> blob_result option" where
  "capture_python L mem chunk_bytes total_bytes placed =
     (let stage_size = min chunk_bytes (Max (set (map (\<lambda>(t, _). t_storage_nbytes t) placed))) in
      if total_bytes \<le> 0 then Some (Inl (OSErr ''Invalid argument''), Some [])
      else
      map_option (\<lambda>s. (Inr (''python'', ct_entries s, sha256_hex L (ct_blob_digest s)), Some (ct_file s)))
        (capture_storages L mem (nat stage_size)
          \<lparr>ct_file = replicate (nat total_bytes) 0, ct_blob_digest = [], ct_written = 0, ct_entries = []\<rparr>
          placed))"

definition native_entry :: "placement \<times> capture_digest \<Rightarrow> json res" where
  "native_entry v =
     (case v of ((t, refs, offset, nbytes), d) \<Rightarrow>
        case (cd_crc32 d, cd_sha256 d) of
          (Some c, Some h) \<Rightarrow> Inr (storage_entry offset nbytes c h refs)
        | _ \<Rightarrow> Inl (ArtifactError ''native capture omitted requested digests''))"

definition capture_native ::
  "artifact_world \<Rightarrow> native_library \<Rightarrow> string \<Rightarrow> string \<Rightarrow> int \<Rightarrow> int \<Rightarrow> int \<Rightarrow> placement list \<Rightarrow> blob_result" where
  "capture_native W lib backend path chunk_bytes queue_depth total_bytes placed =
     (if chunk_bytes mod ALIGNMENT \<noteq> 0
      then (Inl (ValueError ''native capture chunk size must be 4096-byte aligned''), None)
      else
      case traverse (\<lambda>(t, _, offset, nbytes). capture_extent_init
             \<lparr>ce_file_offset = offset, ce_source = t_storage_ptr t, ce_length = nbytes,
              ce_checksum = ''crc32+sha256''\<rparr>) placed of
        Inl e \<Rightarrow> (Inl e, None)
      | Inr extents \<Rightarrow>
          let call = \<lparr>cc_backend = backend, cc_chunk_bytes = chunk_bytes, cc_queue_depth = queue_depth,
                cc_cuda_device = device_index (fst (hd placed)), cc_file_sha256 = True,
                cc_verify_readback = False, cc_pad_extents = False\<rparr> in
          (bind_res (capture lib path extents call) (\<lambda>r.
           case cr_file_sha256 r of
             None \<Rightarrow> Inl (ArtifactError ''native capture returned an invalid byte contract'')
           | Some blob_sha256 \<Rightarrow>
               if int (cm_bytes (cr_metrics r)) \<noteq> sum_list (map (\<lambda>(_, _, _, n). n) placed)
                  \<or> int (cm_file_bytes (cr_metrics r)) \<noteq> total_bytes
               then Inl (ArtifactError ''native capture returned an invalid byte contract'')
               else if length placed \<noteq> length (cr_digests r)
               then Inl (ValueError ''zip() argument 2 has a different length than argument 1'')
               else
               bind_res (traverse native_entry (zip placed (cr_digests r))) (\<lambda>entries.
               Inr (cm_backend (cr_metrics r), entries, blob_sha256))),
           aw_captured_file W path extents call))"

definition artifact_manifest :: "pylib \<Rightarrow> json \<Rightarrow> string \<Rightarrow> int \<Rightarrow> string \<Rightarrow> json list \<Rightarrow> json" where
  "artifact_manifest L identity blob blob_bytes blob_sha256 entries =
     JObj [(''format'', JInt 1), (''kind'', JStr ARTIFACT_KIND), (''identity'', identity),
           (''identity_sha256'', JStr (sha256_hex L (artifact_json L identity))),
           (''blob'', JStr blob), (''blob_bytes'', JInt blob_bytes),
           (''blob_sha256'', JStr blob_sha256), (''storages'', JList entries)]"

definition entry_nbytes :: "json \<Rightarrow> int" where
  "entry_nbytes e = (case jget e ''nbytes'' of Some (JInt n) \<Rightarrow> n | _ \<Rightarrow> 0)"

definition temporary_blob :: "artifact_world \<Rightarrow> artifact \<Rightarrow> string" where
  "temporary_blob W A = ar_root A @ ''/.weights.blob.'' @ str_int (aw_pid W) @ ''.tmp''"

definition temporary_manifest :: "artifact_world \<Rightarrow> artifact \<Rightarrow> string" where
  "temporary_manifest W A = ar_root A @ ''/.manifest.json.'' @ str_int (aw_pid W) @ ''.tmp''"

text \<open>
  The body of the \<^verbatim>\<open>try\<close> statement of \<^verbatim>\<open>capture\<close>: its result and the file operations up to the
  point where it returns or raises. A native capture that reports success and leaves no file
  fails in the first \<^verbatim>\<open>os.replace\<close>. The lock file is not among the files.
\<close>

definition capture_body ::
  "pylib \<Rightarrow> artifact_world \<Rightarrow> file_system \<Rightarrow> artifact \<Rightarrow> nn_model \<Rightarrow> device_memory \<Rightarrow> json \<Rightarrow> int \<Rightarrow> int \<Rightarrow>
   bool \<Rightarrow> (artifact_metrics res \<times> fs_op list) option" where
  "capture_body L W fs A m mem identity chunk_bytes queue_depth replace =
     (case (if replace then Inr ()
            else case load_manifest L fs A (Some identity) None 0 of
                   Inl e \<Rightarrow> if is_artifact_error e then Inr () else Inl e
                 | Inr _ \<Rightarrow> Inl (ArtifactError ''a compatible artifact already exists'')) of
        Inl e \<Rightarrow> Some (Inl e, [])
      | Inr _ \<Rightarrow>
      case bind_res (storage_groups m) (\<lambda>groups.
           bind_res (capture_from_env L (aw_installed W) (aw_environ W)) (\<lambda>native.
           Inr (artifact_layout groups, native))) of
        Inl e \<Rightarrow> Some (Inl e, [])
      | Inr ((total_bytes, placed), native) \<Rightarrow>
      case (case native of
              Some (lib, backend) \<Rightarrow> Some (capture_native W lib backend (temporary_blob W A)
                chunk_bytes queue_depth total_bytes placed)
            | None \<Rightarrow> capture_python L mem chunk_bytes total_bytes placed) of
        None \<Rightarrow> None
      | Some (r, data) \<Rightarrow>
          let wrote = (case data of None \<Rightarrow> [] | Some d \<Rightarrow> [FsWrite (temporary_blob W A) d]) in
          (case r of
             Inl e \<Rightarrow> Some (Inl e, wrote)
           | Inr (backend, entries, blob_sha256) \<Rightarrow>
               let manifest = artifact_manifest L identity ''weights.blob'' total_bytes blob_sha256 entries in
               let staged = wrote @ [FsWrite (temporary_manifest W A) (artifact_json L manifest @ [0x0A])] in
               (case data of
                  None \<Rightarrow> Some (Inl FileNotFoundErr, staged)
                | Some _ \<Rightarrow>
                    Some (Inr \<lparr>am_operation = ''capture'', am_backend = backend,
                               am_bytes = sum_list (map entry_nbytes entries), am_storages = length entries\<rparr>,
                      staged @ [FsReplace (temporary_blob W A) (ar_blob_path A),
                                FsReplace (temporary_manifest W A) (ar_manifest_path A)]))))"

definition artifact_capture ::
  "pylib \<Rightarrow> artifact_world \<Rightarrow> file_system \<Rightarrow> artifact \<Rightarrow> nn_model \<Rightarrow> device_memory \<Rightarrow> json \<Rightarrow> int \<Rightarrow> int \<Rightarrow>
   bool \<Rightarrow> (artifact_metrics res \<times> fs_op list) option" where
  "artifact_capture L W fs A m mem identity chunk_bytes queue_depth replace =
     (if chunk_bytes \<le> 0 then Some (Inl (ValueError ''capture chunk size must be positive''), [])
      else if \<not> (1 \<le> queue_depth \<and> queue_depth \<le> 64)
      then Some (Inl (ValueError ''capture queue depth must be between 1 and 64''), [])
      else
      map_option (\<lambda>(r, ops). (r, ops @ [FsUnlink (temporary_blob W A), FsUnlink (temporary_manifest W A)]))
        (capture_body L W fs A m mem identity chunk_bytes queue_depth replace))"

section \<open>Restore\<close>

definition validate_ref :: "json \<Rightarrow> string \<Rightarrow> tensor \<Rightarrow> int \<Rightarrow> unit res" where
  "validate_ref saved name t storage_pointer =
     (if identity_mismatches saved (tensor_reference name t storage_pointer) ''tensor'' \<noteq> []
      then Inl (ArtifactError ''tensor layout mismatch'') else Inr ())"

text \<open>Iteration over a value, and a value as a key of the dictionary of tensors.\<close>

fun json_iter :: "json \<Rightarrow> json list res" where
  "json_iter (JList xs) = Inr xs"
| "json_iter (JObj kvs) = Inr (map (JStr \<circ> fst) kvs)"
| "json_iter (JStr s) = Inr (map (\<lambda>c. JStr [c]) s)"
| "json_iter _ = Inl (TypeErr ''object is not iterable'')"

fun json_first :: "json \<Rightarrow> json res" where
  "json_first (JList (x # _)) = Inr x"
| "json_first (JList []) = Inl IndexErr"
| "json_first (JStr (c # _)) = Inr (JStr [c])"
| "json_first (JStr []) = Inl IndexErr"
| "json_first (JObj _) = Inl (KeyErr ''0'')"
| "json_first _ = Inl (TypeErr ''object is not subscriptable'')"

fun tensor_named :: "(string, tensor) dict \<Rightarrow> json \<Rightarrow> (string \<times> tensor) res" where
  "tensor_named tensors (JStr s) =
     (case dict_get tensors s of
        None \<Rightarrow> Inl (ArtifactError ''fresh model is missing tensor'')
      | Some t \<Rightarrow> Inr (s, t))"
| "tensor_named tensors (JList _) = Inl (TypeErr ''unhashable type'')"
| "tensor_named tensors (JObj _) = Inl (TypeErr ''unhashable type'')"
| "tensor_named tensors _ = Inl (ArtifactError ''fresh model is missing tensor'')"

definition resolve_ref ::
  "(string, tensor) dict \<Rightarrow> storage_key \<Rightarrow> int \<Rightarrow> string list \<Rightarrow> json \<Rightarrow> string list res" where
  "resolve_ref tensors key pointer saved_names ref =
     bind_res (json_get ref ''name'') (\<lambda>name.
     if name \<in> set (map JStr saved_names)
     then Inl (ArtifactError ''artifact repeats tensor reference'')
     else
     bind_res (tensor_named tensors name) (\<lambda>(s, t).
     if storage_key t \<noteq> key then Inl (ArtifactError ''tensor alias layout changed'')
     else bind_res (validate_ref ref s t pointer) (\<lambda>_. Inr (s # saved_names))))"

record resolve_state =
  rv_saved_names :: "string list"
  rv_used_storages :: "storage_key list"
  rv_resolved :: "(tensor \<times> json) list"

definition resolve_entry ::
  "(string, tensor) dict \<Rightarrow> resolve_state \<Rightarrow> json \<Rightarrow> resolve_state res" where
  "resolve_entry tensors s entry =
     bind_res (json_get entry ''refs'') (\<lambda>refs.
     if \<not> py_truthy refs then Inl (ArtifactError ''artifact storage has no semantic references'')
     else
     bind_res (json_first refs) (\<lambda>first.
     bind_res (json_get first ''name'') (\<lambda>first_name.
     bind_res (tensor_named tensors first_name) (\<lambda>(_, first_tensor).
     let key = storage_key first_tensor; pointer = t_storage_ptr first_tensor in
     if key \<in> set (rv_used_storages s)
     then Inl (ArtifactError ''multiple artifact storages resolve to one storage'')
     else
     bind_res (json_get_int entry ''nbytes'' (-1)) (\<lambda>nbytes.
     if t_storage_nbytes first_tensor \<noteq> nbytes
     then Inl (ArtifactError ''storage size mismatch'')
     else
     bind_res (json_iter refs) (\<lambda>rs.
     bind_res (fold_res (resolve_ref tensors key pointer) (rv_saved_names s) rs) (\<lambda>saved.
     Inr \<lparr>rv_saved_names = saved, rv_used_storages = key # rv_used_storages s,
          rv_resolved = rv_resolved s @ [(first_tensor, entry)]\<rparr>)))))))"

definition resolve_storages :: "nn_model \<Rightarrow> json \<Rightarrow> (tensor \<times> json) list res" where
  "resolve_storages m storages =
     bind_res (registered_cuda_tensors m) (\<lambda>tensors.
     bind_res (json_iter storages) (\<lambda>entries.
     bind_res (fold_res (resolve_entry tensors)
       \<lparr>rv_saved_names = [], rv_used_storages = [], rv_resolved = []\<rparr> entries) (\<lambda>s.
     if set (dict_keys tensors) - set (rv_saved_names s) \<noteq> {}
     then Inl (ArtifactError ''fresh model has uncaptured CUDA tensors'')
     else Inr (rv_resolved s))))"

text \<open>
  Extents for the native library. A checksum in the manifest that is no text fails in the
  length test or on the missing method of the extent's constructor.
\<close>

fun checksum_text :: "nat \<Rightarrow> json \<Rightarrow> string option res" where
  "checksum_text n JNull = Inr None"
| "checksum_text n (JStr s) = Inr (Some s)"
| "checksum_text n (JList xs) =
     (if length xs \<noteq> n then Inl (ValueError ''hydration checksum has the wrong length'')
      else Inl (AttributeErr ''object has no attribute lower''))"
| "checksum_text n (JObj xs) =
     (if length xs \<noteq> n then Inl (ValueError ''hydration checksum has the wrong length'')
      else Inl (AttributeErr ''object has no attribute lower''))"
| "checksum_text n _ = Inl (TypeErr ''object has no len()'')"

definition entry_int :: "json \<Rightarrow> string \<Rightarrow> int res" where
  "entry_int entry k = bind_res (json_item entry k) json_int"

definition entry_extent :: "int \<Rightarrow> tensor \<times> json \<Rightarrow> hydration_extent res" where
  "entry_extent blob_offset v =
     (case v of (t, entry) \<Rightarrow>
        bind_res (entry_int entry ''offset'') (\<lambda>offset.
        bind_res (entry_int entry ''nbytes'') (\<lambda>nbytes.
        let x = \<lparr>he_file_offset = blob_offset + offset, he_destination = t_storage_ptr t,
                 he_length = nbytes, he_crc32 = None, he_sha256 = None\<rparr>;
            sha = jget_none entry ''sha256'' in
        bind_res (hydration_extent_init x) (\<lambda>_.
        bind_res (checksum_text 8 (jget_none entry ''crc32'')) (\<lambda>c.
        bind_res (hydration_extent_init (x\<lparr>he_crc32 := c\<rparr>)) (\<lambda>_.
        bind_res (if c = None \<and> sha \<noteq> JNull
                  then Inl (ValueError ''hydration SHA-256 requires CRC32'') else checksum_text 64 sha) (\<lambda>h.
        hydration_extent_init (x\<lparr>he_crc32 := c, he_sha256 := h\<rparr>))))))))"

definition extent_aligned :: "hydration_extent \<Rightarrow> bool" where
  "extent_aligned e = (he_file_offset e mod DIRECT_ALIGNMENT = 0 \<and> he_length e mod DIRECT_ALIGNMENT = 0)"

definition hydration_groups ::
  "native_library \<Rightarrow> string \<Rightarrow> hydration_extent list \<Rightarrow> (string \<times> hydration_extent list) list res" where
  "hydration_groups lib backend extents =
     (if backend = ''auto'' \<or> backend = ''direct'' then
        bind_res (if backend = ''direct'' then Inr True else available lib ''direct'') (\<lambda>direct_available.
        let aligned = (if direct_available then filter extent_aligned extents else []);
            residual = (if direct_available then filter (\<lambda>e. \<not> extent_aligned e) extents else extents) in
        Inr ((if aligned \<noteq> [] then [(''direct'', aligned)] else []) @
             (if residual \<noteq> [] then [(''buffered'', residual)] else [])))
      else Inr [(backend, extents)])"

fun hydrate_groups ::
  "artifact_world \<Rightarrow> native_library \<Rightarrow> string \<Rightarrow> hydrate_call \<Rightarrow> (string \<times> hydration_extent list) list \<Rightarrow>
   device_memory \<Rightarrow> string list \<Rightarrow> int \<Rightarrow> (string \<times> int) res \<times> device_memory" where
  "hydrate_groups W lib path c [] mem used restored = (Inr (join_str ''+'' used, restored), mem)"
| "hydrate_groups W lib path c ((selected, extents) # groups) mem used restored =
     (let call = c\<lparr>hc_backend := selected\<rparr>; mem' = aw_hydrated_memory W path extents call mem in
      case hydrate lib path extents call of
        Inl e \<Rightarrow> (Inl e, mem')
      | Inr r \<Rightarrow> hydrate_groups W lib path c groups mem' (used @ [hm_backend r]) (restored + int (hm_bytes r)))"

definition hydrate_native_extents ::
  "artifact_world \<Rightarrow> native_library \<Rightarrow> string \<Rightarrow> hydration_extent list \<Rightarrow> hydrate_call \<Rightarrow> device_memory \<Rightarrow>
   (string \<times> int) res \<times> device_memory" where
  "hydrate_native_extents W lib path extents c mem =
     (case hydration_groups lib (hc_backend c) extents of
        Inl e \<Rightarrow> (Inl e, mem)
      | Inr groups \<Rightarrow> hydrate_groups W lib path c groups mem [] 0)"

text \<open>
  The staged read of one storage, with its checks. Errors leave in memory what was copied.
\<close>

definition restore_storage ::
  "pylib \<Rightarrow> nat \<Rightarrow> bool \<Rightarrow> byte list \<Rightarrow> int \<Rightarrow> tensor \<times> json \<Rightarrow> device_memory \<Rightarrow>
   (int res \<times> device_memory) option" where
  "restore_storage L stage_size preverified file blob_offset v mem =
     (case v of (t, entry) \<Rightarrow>
      case bind_res (entry_int entry ''nbytes'') (\<lambda>n.
           bind_res (entry_int entry ''offset'') (\<lambda>offset. Inr (n, blob_offset + offset))) of
        Inl e \<Rightarrow> Some (Inl e, mem)
      | Inr (remaining, pos) \<Rightarrow>
          if pos < 0 then Some (Inl (OSErr ''Invalid argument''), mem)
          else
          map_option
            (\<lambda>(s, complete).
              (if \<not> complete then Inl (ArtifactError ''artifact blob ended while reading storage'')
               else if \<not> preverified \<and> \<not> py_eq (jget_none entry ''crc32'') (JStr (hex8 (ld_crc s)))
               then Inl (ArtifactError ''artifact storage CRC32 mismatch'')
               else if \<not> preverified \<and>
                 \<not> py_eq (jget_none entry ''sha256'') (JStr (sha256_hex L (ld_digest s)))
               then Inl (ArtifactError ''artifact storage SHA-256 mismatch'')
               else Inr remaining, ld_memory s))
            (stage_in stage_size preverified file (nat pos) (device_index t) (t_storage_ptr t)
              (nat remaining) \<lparr>ld_memory = mem, ld_digest = [], ld_crc = 0, ld_copied = 0\<rparr>))"

fun restore_storages ::
  "pylib \<Rightarrow> nat \<Rightarrow> bool \<Rightarrow> byte list \<Rightarrow> int \<Rightarrow> (tensor \<times> json) list \<Rightarrow> device_memory \<Rightarrow> int \<Rightarrow>
   (int res \<times> device_memory) option" where
  "restore_storages L stage_size preverified file blob_offset [] mem restored = Some (Inr restored, mem)"
| "restore_storages L stage_size preverified file blob_offset (v # vs) mem restored =
     (case restore_storage L stage_size preverified file blob_offset v mem of
        None \<Rightarrow> None
      | Some (Inl e, mem') \<Rightarrow> Some (Inl e, mem')
      | Some (Inr n, mem') \<Rightarrow>
          restore_storages L stage_size preverified file blob_offset vs mem' (restored + n))"

definition restore_python ::
  "pylib \<Rightarrow> file_system \<Rightarrow> string \<Rightarrow> int \<Rightarrow> bool \<Rightarrow> int \<Rightarrow> (tensor \<times> json) list \<Rightarrow> device_memory \<Rightarrow>
   ((string \<times> int) res \<times> device_memory) option" where
  "restore_python L fs blob chunk_bytes preverified blob_offset resolved mem =
     (case traverse (\<lambda>v. entry_int (snd v) ''nbytes'') resolved of
        Inl e \<Rightarrow> Some (Inl e, mem)
      | Inr sizes \<Rightarrow>
          (case fs blob of
             None \<Rightarrow> Some (Inl FileNotFoundErr, mem)
           | Some n \<Rightarrow>
               map_option (\<lambda>(r, mem'). (bind_res r (\<lambda>restored. Inr (''python'', restored)), mem'))
                 (restore_storages L (nat (min chunk_bytes (Max (set sizes)))) preverified (fn_data n)
                   blob_offset resolved mem 0)))"

definition restore_native ::
  "artifact_world \<Rightarrow> native_library \<Rightarrow> string \<Rightarrow> string \<Rightarrow> int \<Rightarrow> int \<Rightarrow> bool \<Rightarrow> int \<Rightarrow> (tensor \<times> json) list \<Rightarrow>
   device_memory \<Rightarrow> (string \<times> int) res \<times> device_memory" where
  "restore_native W lib backend blob chunk_bytes queue_depth preverified blob_offset resolved mem =
     (case traverse (entry_extent blob_offset) resolved of
        Inl e \<Rightarrow> (Inl e, mem)
      | Inr extents \<Rightarrow>
          hydrate_native_extents W lib blob extents
            \<lparr>hc_backend = backend, hc_chunk_bytes = chunk_bytes, hc_queue_depth = queue_depth,
             hc_cuda_device = device_index (fst (hd resolved)), hc_preverified = preverified,
             hc_register_device_buffers = False\<rparr> mem)"

text \<open>The steps of \<^verbatim>\<open>restore\<close> after the manifest has been admitted.\<close>

definition restore_admitted ::
  "pylib \<Rightarrow> artifact_world \<Rightarrow> file_system \<Rightarrow> nn_model \<Rightarrow> json \<Rightarrow> string \<Rightarrow> int \<Rightarrow> int \<Rightarrow> bool \<Rightarrow> int \<Rightarrow>
   device_memory \<Rightarrow> (artifact_metrics res \<times> device_memory) option" where
  "restore_admitted L W fs m manifest blob chunk_bytes queue_depth preverified blob_offset mem =
     (case bind_res (json_item manifest ''storages'') (\<lambda>storages.
           bind_res (resolve_storages m storages) (\<lambda>resolved.
           bind_res (hydrator_from_env L (aw_installed W) (aw_environ W)) (\<lambda>native.
           Inr (resolved, native)))) of
        Inl e \<Rightarrow> Some (Inl e, mem)
      | Inr (resolved, native) \<Rightarrow>
          map_option
            (\<lambda>(r, mem'). (bind_res r (\<lambda>(backend, restored_bytes).
               if map (aw_storage_after W \<circ> fst) resolved \<noteq>
                  map (\<lambda>v. (t_storage_ptr (fst v), t_storage_nbytes (fst v))) resolved
               then Inl (ArtifactError ''hydration changed graph-visible tensor storage'')
               else Inr \<lparr>am_operation = ''restore'', am_backend = backend, am_bytes = restored_bytes,
                         am_storages = length resolved\<rparr>), mem'))
            (case native of
               Some (lib, backend) \<Rightarrow> Some (restore_native W lib backend blob chunk_bytes queue_depth
                 preverified blob_offset resolved mem)
             | None \<Rightarrow> restore_python L fs blob chunk_bytes preverified blob_offset resolved mem))"

definition artifact_restore ::
  "pylib \<Rightarrow> artifact_world \<Rightarrow> file_system \<Rightarrow> artifact \<Rightarrow> nn_model \<Rightarrow> device_memory \<Rightarrow> json \<Rightarrow> int \<Rightarrow> int \<Rightarrow>
   bool \<Rightarrow> string option \<Rightarrow> string option \<Rightarrow> int \<Rightarrow>
   (artifact_metrics res \<times> device_memory \<times> file_system) option" where
  "artifact_restore L W fs A m mem identity chunk_bytes queue_depth preverified marker blob_path blob_offset =
     (if chunk_bytes \<le> 0 \<or> chunk_bytes mod ALIGNMENT \<noteq> 0
      then Some (Inl (ValueError ''restore chunk size must be positive and 4096-byte aligned''), mem, fs)
      else
      let blob = (case blob_path of None \<Rightarrow> ar_blob_path A | Some p \<Rightarrow> p) in
      case load_manifest L fs A (Some identity) blob_path blob_offset of
        Inl e \<Rightarrow> Some (Inl e, mem, fs)
      | Inr manifest \<Rightarrow>
          (case (if preverified \<and> blob_path = None then verify_preverified L W fs A manifest marker
                 else Some (Inr JNull, fs)) of
             None \<Rightarrow> None
           | Some (Inl e, fs') \<Rightarrow> Some (Inl e, mem, fs')
           | Some (Inr _, fs') \<Rightarrow>
               map_option (\<lambda>(r, mem'). (r, mem', fs'))
                 (restore_admitted L W fs' m manifest blob chunk_bytes queue_depth preverified
                   blob_offset mem)))"

section \<open>Identity comparison is equality\<close>

lemma dict_keys_eq_length:
  assumes "dict_ok es" "dict_ok as"
  shows "set (dict_keys es) = set (dict_keys as) \<longleftrightarrow>
    length es = length as \<and> set (dict_keys es) \<subseteq> set (dict_keys as)"
proof -
  have card: "card (set (dict_keys d)) = length d" if "dict_ok d" for d :: "('k, 'v) dict"
    using that by (simp add: dict_ok_def distinct_card) (simp add: dict_keys_def)
  have fin: "finite (set (dict_keys as))" by simp
  show ?thesis
    using card_subset_eq [OF fin, of "set (dict_keys es)"] card [OF assms(1)] card [OF assms(2)] by auto
qed

lemma dict_key_iff: "k \<in> set (dict_keys d) \<longleftrightarrow> (\<exists>v. dict_get d k = Some v)"
  by (induction d) (auto simp: dict_keys_def)

lemma dict_items_iff:
  assumes "dict_ok d"
  shows "(\<forall>p \<in> set d. Q (fst p) (snd p)) \<longleftrightarrow> (\<forall>k v. dict_get d k = Some v \<longrightarrow> Q k v)"
proof -
  have "dict_get d k = Some v \<longleftrightarrow> (k, v) \<in> set d" for k v
    using assms by (simp add: dict_ok_def dict_keys_def)
  then show ?thesis by simp force
qed

lemma py_eq_obj:
  assumes "dict_ok es" "dict_ok as"
  shows "py_eq (JObj es) (JObj as) \<longleftrightarrow>
    set (dict_keys es) = set (dict_keys as) \<and>
    (\<forall>k e a. dict_get es k = Some e \<longrightarrow> dict_get as k = Some a \<longrightarrow> py_eq e a)"
proof -
  let ?Q = "\<lambda>k e. case dict_get as k of None \<Rightarrow> False | Some a \<Rightarrow> py_eq e a"
  have Q: "?Q k e \<longleftrightarrow> (\<exists>a. dict_get as k = Some a) \<and> (\<forall>a. dict_get as k = Some a \<longrightarrow> py_eq e a)" for k e
    by (cases "dict_get as k") simp_all
  have "py_eq (JObj es) (JObj as) \<longleftrightarrow> length es = length as \<and>
      (\<forall>k e. dict_get es k = Some e \<longrightarrow> ?Q k e)"
    using dict_items_iff [OF assms(1), of ?Q] by (subst py_eq.simps) simp
  moreover have "\<dots> \<longleftrightarrow> (length es = length as \<and> set (dict_keys es) \<subseteq> set (dict_keys as)) \<and>
    (\<forall>k e a. dict_get es k = Some e \<longrightarrow> dict_get as k = Some a \<longrightarrow> py_eq e a)"
    unfolding subset_iff dict_key_iff Q by blast
  ultimately show ?thesis using dict_keys_eq_length [OF assms] by simp
qed

lemma concat_map_Nil_iff: "concat (map f ks) = [] \<longleftrightarrow> (\<forall>k \<in> set ks. f k = [])"
  by simp

lemma identity_mismatches_iff:
  "json_ok e \<Longrightarrow> json_ok a \<Longrightarrow> identity_mismatches e a path = [] \<longleftrightarrow> py_eq e a"
proof (induction e a path rule: identity_mismatches.induct)
  case (1 e a path)
  show ?case
  proof (cases "is_obj e \<and> is_obj a")
    case False
    then show ?thesis
      by (subst identity_mismatches.simps) (cases e; cases a; simp)
  next
    case True
    then obtain es as where ea: "e = JObj es" "a = JObj as" by (cases e; cases a; simp)
    have ok: "dict_ok es" "dict_ok as" using "1.prems" ea by simp_all
    have sub: "json_ok u" if "dict_get d k = Some u" "json_ok (JObj d)" for d k u
      using that(2) bspec [OF _ map_of_SomeD [OF that(1)], of "\<lambda>p. json_ok (snd p)"] by simp
    let ?f = "\<lambda>k. case dict_get es k of None \<Rightarrow> [(path @ ''.'' @ k) @ '' is unexpected'']
        | Some x \<Rightarrow> (case dict_get as k of None \<Rightarrow> [(path @ ''.'' @ k) @ '' is missing'']
           | Some y \<Rightarrow> identity_mismatches x y (path @ ''.'' @ k))"
    have step: "identity_mismatches e a path = concat (map ?f (sort (remdups (dict_keys es @ dict_keys as))))"
      by (subst identity_mismatches.simps) (simp only: ea Let_def prod.case json.case)
    have f: "?f k = [] \<longleftrightarrow> (\<exists>x. dict_get es k = Some x) \<and> (\<exists>y. dict_get as k = Some y) \<and>
        (\<forall>x y. dict_get es k = Some x \<longrightarrow> dict_get as k = Some y \<longrightarrow> py_eq x y)" for k
    proof (cases "dict_get es k")
      case (Some x)
      show ?thesis
      proof (cases "dict_get as k")
        fix y assume y: "dict_get as k = Some y"
        have "k \<in> set (sort (remdups (dict_keys es @ dict_keys as)))"
          using Some by (simp add: dict_key_iff)
        then have "identity_mismatches x y (path @ ''.'' @ k) = [] \<longleftrightarrow> py_eq x y"
          using "1.IH" [of _ _ es as k "path @ ''.'' @ k" x y] Some y ea sub [OF Some] sub [OF y] "1.prems"
          by (simp only: refl simp_thms)
        then show ?thesis using Some y by simp
      qed (use Some in simp)
    qed simp
    have "identity_mismatches e a path = [] \<longleftrightarrow> (\<forall>k \<in> set (dict_keys es) \<union> set (dict_keys as). ?f k = [])"
      unfolding step concat_map_Nil_iff by simp
    also have "\<dots> \<longleftrightarrow> set (dict_keys es) = set (dict_keys as) \<and>
      (\<forall>k x y. dict_get es k = Some x \<longrightarrow> dict_get as k = Some y \<longrightarrow> py_eq x y)"
      unfolding f set_eq_iff Ball_def Un_iff dict_key_iff by meson
    finally show ?thesis unfolding ea py_eq_obj [OF ok] .
  qed
qed

end
