(* ===== verification/Cold_Roundtrip.thy ===== *)
theory Cold_Roundtrip
  imports Cold_Artifact
begin

text \<open>
  Capture and restore of \<open>Cold_Artifact\<close> fit together: what one process captures, another
  restores into storages at other addresses, byte for byte; what restore accepts has the
  digests of the manifest; and a crash during capture is detected by a later restore.
\<close>

section \<open>Registered tensors and storage groups\<close>

lemma registered_cuda_tensors_ok:
  assumes "registered_cuda_tensors m = Inr ts"
  shows "dict_ok ts" "ts \<noteq> []" "\<And>n t. dict_get ts n = Some t \<Longrightarrow> t_device_type t = ''cuda'' \<and> 0 < t_numel t"
proof -
  let ?I = "\<lambda>d. dict_ok d \<and> (\<forall>n t. dict_get d n = Some t \<longrightarrow> t_device_type t = ''cuda'' \<and> 0 < t_numel t)"
  have step: "?I d'" if "?I d" "register_tensor np d v = Inr d'" for np d v d'
    using that by (cases v) (auto simp: register_tensor_def Let_def split: if_splits)
  obtain xs where xs: "fold_res (register_tensor (nonpersistent_buffers m)) [] xs = Inr ts"
    using assms unfolding registered_cuda_tensors_def by (auto split: if_splits)
  have "?I ts" by (rule fold_res_invariant [OF xs]) (simp, rule step)
  then show "dict_ok ts" "\<And>n t. dict_get ts n = Some t \<Longrightarrow> t_device_type t = ''cuda'' \<and> 0 < t_numel t"
    by blast+
  show "ts \<noteq> []" using assms by (auto simp: registered_cuda_tensors_def split: if_splits)
qed

definition members :: "(string \<times> tensor) list \<Rightarrow> storage_key \<Rightarrow> (string \<times> tensor) list" where
  "members xs k = filter (\<lambda>v. storage_key (snd v) = k) xs"

definition own_reference :: "string \<times> tensor \<Rightarrow> json" where
  "own_reference v = tensor_reference (fst v) (snd v) (t_storage_ptr (snd v))"

definition group_for :: "(string \<times> tensor) list \<Rightarrow> storage_key \<Rightarrow> group" where
  "group_for xs k = (snd (hd (members xs k)), map own_reference (members xs k))"

lemma members_snoc:
  "members (xs @ [v]) k = members xs k @ (if storage_key (snd v) = k then [v] else [])"
  by (simp add: members_def)

lemma group_step_eq:
  "group_step d v = dict_put (storage_key (snd v))
     (case dict_get d (storage_key (snd v)) of
        None \<Rightarrow> (snd v, [own_reference v]) | Some g \<Rightarrow> (fst g, snd g @ [own_reference v])) d"
  by (cases v; cases "dict_get d (storage_key (snd v))")
    (simp_all add: group_step_def own_reference_def Let_def split: prod.splits)

lemma group_fold:
  "dict_get (foldl group_step [] xs) k = (if members xs k = [] then None else Some (group_for xs k))"
  "dict_ok (foldl group_step [] xs)"
proof (induction xs arbitrary: k rule: rev_induct)
  case (snoc v xs)
  obtain n t where v: "v = (n, t)" by (cases v)
  let ?gs = "foldl group_step [] xs"
  have put: "group_step ?gs v = dict_put (storage_key t)
      (if members xs (storage_key t) = [] then (t, [own_reference v])
       else (fst (group_for xs (storage_key t)), snd (group_for xs (storage_key t)) @ [own_reference v])) ?gs"
    using snoc(1) [of "storage_key t"] by (subst group_step_eq) (simp add: v)
  { case 1
    show ?case
      using snoc(1) [of k] put by (auto simp: members_snoc v group_for_def)
  next
    case 2
    show ?case using snoc(2) put by simp
  }
qed (simp_all add: members_def)

lemma members_first: "members xs k \<noteq> [] \<Longrightarrow> storage_key (fst (group_for xs k)) = k"
proof -
  assume "members xs k \<noteq> []"
  then have "hd (members xs k) \<in> set (members xs k)" by simp
  then show ?thesis by (simp add: group_for_def) (simp add: members_def)
qed

text \<open>The groups are the classes of tensors with one storage, each once.\<close>

lemma storage_groups_classes:
  assumes "storage_groups m = Inr gs" "registered_cuda_tensors m = Inr ts"
  shows "distinct (map (storage_key \<circ> fst) gs)"
    and "storage_key ` fst ` set gs = storage_key ` snd ` set ts"
    and "\<And>g. g \<in> set gs \<Longrightarrow> g = group_for (sort_key fst ts) (storage_key (fst g)) \<and>
           members (sort_key fst ts) (storage_key (fst g)) \<noteq> []"
proof -
  let ?xs = "sort_key fst ts"
  let ?d = "foldl group_step [] ?xs"
  have gs: "mset gs = mset (map snd ?d)"
    using assms by (auto simp: storage_groups_def)
  have item: "g = group_for ?xs k \<and> members ?xs k \<noteq> []" if "(k, g) \<in> set ?d" for k g
  proof -
    have "dict_get ?d k = Some g"
      using that group_fold(2) [of ?xs] by (simp add: dict_ok_def dict_keys_def)
    then show ?thesis using group_fold(1) [of ?xs k] by (auto split: if_splits)
  qed
  have key: "storage_key (fst g) = k" if "(k, g) \<in> set ?d" for k g
    using item [OF that] members_first [of ?xs k] by simp
  have keys: "map (storage_key \<circ> fst) (map snd ?d) = map fst ?d"
    unfolding map_map by (rule map_cong [OF refl]) (use key in simp)
  have "mset (map (storage_key \<circ> fst) gs) = mset (map fst ?d)"
    using arg_cong [OF gs, of "image_mset (storage_key \<circ> fst)"] unfolding mset_map [symmetric] keys .
  then have "distinct (map (storage_key \<circ> fst) gs) = distinct (map fst ?d)"
    by (rule mset_eq_imp_distinct_iff)
  then show "distinct (map (storage_key \<circ> fst) gs)"
    using group_fold(2) [of ?xs] by (simp add: dict_ok_def dict_keys_def)
  have set_gs: "set gs = snd ` set ?d" using mset_eq_setD [OF gs] by simp
  show "g = group_for ?xs (storage_key (fst g)) \<and> members ?xs (storage_key (fst g)) \<noteq> []"
    if "g \<in> set gs" for g
  proof -
    have "g \<in> snd ` set ?d" using that set_gs by simp
    then obtain x where "x \<in> set ?d" "g = snd x" by (rule imageE) simp
    then have k: "(fst x, g) \<in> set ?d" by simp
    show ?thesis using item [OF k] unfolding key [OF k] .
  qed
  have d: "k \<in> fst ` set ?d \<longleftrightarrow> members ?xs k \<noteq> []" for k
    using group_fold(1) [of ?xs k] map_of_eq_None_iff [of ?d k] by (simp split: if_splits)
  have mem: "members ?xs k \<noteq> [] \<longleftrightarrow> k \<in> storage_key ` snd ` set ts" for k
    by (auto simp: members_def filter_empty_conv)
  have "storage_key ` fst ` set gs = set (map (storage_key \<circ> fst) (map snd ?d))"
    unfolding set_gs by (simp only: set_map image_comp comp_assoc)
  then show "storage_key ` fst ` set gs = storage_key ` snd ` set ts"
    unfolding keys set_map by (intro set_eqI) (simp only: d mem)
qed

section \<open>Layout\<close>

text \<open>Every storage starts at the next multiple of 4096 after the one before it.\<close>

fun placed_from :: "int \<Rightarrow> placement list \<Rightarrow> int \<Rightarrow> bool" where
  "placed_from p [] q = (p = q)"
| "placed_from p ((t, refs, offset, n) # ps) q =
     (offset = artifact_align p \<and> n = t_storage_nbytes t \<and> placed_from (offset + n) ps q)"

lemma layout_fold:
  "foldl layout_step (p, acc) gs = (q, placed) \<Longrightarrow>
   \<exists>new. placed = acc @ new \<and> placed_from p new q \<and> map (\<lambda>(t, refs, _). (t, refs)) new = gs"
proof (induction gs arbitrary: p acc)
  case (Cons g gs)
  let ?o = "artifact_align p"
  let ?x = "(fst g, snd g, ?o, t_storage_nbytes (fst g))"
  have "foldl layout_step (?o + t_storage_nbytes (fst g), acc @ [?x]) gs = (q, placed)"
    using Cons.prems layout_step_def [of "(p, acc)" g] by (simp add: Let_def)
  from Cons.IH [OF this] obtain new where "placed = (acc @ [?x]) @ new"
    "placed_from (?o + t_storage_nbytes (fst g)) new q" "map (\<lambda>(t, refs, _). (t, refs)) new = gs" by blast
  then show ?case by (intro exI [of _ "?x # new"]) simp
qed simp

lemma artifact_layout_placed:
  assumes "artifact_layout gs = (q, placed)"
  shows "placed_from 0 placed q" "map (\<lambda>(t, refs, _). (t, refs)) placed = gs"
  using layout_fold [of 0 "[]" gs q placed] assms by (auto simp: artifact_layout_def)

definition storages_ok :: "placement list \<Rightarrow> bool" where
  "storages_ok ps = (\<forall>p \<in> set ps. 0 < t_storage_nbytes (fst p))"

lemma artifact_align_ge: "p \<le> artifact_align p" "0 \<le> p \<Longrightarrow> 0 \<le> artifact_align p"
  using align_up_ge [of ALIGNMENT p] by (simp_all add: artifact_align_def ALIGNMENT_def)

text \<open>The bytes of the blob from a position on.\<close>

fun blob_bytes :: "device_memory \<Rightarrow> int \<Rightarrow> placement list \<Rightarrow> byte list" where
  "blob_bytes mem p [] = []"
| "blob_bytes mem p ((t, refs, offset, n) # ps) =
     replicate (nat (offset - p)) 0 @ storage_bytes mem t @ blob_bytes mem (offset + n) ps"

lemma length_storage_bytes [simp]: "length (storage_bytes mem t) = nat (t_storage_nbytes t)"
  by (simp add: storage_bytes_def)

lemma placed_from_Cons:
  assumes "placed_from p ((t, refs, offset, n) # ps) q" "storages_ok ((t, refs, offset, n) # ps)"
  shows "p \<le> offset" "0 < n" "n = t_storage_nbytes t" "placed_from (offset + n) ps q" "storages_ok ps"
  using assms artifact_align_ge(1) [of p] by (auto simp: storages_ok_def)

lemma placed_from_mono: "placed_from p ps q \<Longrightarrow> storages_ok ps \<Longrightarrow> p \<le> q"
proof (induction p ps q rule: placed_from.induct)
  case (2 p t refs offset n ps q)
  note h = placed_from_Cons [OF 2(2,3)]
  have "offset + n \<le> q" using 2(1,2) h(4,5) by simp
  then show ?case using h(1,2) by simp
qed simp

lemma length_blob_bytes:
  "placed_from p ps q \<Longrightarrow> storages_ok ps \<Longrightarrow> length (blob_bytes mem p ps) = nat (q - p)"
proof (induction p ps q rule: placed_from.induct)
  case (2 p t refs offset n ps q)
  note h = placed_from_Cons [OF 2(2,3)]
  have "length (blob_bytes mem (offset + n) ps) = nat (q - (offset + n))" using 2(1,2) h(4,5) by simp
  then show ?case using h(1-3) placed_from_mono [OF h(4,5)] by simp
qed simp

lemma layout_nbytes: "placed_from p ps q \<Longrightarrow> x \<in> set ps \<Longrightarrow> snd (snd (snd x)) = t_storage_nbytes (fst x)"
  by (induction p ps q rule: placed_from.induct) auto

lemma read_at_append: "length xs \<le> pos \<Longrightarrow> read_at (xs @ ys) pos n = read_at ys (pos - length xs) n"
  by (simp add: read_at_def)

lemma blob_bytes_read:
  "placed_from p ps q \<Longrightarrow> storages_ok ps \<Longrightarrow> 0 \<le> p \<Longrightarrow> (t, refs, offset, n) \<in> set ps \<Longrightarrow>
   p \<le> offset \<and> offset + n \<le> q \<and> n = t_storage_nbytes t \<and>
   read_at (blob_bytes mem p ps) (nat (offset - p)) (nat n) = storage_bytes mem t"
proof (induction p ps q rule: placed_from.induct)
  case (2 p u refs' offset' n' ps q)
  note p = placed_from_Cons [OF 2(2,3)]
  let ?pre = "replicate (nat (offset' - p)) 0 @ storage_bytes mem u"
  have len: "length ?pre = nat (offset' - p) + nat n'" using p by simp
  show ?case
  proof (cases "(t, refs, offset, n) \<in> set ps")
    case True
    have nn: "0 \<le> offset' + n'" using p(1,2) 2(4) by simp
    have "offset' + n' \<le> offset \<and> offset + n \<le> q \<and> n = t_storage_nbytes t \<and>
      read_at (blob_bytes mem (offset' + n') ps) (nat (offset - (offset' + n'))) (nat n) = storage_bytes mem t"
      by (intro 2(1) p(4,5) nn True)
    then have IH: "offset' + n' \<le> offset" "offset + n \<le> q" "n = t_storage_nbytes t"
      "read_at (blob_bytes mem (offset' + n') ps) (nat (offset - (offset' + n'))) (nat n) = storage_bytes mem t"
      by blast+
    have "nat (offset - p) - length ?pre = nat (offset - (offset' + n'))" "length ?pre \<le> nat (offset - p)"
      unfolding len using IH(1) p(1,2) by linarith+
    then have "read_at (?pre @ blob_bytes mem (offset' + n') ps) (nat (offset - p)) (nat n) = storage_bytes mem t"
      using read_at_append [of ?pre "nat (offset - p)" "blob_bytes mem (offset' + n') ps" "nat n"] IH(4) by simp
    then show ?thesis using IH(1-3) p(1,2) by simp
  next
    case False
    then have "t = u" "offset = offset'" "n = n'" using 2(5) by simp_all
    then show ?thesis
      using p placed_from_mono [OF p(4,5)] by (simp add: read_at_def)
  qed
qed simp

section \<open>The captured blob\<close>

definition captured_entry :: "pylib \<Rightarrow> device_memory \<Rightarrow> placement \<Rightarrow> json" where
  "captured_entry L mem p =
     (case p of (t, refs, offset, n) \<Rightarrow>
        storage_entry offset n (hex8 (zlib_crc32 (storage_bytes mem t) 0))
          (sha256_hex L (storage_bytes mem t)) refs)"

lemma capture_storage_eq:
  assumes "0 < stage_size" "ct_written s \<le> offset" "0 \<le> ct_written s"
    and "offset + n \<le> int (length (ct_file s))" "n = t_storage_nbytes t" "0 \<le> n"
  shows "capture_storage L mem stage_size s (t, refs, offset, n) =
    Some \<lparr>ct_file = write_at (ct_file s) (nat (ct_written s))
            (replicate (nat (offset - ct_written s)) 0 @ storage_bytes mem t),
          ct_blob_digest = ct_blob_digest s @ replicate (nat (offset - ct_written s)) 0 @ storage_bytes mem t,
          ct_written = offset + n,
          ct_entries = ct_entries s @ [captured_entry L mem (t, refs, offset, n)]\<rparr>"
proof -
  let ?pad = "replicate (nat (offset - ct_written s)) (0 :: byte)"
  let ?file = "write_at (ct_file s) (nat (ct_written s)) ?pad"
  have padded: "(if offset \<noteq> ct_written s then ?file else ct_file s) = ?file"
    using assms by simp
  have digest: "(if offset \<noteq> ct_written s then ct_blob_digest s @ ?pad else ct_blob_digest s) =
      ct_blob_digest s @ ?pad"
    by simp
  have pos: "nat (ct_written s) + length ?pad = nat offset" using assms by simp
  have "write_at ?file (nat offset) (storage_bytes mem t) =
      write_at (ct_file s) (nat (ct_written s)) (?pad @ storage_bytes mem t)"
    using write_at_append [of "nat (ct_written s)" ?pad "storage_bytes mem t" "ct_file s"] assms pos
    by simp
  moreover have "stage_out stage_size (storage_bytes mem t) (nat offset)
     \<lparr>cy_file = ?file, cy_storage_digest = [], cy_blob_digest = ct_blob_digest s @ ?pad, cy_crc = 0, cy_copied = 0\<rparr> =
    Some \<lparr>cy_file = write_at ?file (nat offset) (storage_bytes mem t), cy_storage_digest = storage_bytes mem t,
      cy_blob_digest = ct_blob_digest s @ ?pad @ storage_bytes mem t, cy_crc = zlib_crc32 (storage_bytes mem t) 0,
      cy_copied = length (storage_bytes mem t)\<rparr>"
    using assms by (subst stage_out_correct) simp_all
  ultimately show ?thesis
    unfolding capture_storage_def Let_def prod.case padded digest by (simp add: captured_entry_def)
qed

lemma capture_storages_eq:
  assumes "0 < stage_size" "placed_from (ct_written s) ps q" "storages_ok ps" "0 \<le> ct_written s"
    and "q \<le> int (length (ct_file s))"
  shows "capture_storages L mem stage_size s ps =
    Some \<lparr>ct_file = write_at (ct_file s) (nat (ct_written s)) (blob_bytes mem (ct_written s) ps),
          ct_blob_digest = ct_blob_digest s @ blob_bytes mem (ct_written s) ps,
          ct_written = q, ct_entries = ct_entries s @ map (captured_entry L mem) ps\<rparr>"
  using assms(2-5)
proof (induction ps arbitrary: s)
  case Nil
  then show ?case by simp
next
  case (Cons p ps)
  obtain t refs offset n where p: "p = (t, refs, offset, n)" by (cases p)
  note h = placed_from_Cons [OF Cons.prems(1,2) [unfolded p]]
  let ?new = "replicate (nat (offset - ct_written s)) 0 @ storage_bytes mem t"
  let ?s = "\<lparr>ct_file = write_at (ct_file s) (nat (ct_written s)) ?new,
      ct_blob_digest = ct_blob_digest s @ ?new, ct_written = offset + n,
      ct_entries = ct_entries s @ [captured_entry L mem (t, refs, offset, n)]\<rparr>"
  have q: "offset + n \<le> q" using placed_from_mono [OF h(4,5)] .
  have one: "capture_storage L mem stage_size s p = Some ?s"
    unfolding p using h(1-3) q Cons.prems(3,4) by (subst capture_storage_eq [OF assms(1)]) simp_all
  have pos: "nat (offset + n) = nat (ct_written s) + length ?new"
    using h(1-3) Cons.prems(3) by simp
  have rest: "nat (offset + n) + length (blob_bytes mem (offset + n) ps) \<le> length (ct_file s)"
    using length_blob_bytes [OF h(4,5), of mem] q Cons.prems(3,4) h(1,2) by simp
  have "capture_storages L mem stage_size s (p # ps) = capture_storages L mem stage_size ?s ps"
    by (simp add: one)
  also have "\<dots> = Some \<lparr>ct_file = write_at (ct_file ?s) (nat (offset + n)) (blob_bytes mem (offset + n) ps),
      ct_blob_digest = ct_blob_digest ?s @ blob_bytes mem (offset + n) ps, ct_written = q,
      ct_entries = ct_entries ?s @ map (captured_entry L mem) ps\<rparr>"
    using Cons.IH [of ?s] h Cons.prems(3,4) by simp
  also have "write_at (ct_file ?s) (nat (offset + n)) (blob_bytes mem (offset + n) ps) =
      write_at (ct_file s) (nat (ct_written s)) (?new @ blob_bytes mem (offset + n) ps)"
    using write_at_append [of "nat (ct_written s)" ?new "blob_bytes mem (offset + n) ps" "ct_file s"]
      rest unfolding pos by (simp only: capture_state.simps)
  finally show ?case by (simp add: p)
qed

lemma placed_positive:
  assumes "placed_from p ps q" "storages_ok ps" "ps \<noteq> []"
  shows "p < q"
proof -
  obtain t refs offset n r where ps: "ps = (t, refs, offset, n) # r" using assms(3) by (cases ps) auto
  note h = placed_from_Cons [OF assms(1,2) [unfolded ps]]
  show ?thesis using h(1,2) placed_from_mono [OF h(4,5)] by simp
qed

lemma capture_python_eq:
  assumes "placed_from 0 ps q" "storages_ok ps" "ps \<noteq> []" "0 < chunk_bytes"
  shows "capture_python L mem chunk_bytes q ps =
    Some (Inr (''python'', map (captured_entry L mem) ps, sha256_hex L (blob_bytes mem 0 ps)),
      Some (blob_bytes mem 0 ps))"
proof -
  let ?M = "Max (set (map (\<lambda>(t, _). t_storage_nbytes t) ps))"
  have "t_storage_nbytes (fst (hd ps)) \<le> ?M" using assms(3) by (cases ps) (simp_all split: prod.splits)
  moreover have "0 < t_storage_nbytes (fst (hd ps))" using assms(2,3) by (simp add: storages_ok_def)
  ultimately have stage: "0 < nat (min chunk_bytes ?M)" using assms(4) by simp
  have q: "0 < q" using placed_positive [OF assms(1-3)] .
  have len: "length (blob_bytes mem 0 ps) = nat q" using length_blob_bytes [OF assms(1,2)] by simp
  let ?s = "\<lparr>ct_file = replicate (nat q) 0, ct_blob_digest = [], ct_written = 0, ct_entries = []\<rparr>"
  have "capture_storages L mem (nat (min chunk_bytes ?M)) ?s ps =
      Some \<lparr>ct_file = write_at (replicate (nat q) 0) 0 (blob_bytes mem 0 ps), ct_blob_digest = blob_bytes mem 0 ps,
        ct_written = q, ct_entries = map (captured_entry L mem) ps\<rparr>"
    using capture_storages_eq [OF stage, of ?s ps q L mem] assms(1,2) q by simp
  moreover have "write_at (replicate (nat q) 0) 0 (blob_bytes mem 0 ps) = blob_bytes mem 0 ps"
    using len by (simp add: write_at_def)
  ultimately show ?thesis unfolding capture_python_def Let_def using q by simp
qed

text \<open>
  When a capture through the staged copy can run: nothing compatible is in its way, the
  environment selects no native library, and every storage has bytes.
\<close>

definition can_capture ::
  "pylib \<Rightarrow> artifact_world \<Rightarrow> file_system \<Rightarrow> artifact \<Rightarrow> nn_model \<Rightarrow> json \<Rightarrow> bool \<Rightarrow> bool" where
  "can_capture L W fs A m identity replace =
     ((replace \<or> (\<exists>e. load_manifest L fs A (Some identity) None 0 = Inl (ArtifactError e))) \<and>
      (\<exists>ts. registered_cuda_tensors m = Inr ts \<and> (\<forall>t \<in> snd ` set ts. 0 < t_storage_nbytes t)) \<and>
      capture_from_env L (aw_installed W) (aw_environ W) = Inr None)"

definition capture_ops :: "pylib \<Rightarrow> artifact_world \<Rightarrow> artifact \<Rightarrow> json \<Rightarrow> byte list \<Rightarrow> int \<Rightarrow> json list \<Rightarrow> fs_op list" where
  "capture_ops L W A identity blob q entries =
     [FsWrite (temporary_blob W A) blob,
      FsWrite (temporary_manifest W A)
        (artifact_json L (artifact_manifest L identity ''weights.blob'' q (sha256_hex L blob) entries) @ [0x0A]),
      FsReplace (temporary_blob W A) (ar_blob_path A),
      FsReplace (temporary_manifest W A) (ar_manifest_path A),
      FsUnlink (temporary_blob W A), FsUnlink (temporary_manifest W A)]"

lemma storage_groups_total:
  assumes "registered_cuda_tensors m = Inr ts"
  obtains gs where "storage_groups m = Inr gs" "gs \<noteq> []"
proof -
  obtain gs where gs: "storage_groups m = Inr gs" using assms by (simp add: storage_groups_def)
  have "storage_key ` fst ` set gs = storage_key ` snd ` set ts"
    by (rule storage_groups_classes(2) [OF gs assms])
  moreover have "ts \<noteq> []" using registered_cuda_tensors_ok(2) [OF assms] .
  ultimately have "gs \<noteq> []" by auto
  with gs that show ?thesis by blast
qed

lemma group_first_registered:
  assumes "registered_cuda_tensors m = Inr ts" "storage_groups m = Inr gs" "g \<in> set gs"
  shows "fst g \<in> snd ` set ts"
proof -
  let ?ms = "members (sort_key fst ts) (storage_key (fst g))"
  have "g = group_for (sort_key fst ts) (storage_key (fst g))" "?ms \<noteq> []"
    using storage_groups_classes(3) [OF assms(2,1,3)] by blast+
  then have "fst g = snd (hd ?ms)" "hd ?ms \<in> set ?ms"
    by (simp_all add: group_for_def) (metis fst_conv group_for_def)
  moreover have "set ?ms \<subseteq> set ts" by (auto simp: members_def)
  ultimately show ?thesis by (metis image_eqI subsetD)
qed

lemma artifact_capture_eq:
  assumes "can_capture L W fs A m identity replace" "storage_groups m = Inr gs"
    and "artifact_layout gs = (q, ps)" "0 < chunk_bytes" "1 \<le> queue_depth" "queue_depth \<le> 64"
  shows "artifact_capture L W fs A m mem identity chunk_bytes queue_depth replace =
    Some (Inr \<lparr>am_operation = ''capture'', am_backend = ''python'',
               am_bytes = sum_list (map (\<lambda>p. t_storage_nbytes (fst p)) ps), am_storages = length ps\<rparr>,
      capture_ops L W A identity (blob_bytes mem 0 ps) q (map (captured_entry L mem) ps))"
    and "storages_ok ps" "ps \<noteq> []"
proof -
  obtain ts where ts: "registered_cuda_tensors m = Inr ts" "\<And>t. t \<in> snd ` set ts \<Longrightarrow> 0 < t_storage_nbytes t"
    and env: "capture_from_env L (aw_installed W) (aw_environ W) = Inr None"
    using assms(1) by (auto simp: can_capture_def)
  note placed = artifact_layout_placed [OF assms(3)]
  have gs: "gs \<noteq> []" using storage_groups_total [OF ts(1)] assms(2) by force
  then show ne: "ps \<noteq> []" using placed(2) by auto
  show ok: "storages_ok ps"
    unfolding storages_ok_def
  proof
    fix p assume "p \<in> set ps"
    then have "(\<lambda>(t, refs, _). (t, refs)) p \<in> set gs" unfolding placed(2) [symmetric] set_map by (rule imageI)
    then have "(fst p, fst (snd p)) \<in> set gs" by (simp split: prod.splits)
    then show "0 < t_storage_nbytes (fst p)"
      using group_first_registered [OF ts(1) assms(2)] ts(2) by force
  qed
  have nbytes: "map (entry_nbytes \<circ> captured_entry L mem) ps = map (\<lambda>p. t_storage_nbytes (fst p)) ps"
  proof (rule map_cong [OF refl])
    fix p assume p: "p \<in> set ps"
    obtain t refs offset n where pe: "p = (t, refs, offset, n)" by (cases p)
    have "n = t_storage_nbytes t"
      using blob_bytes_read [OF placed(1) ok, of t refs offset n] p pe by simp
    then show "(entry_nbytes \<circ> captured_entry L mem) p = t_storage_nbytes (fst p)"
      by (simp add: pe captured_entry_def storage_entry_def entry_nbytes_def)
  qed
  have guard: "(if replace then Inr ()
      else case load_manifest L fs A (Some identity) None 0 of
             Inl e \<Rightarrow> if is_artifact_error e then Inr () else Inl e
           | Inr _ \<Rightarrow> Inl (ArtifactError ''a compatible artifact already exists'')) = Inr ()"
    using assms(1) by (auto simp: can_capture_def)
  show "artifact_capture L W fs A m mem identity chunk_bytes queue_depth replace =
    Some (Inr \<lparr>am_operation = ''capture'', am_backend = ''python'',
               am_bytes = sum_list (map (\<lambda>p. t_storage_nbytes (fst p)) ps), am_storages = length ps\<rparr>,
      capture_ops L W A identity (blob_bytes mem 0 ps) q (map (captured_entry L mem) ps))"
    unfolding artifact_capture_def capture_body_def guard assms(2) env
    using assms(3-6) capture_python_eq [OF placed(1) ok ne assms(4), of L mem]
    by (simp add: capture_ops_def nbytes Let_def)
qed

section \<open>Resolving the storages of a fresh model\<close>

text \<open>
  A fresh model has the layout of the captured one: the same tensor names with the same
  types, shapes, strides, offsets in their storage and storage sizes, and the same tensors share
  a storage. Addresses and devices may differ.
\<close>

definition same_layout :: "(string, tensor) dict \<Rightarrow> (string, tensor) dict \<Rightarrow> bool" where
  "same_layout ts ts' \<longleftrightarrow>
     set (dict_keys ts) = set (dict_keys ts') \<and>
     (\<forall>n t t'. dict_get ts n = Some t \<longrightarrow> dict_get ts' n = Some t' \<longrightarrow>
        own_reference (n, t) = own_reference (n, t') \<and> t_storage_nbytes t = t_storage_nbytes t') \<and>
     (\<forall>n t t' k u u'. dict_get ts n = Some t \<longrightarrow> dict_get ts' n = Some t' \<longrightarrow>
        dict_get ts k = Some u \<longrightarrow> dict_get ts' k = Some u' \<longrightarrow>
        (storage_key t = storage_key u \<longleftrightarrow> storage_key t' = storage_key u'))"

lemma own_reference_ok [simp]: "json_ok (own_reference v)" "\<not> has_nan (own_reference v)"
  by (auto simp: own_reference_def tensor_reference_def dict_ok_def dict_keys_def)

lemma jget_norm_json: "json_ok v \<Longrightarrow> jget (json_norm v) k = map_option json_norm (jget v k)"
  using jget_norm by (cases v) simp_all

lemma own_reference_get:
  "jget (json_norm (own_reference v)) ''name'' = Some (JStr (fst v))" "is_obj (json_norm (own_reference v))"
  using jget_norm_json [OF own_reference_ok(1), of v "''name''"]
  by (simp_all add: own_reference_def tensor_reference_def)

lemma json_get_obj [simp]: "is_obj v \<Longrightarrow> json_get v k = Inr (jget_none v k)"
  by (cases v) simp_all

lemma json_get_int_obj: "is_obj v \<Longrightarrow> jget v k = Some (JInt i) \<Longrightarrow> json_get_int v k d = Inr i"
  by (simp add: json_get_int_def)

lemma validate_ref_norm:
  assumes "own_reference (n, t) = own_reference (n, t')" "p = t_storage_ptr t'"
  shows "validate_ref (json_norm (own_reference (n, t))) n t' p = Inr ()"
proof -
  have "tensor_reference n t' p = own_reference (n, t)" using assms by (simp add: own_reference_def)
  moreover have "identity_mismatches (json_norm (own_reference (n, t))) (own_reference (n, t)) ''tensor'' = []"
    using py_eq_norm_self [of "own_reference (n, t)"] by (subst identity_mismatches_iff) simp_all
  ultimately show ?thesis by (simp add: validate_ref_def)
qed

text \<open>One group of the captured model, seen in the fresh one.\<close>

definition resolves :: "(string, tensor) dict \<Rightarrow> storage_key \<Rightarrow> string \<times> tensor \<Rightarrow> bool" where
  "resolves ts' key v \<longleftrightarrow> (\<exists>t'. dict_get ts' (fst v) = Some t' \<and> storage_key t' = key \<and>
     own_reference v = own_reference (fst v, t'))"

lemma resolve_ref_ok:
  assumes "resolves ts' key v" "fst v \<notin> set saved" "pointer = fst key"
  shows "resolve_ref ts' key pointer saved (json_norm (own_reference v)) = Inr (fst v # saved)"
proof -
  obtain t' where t': "dict_get ts' (fst v) = Some t'" "storage_key t' = key"
    "own_reference v = own_reference (fst v, t')" using assms(1) by (auto simp: resolves_def)
  have "validate_ref (json_norm (own_reference (fst v, snd v))) (fst v) t' pointer = Inr ()"
    using t'(2,3) assms(3) by (intro validate_ref_norm) (auto simp: storage_key_def)
  then show ?thesis
    unfolding resolve_ref_def json_get_obj [OF own_reference_get(2)]
    using t'(1,2) assms(2) by (simp add: own_reference_get jget_none_def image_iff)
qed

lemma resolve_refs_ok:
  assumes "\<And>v. v \<in> set vs \<Longrightarrow> resolves ts' key v" "distinct (map fst vs @ saved)" "pointer = fst key"
  shows "fold_res (resolve_ref ts' key pointer) saved (map (json_norm \<circ> own_reference) vs) =
    Inr (rev (map fst vs) @ saved)"
  using assms(1,2)
proof (induction vs arbitrary: saved)
  case (Cons v vs)
  have "resolve_ref ts' key pointer saved ((json_norm \<circ> own_reference) v) = Inr (fst v # saved)"
    using Cons.prems resolve_ref_ok [OF _ _ assms(3), of ts' v saved] by simp
  moreover have "fold_res (resolve_ref ts' key pointer) (fst v # saved) (map (json_norm \<circ> own_reference) vs) =
      Inr (rev (map fst vs) @ fst v # saved)"
    using Cons.prems by (intro Cons.IH) auto
  ultimately show ?case by (simp add: comp_def)
qed simp

lemma captured_entry_ok:
  assumes "\<And>r. r \<in> set refs \<Longrightarrow> json_ok r"
  shows "json_ok (captured_entry L mem (t, refs, offset, n))"
  using assms by (auto simp: captured_entry_def storage_entry_def dict_ok_def dict_keys_def)

lemma captured_entry_get:
  fixes L :: pylib and mem :: device_memory and t :: tensor and offset n :: int
  assumes "\<And>r. r \<in> set refs \<Longrightarrow> json_ok r"
  defines "e \<equiv> json_norm (captured_entry L mem (t, refs, offset, n))"
  shows "is_obj e" "jget e ''refs'' = Some (JList (map json_norm refs))" "jget e ''nbytes'' = Some (JInt n)"
    and "jget e ''offset'' = Some (JInt offset)"
    and "jget e ''crc32'' = Some (JStr (hex8 (zlib_crc32 (storage_bytes mem t) 0)))"
    and "jget e ''sha256'' = Some (JStr (sha256_hex L (storage_bytes mem t)))"
  unfolding e_def using jget_norm_json [OF captured_entry_ok [OF assms(1)]]
  by (simp_all add: captured_entry_def storage_entry_def)

lemma resolve_entry_ok:
  fixes L :: pylib and mem :: device_memory and t :: tensor and offset n :: int
  assumes vs: "vs \<noteq> []" "\<And>v. v \<in> set vs \<Longrightarrow> resolves ts' (storage_key t') v"
    and t': "dict_get ts' (fst (hd vs)) = Some t'" "t_storage_nbytes t' = n"
    and fresh: "distinct (map fst vs @ rv_saved_names s)" "storage_key t' \<notin> set (rv_used_storages s)"
  defines "e \<equiv> json_norm (captured_entry L mem (t, map own_reference vs, offset, n))"
  shows "resolve_entry ts' s e =
    Inr \<lparr>rv_saved_names = rev (map fst vs) @ rv_saved_names s,
         rv_used_storages = storage_key t' # rv_used_storages s,
         rv_resolved = rv_resolved s @ [(t', e)]\<rparr>"
proof -
  obtain v ws where v: "vs = v # ws" using vs(1) by (cases vs) auto
  have refs: "\<And>r. r \<in> set (map own_reference vs) \<Longrightarrow> json_ok r" by auto
  have get: "is_obj e" "jget e ''refs'' = Some (JList (map json_norm (map own_reference vs)))"
    "jget e ''nbytes'' = Some (JInt n)"
    unfolding e_def using captured_entry_get(1-3) [OF refs] by blast+
  have inner: "fold_res (resolve_ref ts' (storage_key t') (t_storage_ptr t')) (rv_saved_names s)
      (map (json_norm \<circ> own_reference) vs) = Inr (rev (map fst vs) @ rv_saved_names s)"
    using vs(2) fresh(1) by (intro resolve_refs_ok) (auto simp: storage_key_def)
  have nbytes: "json_get_int e ''nbytes'' (- 1) = Inr n" by (rule json_get_int_obj [OF get(1,3)])
  have refs_eq: "jget_none e ''refs'' = JList (map (json_norm \<circ> own_reference) vs)"
    using get(2) by (simp add: jget_none_def)
  have first: "jget_none (json_norm (own_reference v)) ''name'' = JStr (fst v)"
    by (simp add: jget_none_def own_reference_get)
  show ?thesis
    unfolding resolve_entry_def json_get_obj [OF get(1)] refs_eq
    using inner nbytes first t' fresh(2) own_reference_get(2) [of v] by (simp add: v Let_def)
qed

definition resolved_placement ::
  "(string, tensor) dict \<Rightarrow> (placement \<Rightarrow> (string \<times> tensor) list) \<Rightarrow> (placement \<Rightarrow> tensor) \<Rightarrow> placement \<Rightarrow> bool" where
  "resolved_placement ts' vs tg p \<longleftrightarrow>
     fst (snd p) = map own_reference (vs p) \<and> vs p \<noteq> [] \<and>
     (\<forall>v \<in> set (vs p). resolves ts' (storage_key (tg p)) v) \<and>
     dict_get ts' (fst (hd (vs p))) = Some (tg p) \<and> t_storage_nbytes (tg p) = snd (snd (snd p))"

lemma distinct_rotate: "distinct ((ns @ cs) @ ss) \<Longrightarrow> distinct (cs @ rev ns @ ss)"
  by auto

lemma resolve_entries_ok:
  assumes "\<And>p. p \<in> set ps \<Longrightarrow> resolved_placement ts' vs tg p"
    and "distinct (concat (map (map fst \<circ> vs) ps) @ rv_saved_names s)"
    and "distinct (map (storage_key \<circ> tg) ps @ rv_used_storages s)"
  shows "\<exists>s'. fold_res (resolve_entry ts') s (map (json_norm \<circ> captured_entry L mem) ps) = Inr s' \<and>
    set (rv_saved_names s') = set (concat (map (map fst \<circ> vs) ps)) \<union> set (rv_saved_names s) \<and>
    rv_resolved s' = rv_resolved s @ map (\<lambda>p. (tg p, json_norm (captured_entry L mem p))) ps"
  using assms
proof (induction ps arbitrary: s)
  case (Cons p ps)
  obtain t refs offset n where p: "p = (t, refs, offset, n)" by (cases p)
  have rp: "resolved_placement ts' vs tg p" using Cons.prems(1) by simp
  let ?e = "json_norm (captured_entry L mem p)"
  let ?s = "\<lparr>rv_saved_names = rev (map fst (vs p)) @ rv_saved_names s,
         rv_used_storages = storage_key (tg p) # rv_used_storages s,
         rv_resolved = rv_resolved s @ [(tg p, ?e)]\<rparr>"
  have pe: "captured_entry L mem p = captured_entry L mem (t, map own_reference (vs p), offset, n)"
    using rp p by (simp add: resolved_placement_def)
  have one: "resolve_entry ts' s ?e = Inr ?s"
    unfolding pe using rp Cons.prems(2,3) p
    by (intro resolve_entry_ok) (auto simp: resolved_placement_def)
  have d: "distinct (concat (map (map fst \<circ> vs) ps) @ rv_saved_names ?s)"
    "distinct (map (storage_key \<circ> tg) ps @ rv_used_storages ?s)"
    using Cons.prems(2,3) distinct_rotate [of "map fst (vs p)" "concat (map (map fst \<circ> vs) ps)" "rv_saved_names s"]
      distinct_rotate [of "[storage_key (tg p)]" "map (storage_key \<circ> tg) ps" "rv_used_storages s"]
    unfolding list.map concat.simps comp_apply resolve_state.simps by simp_all
  have "\<exists>s'. fold_res (resolve_entry ts') ?s (map (json_norm \<circ> captured_entry L mem) ps) = Inr s' \<and>
    set (rv_saved_names s') = set (concat (map (map fst \<circ> vs) ps)) \<union> set (rv_saved_names ?s) \<and>
    rv_resolved s' = rv_resolved ?s @ map (\<lambda>p. (tg p, json_norm (captured_entry L mem p))) ps"
    using Cons.prems(1) d by (intro Cons.IH) (simp_all only: list.set insert_iff simp_thms)
  then obtain s' where s': "fold_res (resolve_entry ts') ?s (map (json_norm \<circ> captured_entry L mem) ps) = Inr s'"
    "set (rv_saved_names s') = set (concat (map (map fst \<circ> vs) ps)) \<union> set (rv_saved_names ?s)"
    "rv_resolved s' = rv_resolved ?s @ map (\<lambda>p. (tg p, json_norm (captured_entry L mem p))) ps" by blast
  have "fold_res (resolve_entry ts') s (map (json_norm \<circ> captured_entry L mem) (p # ps)) = Inr s'"
    using one s'(1) by (simp del: fold_res.simps(2) add: fold_res.simps(2) [of _ s])
  then show ?case by (intro exI [of _ s'] conjI, assumption) (use s'(2,3) in auto)
qed simp

lemma distinct_concat_members:
  "distinct ks \<Longrightarrow> distinct (map fst xs) \<Longrightarrow> distinct (concat (map (\<lambda>k. map fst (members xs k)) ks))"
proof (induction ks)
  case (Cons k ks)
  have "fst v \<noteq> fst w" if "v \<in> set (members xs k)" "w \<in> set (members xs l)" "l \<in> set ks" for v w l
  proof
    assume eq: "fst v = fst w"
    have "v \<in> set xs" "w \<in> set xs" "storage_key (snd v) = k" "storage_key (snd w) = l"
      using that by (auto simp: members_def)
    moreover from this eq Cons.prems(2) have "v = w" by (metis distinct_map inj_onD)
    ultimately show False using that(3) Cons.prems(1) by auto
  qed
  moreover have "distinct (map fst (members xs k))"
    using Cons.prems(2) by (simp add: members_def distinct_map_filter)
  ultimately show ?case using Cons by auto
qed simp

text \<open>The tensor of the fresh model that a placement is restored to.\<close>

definition target :: "(string, tensor) dict \<Rightarrow> placement \<Rightarrow> tensor" where
  "target ts' p = the (dict_get ts' (ref_name (hd (fst (snd p)))))"

lemma ref_name_own [simp]: "ref_name (own_reference v) = fst v"
  by (simp add: ref_name_def own_reference_def tensor_reference_def)

lemma same_layout_get:
  "same_layout ts ts' \<Longrightarrow> dict_get ts n = Some t \<Longrightarrow> \<exists>t'. dict_get ts' n = Some t'"
  by (auto simp: same_layout_def dict_key_iff set_eq_iff)

lemma same_layout_nbytes:
  "same_layout ts ts' \<Longrightarrow> dict_get ts n = Some t \<Longrightarrow> dict_get ts' n = Some t' \<Longrightarrow>
   t_storage_nbytes t = t_storage_nbytes t'"
  unfolding same_layout_def by blast

lemma same_layout_member:
  assumes "same_layout ts ts'" "dict_get ts n = Some t" "dict_get ts k = Some u" "storage_key t = storage_key u"
    and "dict_get ts' k = Some u'"
  shows "resolves ts' (storage_key u') (n, t)"
proof -
  obtain t' where t': "dict_get ts' n = Some t'" using same_layout_get [OF assms(1,2)] by blast
  have "own_reference (n, t) = own_reference (n, t')" "storage_key t' = storage_key u'"
    using assms t' unfolding same_layout_def by metis+
  with t' show ?thesis by (auto simp: resolves_def)
qed

lemma placement_resolved:
  assumes ts: "registered_cuda_tensors m = Inr ts" and gs: "storage_groups m = Inr gs"
    and lay: "artifact_layout gs = (q, ps)" and same: "same_layout ts ts'" and p: "p \<in> set ps"
  defines "vs \<equiv> \<lambda>p. members (sort_key fst ts) (storage_key (fst p))"
  shows "resolved_placement ts' vs (target ts') p"
    and "\<exists>n. dict_get ts n = Some (fst p) \<and> dict_get ts' n = Some (target ts' p)"
proof -
  obtain t refs offset n where pe: "p = (t, refs, offset, n)" by (cases p)
  have placed: "placed_from 0 ps q" "map (\<lambda>(t, refs, _). (t, refs)) ps = gs"
    using artifact_layout_placed [OF lay] by simp_all
  have "(\<lambda>(t, refs, _). (t, refs)) p \<in> set gs" unfolding placed(2) [symmetric] set_map using p by (rule imageI)
  then have g: "(t, refs) \<in> set gs" by (simp add: pe)
  have cls: "(t, refs) = group_for (sort_key fst ts) (storage_key t)" "vs p \<noteq> []"
    using storage_groups_classes(3) [OF gs ts g] by (simp_all add: vs_def pe)
  then have first: "t = snd (hd (vs p))" and refs: "refs = map own_reference (vs p)"
    by (simp_all add: group_for_def vs_def pe)
  have mem: "dict_get ts (fst v) = Some (snd v)" "storage_key (snd v) = storage_key t" if "v \<in> set (vs p)" for v
  proof -
    have v: "v \<in> set ts" "storage_key (snd v) = storage_key t"
      using that by (simp_all add: vs_def pe members_def)
    then show "storage_key (snd v) = storage_key t" by simp
    show "dict_get ts (fst v) = Some (snd v)"
      using v(1) registered_cuda_tensors_ok(1) [OF ts]
      by (intro map_of_is_SomeI) (simp_all add: dict_ok_def dict_keys_def)
  qed
  have hd: "dict_get ts (fst (hd (vs p))) = Some t" using mem(1) [of "hd (vs p)"] cls(2) first by simp
  then obtain t' where t': "dict_get ts' (fst (hd (vs p))) = Some t'" using same_layout_get [OF same] by blast
  have "hd refs = own_reference (hd (vs p))" unfolding refs by (rule hd_map [OF cls(2)])
  then have tgt: "target ts' p = t'" using t' by (simp add: target_def pe)
  have "resolves ts' (storage_key t') v" if "v \<in> set (vs p)" for v
    using same_layout_member [OF same mem(1) [OF that] hd mem(2) [OF that] t'] by simp
  moreover have "n = t_storage_nbytes t"
    using layout_nbytes [OF placed(1) p] by (simp add: pe)
  moreover have "t_storage_nbytes t = t_storage_nbytes t'" using same_layout_nbytes [OF same hd t'] .
  ultimately show "resolved_placement ts' vs (target ts') p"
    unfolding resolved_placement_def tgt using cls(2) t' refs [symmetric] by (simp only: pe fst_conv snd_conv) simp
  show "\<exists>n. dict_get ts n = Some (fst p) \<and> dict_get ts' n = Some (target ts' p)"
    unfolding tgt using hd t' pe by (intro exI [of _ "fst (hd (vs p))"]) simp
qed

lemma distinct_map_weaken:
  assumes "distinct (map f ps)" "\<And>p q. p \<in> set ps \<Longrightarrow> q \<in> set ps \<Longrightarrow> g p = g q \<Longrightarrow> f p = f q"
  shows "distinct (map g ps)"
proof -
  have "inj_on g (set ps)"
  proof (rule inj_onI)
    fix p q assume pq: "p \<in> set ps" "q \<in> set ps" "g p = g q"
    then have "f p = f q" by (rule assms(2))
    then show "p = q" using assms(1) pq(1,2) by (metis distinct_map inj_onD)
  qed
  then show ?thesis using assms(1) by (simp add: distinct_map)
qed

lemma placements_distinct:
  assumes "registered_cuda_tensors m = Inr ts" "storage_groups m = Inr gs" "artifact_layout gs = (q, ps)"
  shows "distinct (map (storage_key \<circ> fst) ps)" "storage_key ` fst ` set ps = storage_key ` snd ` set ts"
proof -
  have "map (\<lambda>(t, refs, _). (t, refs)) ps = gs" using artifact_layout_placed [OF assms(3)] by simp
  then have eq: "map (storage_key \<circ> fst) gs = map (storage_key \<circ> fst) ps"
    by (auto simp: comp_def split_def)
  then show "distinct (map (storage_key \<circ> fst) ps)"
    using storage_groups_classes(1) [OF assms(2,1)] by simp
  show "storage_key ` fst ` set ps = storage_key ` snd ` set ts"
    using arg_cong [OF eq, of set] storage_groups_classes(2) [OF assms(2,1)] by (simp add: image_comp)
qed

lemma resolve_storages_ok:
  assumes ts: "registered_cuda_tensors m = Inr ts" and gs: "storage_groups m = Inr gs"
    and lay: "artifact_layout gs = (q, ps)" and same: "same_layout ts ts'"
    and ts': "registered_cuda_tensors m' = Inr ts'"
  shows "resolve_storages m' (JList (map (json_norm \<circ> captured_entry L mem) ps)) =
      Inr (map (\<lambda>p. (target ts' p, json_norm (captured_entry L mem p))) ps)"
    and "distinct (map (storage_key \<circ> target ts') ps)"
proof -
  let ?xs = "sort_key fst ts"
  let ?vs = "\<lambda>p :: placement. members ?xs (storage_key (fst p))"
  note res = placement_resolved [OF ts gs lay same]
  have "distinct (map fst ts)" using registered_cuda_tensors_ok(1) [OF ts] by (simp add: dict_ok_def dict_keys_def)
  then have dx: "distinct (map fst ?xs)" by (metis distinct_sort mset_eq_imp_distinct_iff mset_map mset_sort)
  have keys: "map (map fst \<circ> ?vs) ps = map (\<lambda>k. map fst (members ?xs k)) (map (storage_key \<circ> fst) ps)"
    by simp
  have d1: "distinct (concat (map (map fst \<circ> ?vs) ps))"
    unfolding keys by (rule distinct_concat_members [OF placements_distinct(1) [OF ts gs lay] dx])
  show d2: "distinct (map (storage_key \<circ> target ts') ps)"
  proof (rule distinct_map_weaken [OF placements_distinct(1) [OF ts gs lay]])
    fix p r assume pr: "p \<in> set ps" "r \<in> set ps" "(storage_key \<circ> target ts') p = (storage_key \<circ> target ts') r"
    obtain n k where "dict_get ts n = Some (fst p)" "dict_get ts' n = Some (target ts' p)"
      "dict_get ts k = Some (fst r)" "dict_get ts' k = Some (target ts' r)"
      using res(2) [OF pr(1)] res(2) [OF pr(2)] by blast
    then show "(storage_key \<circ> fst) p = (storage_key \<circ> fst) r"
      using same pr(3) unfolding same_layout_def comp_apply by metis
  qed
  let ?s0 = "\<lparr>rv_saved_names = [], rv_used_storages = [], rv_resolved = []\<rparr>"
  obtain s' where s': "fold_res (resolve_entry ts') ?s0 (map (json_norm \<circ> captured_entry L mem) ps) = Inr s'"
    "set (rv_saved_names s') = set (concat (map (map fst \<circ> ?vs) ps))"
    "rv_resolved s' = map (\<lambda>p. (target ts' p, json_norm (captured_entry L mem p))) ps"
    using resolve_entries_ok [of ps ts' ?vs "target ts'" ?s0 L mem] res(1) d1 d2 by auto
  have "n \<in> set (rv_saved_names s')" if "n \<in> set (dict_keys ts')" for n
  proof -
    have "n \<in> set (dict_keys ts)" using that same by (simp add: same_layout_def)
    then obtain t where t: "dict_get ts n = Some t" unfolding dict_key_iff by blast
    then have "(n, t) \<in> set ts" by (rule map_of_SomeD)
    then have "storage_key t \<in> storage_key ` fst ` set ps"
      using placements_distinct(2) [OF ts gs lay] by (metis image_eqI snd_conv)
    then obtain p where p: "p \<in> set ps" "storage_key t = storage_key (fst p)" by auto
    have "(n, t) \<in> set (?vs p)" using \<open>(n, t) \<in> set ts\<close> p(2) by (simp add: members_def)
    then have "n \<in> set (map fst (?vs p))" by force
    then show ?thesis unfolding s'(2) using p(1) by auto
  qed
  then have "set (dict_keys ts') - set (rv_saved_names s') = {}" by blast
  then show "resolve_storages m' (JList (map (json_norm \<circ> captured_entry L mem) ps)) =
      Inr (map (\<lambda>p. (target ts' p, json_norm (captured_entry L mem p))) ps)"
    using s'(1,3) by (simp add: resolve_storages_def ts' comp_def)
qed

section \<open>Writing the storages back\<close>

lemma restore_storage_ok:
  assumes refs: "\<And>r. r \<in> set refs \<Longrightarrow> json_ok r" and "0 \<le> offset" "0 < stage_size"
    and "n = t_storage_nbytes t" "0 \<le> n" "nat offset + nat n \<le> length blob"
    and "read_at blob (nat offset) (nat n) = storage_bytes mem t"
  shows "restore_storage L stage_size False blob 0 (t', json_norm (captured_entry L mem (t, refs, offset, n))) mem' =
    Some (Inr n, write_mem mem' (device_index t') (t_storage_ptr t') (storage_bytes mem t))"
proof -
  let ?e = "json_norm (captured_entry L mem (t, refs, offset, n))"
  note get = captured_entry_get [of refs, OF refs]
  have ints: "entry_int ?e ''nbytes'' = Inr n" "entry_int ?e ''offset'' = Inr offset"
    by (simp_all add: entry_int_def iffD2 [OF json_item_eq] get)
  have texts: "jget_none ?e ''crc32'' = JStr (hex8 (zlib_crc32 (storage_bytes mem t) 0))"
    "jget_none ?e ''sha256'' = JStr (sha256_hex L (storage_bytes mem t))"
    by (simp_all add: jget_none_def get)
  have "stage_in stage_size False blob (nat offset) (device_index t') (t_storage_ptr t') (nat n)
      \<lparr>ld_memory = mem', ld_digest = [], ld_crc = 0, ld_copied = 0\<rparr> =
    Some (\<lparr>ld_memory = write_mem mem' (device_index t') (t_storage_ptr t') (storage_bytes mem t),
      ld_digest = storage_bytes mem t, ld_crc = zlib_crc32 (storage_bytes mem t) 0, ld_copied = nat n\<rparr>, True)"
    using assms by (subst stage_in_correct) simp_all
  then show ?thesis
    using assms(2) unfolding restore_storage_def prod.case ints texts by simp
qed

definition write_storages :: "device_memory \<Rightarrow> (tensor \<times> byte list) list \<Rightarrow> device_memory" where
  "write_storages mem xs =
     foldl (\<lambda>mm v. write_mem mm (device_index (fst v)) (t_storage_ptr (fst v)) (snd v)) mem xs"

definition write_back ::
  "(placement \<Rightarrow> tensor) \<Rightarrow> device_memory \<Rightarrow> device_memory \<Rightarrow> placement list \<Rightarrow> device_memory" where
  "write_back tg mem mem' ps = write_storages mem' (map (\<lambda>p. (tg p, storage_bytes mem (fst p))) ps)"

text \<open>A placement whose bytes are in the blob.\<close>

definition in_blob :: "device_memory \<Rightarrow> byte list \<Rightarrow> placement \<Rightarrow> bool" where
  "in_blob mem blob p \<longleftrightarrow>
     (case p of (t, refs, offset, n) \<Rightarrow>
        (\<forall>r \<in> set refs. json_ok r) \<and> 0 \<le> offset \<and> n = t_storage_nbytes t \<and> 0 \<le> n \<and>
        nat offset + nat n \<le> length blob \<and> read_at blob (nat offset) (nat n) = storage_bytes mem t)"

lemma restore_storages_ok:
  assumes "\<And>p. p \<in> set ps \<Longrightarrow> in_blob mem blob p" and "0 < stage_size"
  shows "restore_storages L stage_size False blob 0
      (map (\<lambda>p. (tg p, json_norm (captured_entry L mem p))) ps) mem' restored =
    Some (Inr (restored + sum_list (map (\<lambda>p. t_storage_nbytes (fst p)) ps)), write_back tg mem mem' ps)"
  using assms(1)
proof (induction ps arbitrary: mem' restored)
  case (Cons p ps)
  obtain t refs offset n where p: "p = (t, refs, offset, n)" by (cases p)
  have one: "restore_storage L stage_size False blob 0 (tg p, json_norm (captured_entry L mem p)) mem' =
      Some (Inr n, write_mem mem' (device_index (tg p)) (t_storage_ptr (tg p)) (storage_bytes mem t))"
    unfolding p using Cons.prems [of p] p assms(2) by (intro restore_storage_ok) (auto simp: in_blob_def)
  have n: "n = t_storage_nbytes t" using Cons.prems [of p] p by (simp add: in_blob_def)
  have "restore_storages L stage_size False blob 0 (map (\<lambda>p. (tg p, json_norm (captured_entry L mem p))) ps)
      mm (restored + n) =
    Some (Inr (restored + n + sum_list (map (\<lambda>p. t_storage_nbytes (fst p)) ps)), write_back tg mem mm ps)" for mm
    using Cons.prems by (intro Cons.IH) simp
  moreover have "fst p = t" by (simp add: p)
  ultimately show ?case using n by (simp add: one write_back_def write_storages_def add.assoc)
qed (simp add: write_back_def write_storages_def)

definition storage_range :: "tensor \<Rightarrow> int \<times> int \<times> nat" where
  "storage_range t = (device_index t, t_storage_ptr t, nat (t_storage_nbytes t))"

lemma write_storages_read:
  assumes "(t, bs) \<in> set xs" "\<And>u cs. (u, cs) \<in> set xs \<Longrightarrow> length cs = nat (t_storage_nbytes u)"
    and "\<And>u cs. (u, cs) \<in> set xs \<Longrightarrow> (u, cs) \<noteq> (t, bs) \<Longrightarrow> ranges_disjoint (storage_range t) (storage_range u)"
  shows "storage_bytes (write_storages mem xs) t = bs"
  using assms
proof (induction xs rule: rev_induct)
  case (snoc x xs)
  obtain u cs where x: "x = (u, cs)" by (cases x)
  let ?mm = "write_storages mem xs"
  have ws: "write_storages mem (xs @ [x]) = write_mem ?mm (device_index u) (t_storage_ptr u) cs"
    by (simp add: write_storages_def x)
  have len: "length cs = nat (t_storage_nbytes u)" using snoc.prems(2) [of u cs] x by simp
  show ?case
  proof (cases "x = (t, bs)")
    case True
    then have u: "u = t" "cs = bs" using x by simp_all
    show ?thesis
      unfolding ws u storage_bytes_def len [unfolded u, symmetric] by (rule read_write_same)
  next
    case False
    then have "(t, bs) \<in> set xs" using snoc.prems(1) by simp
    have d: "ranges_disjoint (device_index t, t_storage_ptr t, nat (t_storage_nbytes t))
        (device_index u, t_storage_ptr u, length cs)"
      using snoc.prems(3) [of u cs] False x len by (simp add: storage_range_def)
    have "storage_bytes (write_storages mem (xs @ [x])) t = storage_bytes ?mm t"
      unfolding ws storage_bytes_def [of _ t] by (rule read_write_disjoint [OF d])
    also have "\<dots> = bs" using snoc.prems \<open>(t, bs) \<in> set xs\<close> by (intro snoc.IH) auto
    finally show ?thesis .
  qed
qed simp

lemma write_storages_frame:
  assumes "\<And>u cs. (u, cs) \<in> set xs \<Longrightarrow>
      \<not> (device_index u = d \<and> t_storage_ptr u \<le> a \<and> a < t_storage_ptr u + int (length cs))"
  shows "write_storages mem xs d a = mem d a"
  using assms
  by (induction xs rule: rev_induct) (auto simp: write_storages_def write_mem_def)

lemma write_back_read:
  assumes "p \<in> set ps" "\<And>p. p \<in> set ps \<Longrightarrow> t_storage_nbytes (tg p) = t_storage_nbytes (fst p)"
    and "\<And>r. r \<in> set ps \<Longrightarrow> r \<noteq> p \<Longrightarrow> ranges_disjoint (storage_range (tg p)) (storage_range (tg r))"
  shows "storage_bytes (write_back tg mem mem' ps) (tg p) = storage_bytes mem (fst p)"
  unfolding write_back_def
proof (rule write_storages_read)
  show "(tg p, storage_bytes mem (fst p)) \<in> set (map (\<lambda>p. (tg p, storage_bytes mem (fst p))) ps)"
    using assms(1) by simp
  fix u cs assume "(u, cs) \<in> set (map (\<lambda>p. (tg p, storage_bytes mem (fst p))) ps)"
  then obtain r where r: "r \<in> set ps" "u = tg r" "cs = storage_bytes mem (fst r)" by auto
  then show "length cs = nat (t_storage_nbytes u)" using assms(2) by simp
  show "ranges_disjoint (storage_range (tg p)) (storage_range u)" if "(u, cs) \<noteq> (tg p, storage_bytes mem (fst p))"
    using that r assms(3) by blast
qed

section \<open>The published files\<close>

definition run_ops :: "file_stat \<Rightarrow> file_system \<Rightarrow> fs_op list \<Rightarrow> file_system" where
  "run_ops s fs ops = foldl (apply_op s) fs ops"

definition data_node :: "file_stat \<Rightarrow> byte list \<Rightarrow> file_node" where
  "data_node s d = \<lparr>fn_stat = s\<lparr>st_size := int (length d)\<rparr>, fn_regular = True, fn_data = d\<rparr>"

definition manifest_data :: "pylib \<Rightarrow> json \<Rightarrow> byte list" where
  "manifest_data L manifest = artifact_json L manifest @ [0x0A]"

lemma artifact_paths_distinct:
  assumes "A = artifact_init L resolved base lock_root"
  shows "distinct [temporary_blob W A, temporary_manifest W A, ar_blob_path A, ar_manifest_path A]"
  unfolding assms by (simp add: artifact_init_def temporary_blob_def temporary_manifest_def)

lemma run_capture_ops:
  assumes "A = artifact_init L' resolved base lock_root"
    and fs': "fs' = run_ops s fs (capture_ops L W A identity blob q entries)"
  shows "fs' (ar_blob_path A) = Some (data_node s blob)"
    and "fs' (ar_manifest_path A) = Some (data_node s (manifest_data L
      (artifact_manifest L identity ''weights.blob'' q (sha256_hex L blob) entries)))"
    and "fs' (temporary_blob W A) = None" "fs' (temporary_manifest W A) = None"
    and "p \<notin> {temporary_blob W A, temporary_manifest W A, ar_blob_path A, ar_manifest_path A} \<Longrightarrow> fs' p = fs p"
  using artifact_paths_distinct [OF assms(1), of W]
  by (auto simp: fs' run_ops_def capture_ops_def data_node_def manifest_data_def)

lemma captured_entry_float_free:
  "(\<And>r. r \<in> set refs \<Longrightarrow> float_free r) \<Longrightarrow> float_free (captured_entry L mem (t, refs, offset, n))"
  by (simp add: captured_entry_def storage_entry_def)

lemma read_manifest_data:
  assumes "json_ok v" "float_free v" "fs path = Some n" "fn_data n = manifest_data L v"
  shows "read_manifest L fs path = Inr (json_norm v)"
proof -
  have "manifest_data L v = ascii_bytes (json_text L v @ [CHR 0x0A])"
    by (simp add: manifest_data_def artifact_json_def ascii_bytes_def)
  moreover have "list_all (\<lambda>c. code c < 128) (json_text L v @ [CHR 0x0A])"
    using json_text_ascii [OF assms(2), of L] by simp
  ultimately have "utf8_decode (fn_data n) = Inr (json_text L v @ [CHR 0x0A])"
    using utf8_decode_ascii assms(4) by metis
  moreover have "json_loads L (json_text L v @ [CHR 0x0A]) = Inr (json_norm v)"
    using float_free_readable [OF assms(2)] by (intro json_loads_text_ws assms(1)) (simp_all add: is_json_ws_def)
  ultimately show ?thesis using assms(3) by (simp add: read_manifest_def)
qed

definition manifest_ready :: "json \<Rightarrow> json list \<Rightarrow> bool" where
  "manifest_ready identity entries \<longleftrightarrow>
     is_obj identity \<and> json_ok identity \<and> float_free identity \<and>
     (\<forall>e \<in> set entries. json_ok e \<and> float_free e)"

lemma load_manifest_data:
  assumes ready: "manifest_ready identity entries"
    and mf: "fs (ar_manifest_path A) = Some n" "fn_data n = manifest_data L manifest"
    and bf: "fs (ar_blob_path A) = Some b" "st_size (fn_stat b) = q"
    and manifest: "manifest = artifact_manifest L identity ''weights.blob'' q sha entries"
  shows "load_manifest L fs A (Some identity) None 0 = Inr (json_norm manifest)"
    and "jget (json_norm manifest) ''storages'' = Some (JList (map json_norm entries))"
proof -
  have ok: "json_ok manifest" "float_free manifest"
    using ready by (auto simp: manifest manifest_ready_def artifact_manifest_def dict_ok_def dict_keys_def)
  note get = jget_norm_json [OF ok(1)]
  have obj: "is_obj (json_norm manifest)" by (simp add: manifest artifact_manifest_def)
  have fields: "jget (json_norm manifest) ''format'' = Some (JInt 1)"
    "jget (json_norm manifest) ''kind'' = Some (JStr ARTIFACT_KIND)"
    "jget (json_norm manifest) ''identity'' = Some (json_norm identity)"
    "jget (json_norm manifest) ''blob_bytes'' = Some (JInt q)"
    unfolding get by (simp_all add: manifest artifact_manifest_def)
  show "jget (json_norm manifest) ''storages'' = Some (JList (map json_norm entries))"
    unfolding get by (simp add: manifest artifact_manifest_def)
  have same: "identity_mismatches identity (json_norm identity) ''identity'' = []"
    using ready py_eq_norm [of identity "json_norm identity"] float_free_readable [of identity]
    by (subst identity_mismatches_iff) (simp_all add: manifest_ready_def)
  have read: "read_manifest L fs (ar_manifest_path A) = Inr (json_norm manifest)"
    using ok mf by (intro read_manifest_data) simp_all
  show "load_manifest L fs A (Some identity) None 0 = Inr (json_norm manifest)"
    unfolding load_manifest_def read bind_res_Inr json_get_obj [OF obj]
    using fields same bf json_get_int_obj [OF obj fields(4)] by (simp add: jget_none_def Let_def)
qed

section \<open>Round trip\<close>

text \<open>When a restore through the staged copy can run, and the storages of a model do not overlap.\<close>

definition python_restore :: "pylib \<Rightarrow> artifact_world \<Rightarrow> bool" where
  "python_restore L W \<longleftrightarrow>
     hydrator_from_env L (aw_installed W) (aw_environ W) = Inr None \<and>
     aw_storage_after W = (\<lambda>t. (t_storage_ptr t, t_storage_nbytes t))"

definition storages_disjoint :: "(string, tensor) dict \<Rightarrow> bool" where
  "storages_disjoint ts \<longleftrightarrow>
     (\<forall>t \<in> snd ` set ts. \<forall>u \<in> snd ` set ts.
        storage_key t = storage_key u \<or> ranges_disjoint (storage_range t) (storage_range u))"

lemma storage_bytes_key: "storage_key t = storage_key u \<Longrightarrow> storage_bytes mem t = storage_bytes mem u"
  by (simp add: storage_key_def storage_bytes_def)

lemma placements_in_blob:
  assumes "registered_cuda_tensors m = Inr ts" "storage_groups m = Inr gs" "artifact_layout gs = (q, ps)"
    and "storages_ok ps" "p \<in> set ps"
  shows "in_blob mem (blob_bytes mem 0 ps) p" "json_ok (captured_entry L mem p)" "float_free (captured_entry L mem p)"
proof -
  obtain t refs offset n where p: "p = (t, refs, offset, n)" by (cases p)
  have placed: "placed_from 0 ps q" "map (\<lambda>(t, refs, _). (t, refs)) ps = gs"
    using artifact_layout_placed [OF assms(3)] by simp_all
  have "(\<lambda>(t, refs, _). (t, refs)) p \<in> set gs" unfolding placed(2) [symmetric] set_map using assms(5) by (rule imageI)
  then have g: "(t, refs) \<in> set gs" by (simp add: p)
  have "(t, refs) = group_for (sort_key fst ts) (storage_key t)"
    using storage_groups_classes(3) [OF assms(2,1) g] by simp
  then have refs: "\<And>r. r \<in> set refs \<Longrightarrow> \<exists>v. r = own_reference v" by (auto simp: group_for_def)
  then have ok: "\<And>r. r \<in> set refs \<Longrightarrow> json_ok r" by (metis own_reference_ok(1))
  have ff: "float_free r" if "r \<in> set refs" for r
    using refs [OF that] by (auto simp: own_reference_def tensor_reference_def)
  have "0 \<le> offset \<and> offset + n \<le> q \<and> n = t_storage_nbytes t \<and>
      read_at (blob_bytes mem 0 ps) (nat offset) (nat n) = storage_bytes mem t"
    using blob_bytes_read [OF placed(1) assms(4) order_refl assms(5) [unfolded p], of mem] unfolding diff_zero .
  moreover have "0 < n" using assms(4,5) p layout_nbytes [OF placed(1) assms(5)] by (auto simp: storages_ok_def)
  ultimately show "in_blob mem (blob_bytes mem 0 ps) p"
    using length_blob_bytes [OF placed(1) assms(4), of mem] ok by (auto simp: in_blob_def p)
  show "json_ok (captured_entry L mem p)" unfolding p by (rule captured_entry_ok [OF ok])
  show "float_free (captured_entry L mem p)" unfolding p by (rule captured_entry_float_free [OF ff])
qed

lemma restore_admitted_ok:
  assumes ts: "registered_cuda_tensors m = Inr ts" and gs: "storage_groups m = Inr gs"
    and lay: "artifact_layout gs = (q, ps)" and ok: "storages_ok ps" "ps \<noteq> []"
    and same: "same_layout ts ts'" and ts': "registered_cuda_tensors m' = Inr ts'"
    and py: "python_restore L W" and chunk: "0 < chunk_bytes"
    and storages: "jget manifest ''storages'' = Some (JList (map (json_norm \<circ> captured_entry L mem) ps))"
    and blob: "fs blob = Some b" "fn_data b = blob_bytes mem 0 ps"
  shows "restore_admitted L W fs m' manifest blob chunk_bytes queue_depth False 0 mem' =
    Some (Inr \<lparr>am_operation = ''restore'', am_backend = ''python'',
               am_bytes = sum_list (map (\<lambda>p. t_storage_nbytes (fst p)) ps), am_storages = length ps\<rparr>,
      write_back (target ts') mem mem' ps)"
proof -
  let ?resolved = "map (\<lambda>p. (target ts' p, json_norm (captured_entry L mem p))) ps"
  note inb = placements_in_blob [OF ts gs lay ok(1)]
  have sizes: "traverse (\<lambda>v. entry_int (snd v) ''nbytes'') ?resolved = Inr (map (\<lambda>p. t_storage_nbytes (fst p)) ps)"
  proof -
    have "entry_int (json_norm (captured_entry L mem p)) ''nbytes'' = Inr (t_storage_nbytes (fst p))"
      if "p \<in> set ps" for p
    proof -
      obtain t refs offset n where p: "p = (t, refs, offset, n)" by (cases p)
      have "\<And>r. r \<in> set refs \<Longrightarrow> json_ok r" "n = t_storage_nbytes t"
        using inb(1) [OF that, of mem] by (auto simp: in_blob_def p)
      then show ?thesis
        unfolding p by (simp add: entry_int_def iffD2 [OF json_item_eq] captured_entry_get(3))
    qed
    then show ?thesis unfolding traverse_eq_Inr by (simp add: list_all2_map1 list_all2_map2 list_all2_same)
  qed
  let ?M = "Max (set (map (\<lambda>p. t_storage_nbytes (fst p)) ps))"
  have "t_storage_nbytes (fst (hd ps)) \<le> ?M" using ok(2) by (intro Max_ge) auto
  moreover have "0 < t_storage_nbytes (fst (hd ps))" using ok by (simp add: storages_ok_def)
  ultimately have stage: "0 < nat (min chunk_bytes ?M)" using chunk by simp
  have "restore_python L fs blob chunk_bytes False 0 ?resolved mem' =
      Some (Inr (''python'', sum_list (map (\<lambda>p. t_storage_nbytes (fst p)) ps)), write_back (target ts') mem mem' ps)"
    unfolding restore_python_def sizes
    using restore_storages_ok [where L = L and tg = "target ts'" and mem' = mem' and restored = 0, OF inb(1) stage] blob
    by simp
  moreover have item: "json_item manifest ''storages'' = Inr (JList (map (json_norm \<circ> captured_entry L mem) ps))"
    using storages by (simp only: json_item_eq)
  moreover have "map (aw_storage_after W \<circ> fst) ?resolved =
      map (\<lambda>v. (t_storage_ptr (fst v), t_storage_nbytes (fst v))) ?resolved"
    using py by (simp add: python_restore_def comp_def)
  ultimately show ?thesis
    unfolding restore_admitted_def item bind_res_Inr resolve_storages_ok(1) [OF ts gs lay same ts']
    using py by (simp add: python_restore_def del: map_map)
qed

lemma restored_bytes:
  assumes ts: "registered_cuda_tensors m = Inr ts" and gs: "storage_groups m = Inr gs"
    and lay: "artifact_layout gs = (q, ps)" and same: "same_layout ts ts'"
    and ts': "registered_cuda_tensors m' = Inr ts'" and disj: "storages_disjoint ts'"
    and t: "dict_get ts n = Some t" "dict_get ts' n = Some t'"
  shows "storage_bytes (write_back (target ts') mem mem' ps) t' = storage_bytes mem t"
proof -
  note res = placement_resolved(2) [OF ts gs lay same]
  have reg: "target ts' p \<in> snd ` set ts'" if "p \<in> set ps" for p
    using res [OF that] map_of_SomeD by force
  have "storage_key t \<in> storage_key ` fst ` set ps"
    using placements_distinct(2) [OF ts gs lay] map_of_SomeD [OF t(1)] by force
  then obtain p where p: "p \<in> set ps" "storage_key t = storage_key (fst p)" by auto
  obtain k where k: "dict_get ts k = Some (fst p)" "dict_get ts' k = Some (target ts' p)"
    using res [OF p(1)] by blast
  have "storage_key t' = storage_key (target ts' p)"
    using same t k p(2) unfolding same_layout_def by metis
  then have "storage_bytes (write_back (target ts') mem mem' ps) t' =
      storage_bytes (write_back (target ts') mem mem' ps) (target ts' p)" by (rule storage_bytes_key)
  also have "\<dots> = storage_bytes mem (fst p)"
  proof (rule write_back_read [OF p(1)])
    show "t_storage_nbytes (target ts' r) = t_storage_nbytes (fst r)" if "r \<in> set ps" for r
      using res [OF that] same_layout_nbytes [OF same] by metis
    fix r assume r: "r \<in> set ps" "r \<noteq> p"
    have "storage_key (target ts' p) \<noteq> storage_key (target ts' r)"
      using resolve_storages_ok(2) [OF ts gs lay same ts'] r p(1) by (auto simp: distinct_map inj_on_def)
    then show "ranges_disjoint (storage_range (target ts' p)) (storage_range (target ts' r))"
      using disj reg [OF p(1)] reg [OF r(1)] unfolding storages_disjoint_def by blast
  qed
  also have "\<dots> = storage_bytes mem t" by (rule storage_bytes_key [OF p(2) [symmetric]])
  finally show ?thesis .
qed

lemma restore_after_capture:
  fixes chunk_bytes depth :: int
  assumes A: "A = artifact_init L resolved base lock_root"
    and cap: "can_capture L W fs A m identity replace" "0 < chunk_bytes" "1 \<le> depth" "depth \<le> 64"
    and ident: "is_obj identity" "json_ok identity" "float_free identity"
    and ts: "registered_cuda_tensors m = Inr ts" and gs: "storage_groups m = Inr gs"
    and lay: "artifact_layout gs = (q, ps)"
    and ts': "registered_cuda_tensors m' = Inr ts'" and same: "same_layout ts ts'"
    and py: "python_restore L W'" and chunk': "0 < chunk'" "chunk' mod 4096 = 0"
    and fs': "fs' = run_ops (aw_new_stat W) fs (capture_ops L W A identity (blob_bytes mem 0 ps) q
      (map (captured_entry L mem) ps))"
  shows "artifact_restore L W' fs' A m' mem' identity chunk' depth' False marker None 0 =
    Some (Inr \<lparr>am_operation = ''restore'', am_backend = ''python'',
      am_bytes = sum_list (map (\<lambda>p. t_storage_nbytes (fst p)) ps), am_storages = length ps\<rparr>,
      write_back (target ts') mem mem' ps, fs')"
proof -
  note capture = artifact_capture_eq [OF cap(1) gs lay cap(2-4)]
  note placed = artifact_layout_placed [OF lay]
  let ?blob = "blob_bytes mem 0 ps" and ?entries = "map (captured_entry L mem) ps"
  let ?manifest = "artifact_manifest L identity ''weights.blob'' q (sha256_hex L ?blob) ?entries"
  have files: "fs' (ar_blob_path A) = Some (data_node (aw_new_stat W) ?blob)"
    "fs' (ar_manifest_path A) = Some (data_node (aw_new_stat W) (manifest_data L ?manifest))"
    by (rule run_capture_ops [OF A fs'])+
  note inb = placements_in_blob [OF ts gs lay capture(2)]
  have ready: "manifest_ready identity ?entries" using ident inb(2,3) by (auto simp: manifest_ready_def)
  have "int (length ?blob) = q"
    using length_blob_bytes [OF placed(1) capture(2), of mem] placed_from_mono [OF placed(1) capture(2)] by simp
  then have q: "st_size (fn_stat (data_node (aw_new_stat W) ?blob)) = q" by (simp add: data_node_def)
  note load = load_manifest_data [where fs = fs' and A = A and b = "data_node (aw_new_stat W) ?blob"
      and n = "data_node (aw_new_stat W) (manifest_data L ?manifest)", OF ready files(2) _ files(1) q refl]
  show ?thesis
    using load(1) chunk' restore_admitted_ok [where fs = fs' and mem' = mem' and queue_depth = depth' and
        manifest = "json_norm ?manifest" and blob = "ar_blob_path A" and b = "data_node (aw_new_stat W) ?blob",
        OF ts gs lay capture(2,3) same ts' py chunk'(1)] load(2) files(1)
    by (simp add: artifact_restore_def data_node_def ALIGNMENT_def)
qed

text \<open>
  C1: what one process captures, another restores byte for byte. If a capture through the
  staged copy can run, it succeeds, and a restore of the published files into a fresh model of
  the same layout, at any other addresses and with any earlier memory content, succeeds, reports the same number of
  bytes and storages, and leaves in every registered tensor's storage exactly the bytes the
  captured model had.
\<close>

theorem capture_restore_roundtrip:
  assumes A: "A = artifact_init L resolved base lock_root"
    and cap: "can_capture L W fs A m identity replace" "0 < chunk_bytes" "1 \<le> depth" "depth \<le> 64"
    and ident: "is_obj identity" "json_ok identity" "float_free identity"
    and ts: "registered_cuda_tensors m = Inr ts" and ts': "registered_cuda_tensors m' = Inr ts'"
    and same: "same_layout ts ts'" and disj: "storages_disjoint ts'"
    and py: "python_restore L W'" and chunk': "0 < chunk'" "chunk' mod 4096 = 0"
  shows "\<exists>c ops r mem2.
    artifact_capture L W fs A m mem identity chunk_bytes depth replace = Some (Inr c, ops) \<and>
    (let fs' = run_ops (aw_new_stat W) fs ops in
     artifact_restore L W' fs' A m' mem' identity chunk' depth' False marker None 0 = Some (Inr r, mem2, fs')) \<and>
    am_bytes r = am_bytes c \<and> am_storages r = am_storages c \<and>
    (\<forall>n t t'. dict_get ts n = Some t \<longrightarrow> dict_get ts' n = Some t' \<longrightarrow>
       storage_bytes mem2 t' = storage_bytes mem t)"
proof -
  obtain gs where gs: "storage_groups m = Inr gs" using storage_groups_total [OF ts] by blast
  obtain q ps where lay: "artifact_layout gs = (q, ps)" by (cases "artifact_layout gs")
  note capture = artifact_capture_eq [OF cap(1) gs lay cap(2-4)]
  note restore = restore_after_capture [OF A cap ident ts gs lay ts' same py chunk' refl]
  show ?thesis
    by (intro exI conjI, rule capture(1), unfold Let_def, rule restore, simp, simp)
      (use restored_bytes [OF ts gs lay same ts' disj] in blast)
qed

section \<open>A concrete round trip\<close>

definition demo_tensor :: "int \<Rightarrow> tensor" where
  "demo_tensor p =
     \<lparr>t_dtype = ''torch.uint8'', t_shape = [2], t_stride = [1], t_data_ptr = p, t_numel = 2,
      t_element_size = 1, t_device_type = ''cuda'', t_device_index = Some 0, t_storage_ptr = p,
      t_storage_nbytes = 2\<rparr>"

definition demo_model :: "int \<Rightarrow> nn_model" where
  "demo_model p = \<lparr>nm_modules = None, nm_parameters = [(''w'', demo_tensor p)], nm_buffers = []\<rparr>"

definition demo_world :: artifact_world where
  "demo_world =
     \<lparr>aw_environ = (\<lambda>_. None), aw_installed = (\<lambda>_. None), aw_hydrated_memory = (\<lambda>_ _ _ mem. mem),
      aw_captured_file = (\<lambda>_ _ _. None), aw_new_stat = demo_stat 0, aw_str = (\<lambda>_. []), aw_pid = 7,
      aw_validation = demo_env (\<lambda>fs. fs), aw_cli = (\<lambda>_ _ _ _. Inr JNull), aw_rpc = (\<lambda>_ _ _ _. Inr JNull),
      aw_storage_after = (\<lambda>t. (t_storage_ptr t, t_storage_nbytes t))\<rparr>"

definition demo_artifact :: artifact where
  "demo_artifact = artifact_init plain_lib ''/a'' ''/a'' None"

definition demo_identity :: json where
  "demo_identity = JObj [(''model'', JStr ''m'')]"

definition demo_memory :: device_memory where
  "demo_memory = (\<lambda>d a. word_of_int (a + 1))"

lemma demo_registered: "registered_cuda_tensors (demo_model p) = Inr [(''parameter:w'', demo_tensor p)]"
  by (simp add: registered_cuda_tensors_def demo_model_def register_tensor_def demo_tensor_def dict_keys_def)

lemma demo_can_capture: "can_capture plain_lib demo_world (\<lambda>_. None) demo_artifact (demo_model p) demo_identity False"
  unfolding can_capture_def demo_registered
  by (simp add: load_manifest_def read_manifest_def capture_from_env_def demo_world_def demo_tensor_def)

lemma demo_python_restore: "python_restore plain_lib demo_world"
  by (simp add: python_restore_def demo_world_def hydrator_from_env_def)

lemma demo_same_layout:
  "same_layout [(''parameter:w'', demo_tensor p)] [(''parameter:w'', demo_tensor q)]"
  by (auto simp: same_layout_def dict_keys_def own_reference_def tensor_reference_def demo_tensor_def storage_key_def
      split: if_splits)

lemma demo_disjoint: "storages_disjoint [(''parameter:w'', demo_tensor p)]"
  by (simp add: storages_disjoint_def)

lemma demo_identity_ok: "is_obj demo_identity" "json_ok demo_identity" "float_free demo_identity"
  by (simp_all add: demo_identity_def dict_ok_def dict_keys_def)

theorem capture_restore_roundtrip_witness:
  "\<exists>c ops r mem2.
    artifact_capture plain_lib demo_world (\<lambda>_. None) demo_artifact (demo_model 4096) demo_memory demo_identity
      1 1 False = Some (Inr c, ops) \<and>
    (let fs' = run_ops (aw_new_stat demo_world) (\<lambda>_. None) ops in
     artifact_restore plain_lib demo_world fs' demo_artifact (demo_model 9000) (\<lambda>_ _. 0) demo_identity
       4096 4 False None None 0 = Some (Inr r, mem2, fs')) \<and>
    storage_bytes mem2 (demo_tensor 9000) = [1, 2]"
proof -
  have bytes: "storage_bytes demo_memory (demo_tensor 4096) = [1, 2]"
    by (simp add: storage_bytes_def read_mem_def demo_memory_def demo_tensor_def device_index_def upt_rec)
  let ?ts = "\<lambda>p. [(''parameter:w'', demo_tensor p)]"
  obtain c ops r mem2 where run:
    "artifact_capture plain_lib demo_world (\<lambda>_. None) demo_artifact (demo_model 4096) demo_memory demo_identity
      1 1 False = Some (Inr c, ops)"
    "let fs' = run_ops (aw_new_stat demo_world) (\<lambda>_. None) ops in
     artifact_restore plain_lib demo_world fs' demo_artifact (demo_model 9000) (\<lambda>_ _. 0) demo_identity
       4096 4 False None None 0 = Some (Inr r, mem2, fs')"
    and same: "\<forall>n t t'. dict_get (?ts 4096) n = Some t \<longrightarrow> dict_get (?ts 9000) n = Some t' \<longrightarrow>
       storage_bytes mem2 t' = storage_bytes demo_memory t"
    using capture_restore_roundtrip [OF demo_artifact_def demo_can_capture _ _ _ demo_identity_ok
        demo_registered demo_registered demo_same_layout demo_disjoint demo_python_restore,
        of 1 1 4096 4096 demo_memory 9000 "\<lambda>_ _. 0" 4 None] by auto
  have "storage_bytes mem2 (demo_tensor 9000) = storage_bytes demo_memory (demo_tensor 4096)"
    using same by (elim allE [of _ "''parameter:w''"]) simp
  with run bytes show ?thesis by auto
qed

end
