(* ===== verification/Cold_Integrity.thy ===== *)
theory Cold_Integrity
  imports Cold_Roundtrip
begin

text \<open>
  What restore and capture of \<open>Cold_Artifact\<close> guarantee on any input, not only on files that a
  capture wrote: a successful restore leaves bytes with the digests of the manifest in every
  registered storage, no restore touches other memory, and a capture that stops half-way never
  changes the published manifest without the blob.
\<close>

section \<open>The staged read on arbitrary files\<close>

lemma stage_in_writes:
  assumes "0 < stage_size" "ld_copied s \<le> remaining"
  shows "\<exists>s' c bs. stage_in stage_size pre blob pos dev ptr remaining s = Some (s', c) \<and>
    ld_memory s' = write_mem (ld_memory s) dev (ptr + int (ld_copied s)) bs \<and>
    length bs \<le> remaining - ld_copied s"
  using assms(2)
proof (induction "remaining - ld_copied s" arbitrary: s rule: less_induct)
  case less
  define n where "n = min stage_size (remaining - ld_copied s)"
  define view where "view = read_at blob (pos + ld_copied s) n"
  show ?case
  proof (cases "ld_copied s < remaining \<and> length view = n")
    case False
    then have "\<exists>c. stage_in stage_size pre blob pos dev ptr remaining s = Some (s, c)"
      by (subst stage_in.simps) (auto simp: n_def view_def Let_def)
    then show ?thesis by (metis le0 list.size(3) write_mem_Nil)
  next
    case True
    define s' where "s' = s\<lparr>ld_memory := write_mem (ld_memory s) dev (ptr + int (ld_copied s)) view,
        ld_digest := (if pre then ld_digest s else ld_digest s @ view),
        ld_crc := (if pre then ld_crc s else zlib_crc32 view (ld_crc s)), ld_copied := ld_copied s + n\<rparr>"
    have n: "0 < n" "ld_copied s + n \<le> remaining" using True assms(1) by (auto simp: n_def)
    have step: "stage_in stage_size pre blob pos dev ptr remaining s =
        stage_in stage_size pre blob pos dev ptr remaining s'"
      using True by (subst stage_in.simps) (simp add: s'_def n_def view_def Let_def)
    obtain t c bs where IH: "stage_in stage_size pre blob pos dev ptr remaining s' = Some (t, c)"
      "ld_memory t = write_mem (ld_memory s') dev (ptr + int (ld_copied s')) bs"
      "length bs \<le> remaining - ld_copied s'"
    proof -
      have "remaining - ld_copied s' < remaining - ld_copied s" "ld_copied s' \<le> remaining"
        using n by (simp_all add: s'_def)
      then show ?thesis using that less.hyps [of s'] by blast
    qed
    have "ld_memory t = write_mem (ld_memory s) dev (ptr + int (ld_copied s)) (view @ bs)"
      using IH(2) write_write_adjacent [of "ld_memory s" dev "ptr + int (ld_copied s)" view bs] True
      by (simp add: s'_def add.assoc)
    moreover have "length (view @ bs) \<le> remaining - ld_copied s"
      using IH(3) n True by (simp add: s'_def)
    ultimately show ?thesis using step IH(1) by metis
  qed
qed

lemma stage_in_complete:
  assumes "0 < stage_size \<or> remaining = 0"
    and "stage_in stage_size False blob pos dev ptr remaining
      \<lparr>ld_memory = mem, ld_digest = [], ld_crc = 0, ld_copied = 0\<rparr> = Some (s, True)"
  shows "\<exists>bs. length bs = remaining \<and> ld_memory s = write_mem mem dev ptr bs \<and>
    ld_digest s = bs \<and> ld_crc s = zlib_crc32 bs 0"
proof (cases "remaining = 0")
  case True
  then show ?thesis using assms(2) by (subst (asm) stage_in.simps) auto
next
  case False
  let ?s = "\<lparr>ld_memory = mem, ld_digest = [], ld_crc = 0, ld_copied = 0\<rparr>"
  have stage: "0 < stage_size" using assms(1) False by simp
  have "pos + remaining \<le> length blob"
    using stage_in_short [OF stage, of ?s remaining blob pos False dev ptr] assms(2) False by fastforce
  then show ?thesis
    using stage_in_correct [OF stage, of ?s remaining pos blob False dev ptr] assms(2)
    by (intro exI [of _ "read_at blob pos remaining"]) (auto simp: read_at_def)
qed

section \<open>Restore on arbitrary manifests\<close>

text \<open>An entry records the digests of some bytes.\<close>

definition digests_match :: "pylib \<Rightarrow> json \<Rightarrow> byte list \<Rightarrow> bool" where
  "digests_match L entry bs \<longleftrightarrow>
     jget entry ''crc32'' = Some (JStr (hex8 (zlib_crc32 bs 0))) \<and>
     jget entry ''sha256'' = Some (JStr (sha256_hex L bs))"

lemma jget_none_text: "py_eq (jget_none v k) (JStr s) \<longleftrightarrow> jget v k = Some (JStr s)"
  by (auto simp: py_eq_JStr jget_none_def split: option.splits)

lemma restore_storage_sound:
  assumes "restore_storage L stage_size False blob off (t, e) mem = Some (Inr n, mem')"
    and "\<And>k. entry_int e ''nbytes'' = Inr k \<Longrightarrow> 0 < stage_size \<or> k \<le> 0"
  shows "entry_int e ''nbytes'' = Inr n \<and>
    (\<exists>bs. length bs = nat n \<and> mem' = write_mem mem (device_index t) (t_storage_ptr t) bs \<and> digests_match L e bs)"
proof -
  obtain off' where n: "entry_int e ''nbytes'' = Inr n" and off: "entry_int e ''offset'' = Inr off'"
    and s: "\<exists>s. stage_in stage_size False blob (nat (off + off')) (device_index t) (t_storage_ptr t) (nat n)
      \<lparr>ld_memory = mem, ld_digest = [], ld_crc = 0, ld_copied = 0\<rparr> = Some (s, True) \<and> ld_memory s = mem' \<and>
      jget e ''crc32'' = Some (JStr (hex8 (ld_crc s))) \<and> jget e ''sha256'' = Some (JStr (sha256_hex L (ld_digest s)))"
    using assms(1) unfolding restore_storage_def
    by (auto simp: jget_none_text split: sum.splits if_splits)
  from s obtain s where s: "stage_in stage_size False blob (nat (off + off')) (device_index t) (t_storage_ptr t) (nat n)
      \<lparr>ld_memory = mem, ld_digest = [], ld_crc = 0, ld_copied = 0\<rparr> = Some (s, True)" "ld_memory s = mem'"
      "jget e ''crc32'' = Some (JStr (hex8 (ld_crc s)))" "jget e ''sha256'' = Some (JStr (sha256_hex L (ld_digest s)))"
    by blast
  have "0 < stage_size \<or> nat n = 0" using assms(2) [OF n] by auto
  from stage_in_complete [OF this s(1)] s(2-4) n show ?thesis by (auto simp: digests_match_def)
qed

lemma restore_storages_sound:
  assumes "restore_storages L stage_size False blob off vs mem restored = Some (Inr r, mem')"
    and "\<And>t e k. (t, e) \<in> set vs \<Longrightarrow> entry_int e ''nbytes'' = Inr k \<Longrightarrow> k = t_storage_nbytes t \<and> (0 < stage_size \<or> k \<le> 0)"
  shows "\<exists>bss. length bss = length vs \<and> mem' = write_storages mem (zip (map fst vs) bss) \<and>
    (\<forall>i < length vs. length (bss ! i) = nat (t_storage_nbytes (fst (vs ! i))) \<and>
       digests_match L (snd (vs ! i)) (bss ! i))"
  using assms
proof (induction vs arbitrary: mem restored)
  case Nil
  then show ?case by (simp add: write_storages_def)
next
  case (Cons v vs)
  obtain t e where v: "v = (t, e)" by (cases v)
  obtain n mem1 where one: "restore_storage L stage_size False blob off (t, e) mem = Some (Inr n, mem1)"
    and rest: "restore_storages L stage_size False blob off vs mem1 (restored + n) = Some (Inr r, mem')"
    using Cons.prems(1) by (auto simp: v split: option.splits sum.splits)
  have stage: "\<And>k. entry_int e ''nbytes'' = Inr k \<Longrightarrow> 0 < stage_size \<or> k \<le> 0" and n: "\<And>k. entry_int e ''nbytes'' = Inr k \<Longrightarrow> k = t_storage_nbytes t"
    using Cons.prems(2) [of t e] by (simp_all add: v)
  obtain bs where bs: "length bs = nat n" "mem1 = write_mem mem (device_index t) (t_storage_ptr t) bs"
    "digests_match L e bs" "n = t_storage_nbytes t"
    using restore_storage_sound [OF one stage] n by blast
  obtain bss where bss: "length bss = length vs" "mem' = write_storages mem1 (zip (map fst vs) bss)"
    "\<forall>i < length vs. length (bss ! i) = nat (t_storage_nbytes (fst (vs ! i))) \<and>
       digests_match L (snd (vs ! i)) (bss ! i)"
    using Cons.IH [OF rest] Cons.prems(2) by (meson list.set_intros(2))
  show ?case
  proof (intro exI [of _ "bs # bss"] conjI allI impI)
    show "mem' = write_storages mem (zip (map fst (v # vs)) (bs # bss))"
      using bss(2) bs(2) by (simp add: v write_storages_def)
    fix i assume "i < length (v # vs)"
    then show "length ((bs # bss) ! i) = nat (t_storage_nbytes (fst ((v # vs) ! i)))"
      "digests_match L (snd ((v # vs) ! i)) ((bs # bss) ! i)"
      using bss(3) bs(1,3,4) by (cases i; simp add: v)+
  qed (use bss(1) in simp)
qed

text \<open>What is known of the resolved storages, whatever the manifest was.\<close>

definition resolve_inv :: "(string, tensor) dict \<Rightarrow> resolve_state \<Rightarrow> bool" where
  "resolve_inv ts s \<longleftrightarrow>
     rv_used_storages s = rev (map (storage_key \<circ> fst) (rv_resolved s)) \<and>
     distinct (rv_used_storages s) \<and>
     (\<forall>v \<in> set (rv_resolved s). fst v \<in> snd ` set ts \<and>
        json_get_int (snd v) ''nbytes'' (-1) = Inr (t_storage_nbytes (fst v))) \<and>
     (\<forall>n \<in> set (rv_saved_names s). \<exists>t. dict_get ts n = Some t \<and> storage_key t \<in> set (rv_used_storages s))"

lemma tensor_named_get: "tensor_named ts v = Inr (n, t) \<Longrightarrow> v = JStr n \<and> dict_get ts n = Some t"
  by (cases "(ts, v)" rule: tensor_named.cases) (auto split: option.splits)

lemma resolve_ref_saved:
  assumes "fold_res (resolve_ref ts key pointer) saved rs = Inr saved'"
    and "\<And>n. n \<in> set saved \<Longrightarrow> \<exists>t. dict_get ts n = Some t \<and> storage_key t \<in> insert key K"
    and "n \<in> set saved'"
  shows "\<exists>t. dict_get ts n = Some t \<and> storage_key t \<in> insert key K"
proof -
  have "\<forall>n \<in> set saved'. \<exists>t. dict_get ts n = Some t \<and> storage_key t \<in> insert key K"
  proof (rule fold_res_invariant [OF assms(1)])
    fix s x s' assume I: "\<forall>n \<in> set s. \<exists>t. dict_get ts n = Some t \<and> storage_key t \<in> insert key K"
      and "resolve_ref ts key pointer s x = Inr s'"
    then obtain k t where "s' = k # s" "dict_get ts k = Some t" "storage_key t = key"
      by (auto simp: resolve_ref_def dest!: tensor_named_get split: if_splits)
    with I show "\<forall>n \<in> set s'. \<exists>t. dict_get ts n = Some t \<and> storage_key t \<in> insert key K" by auto
  qed (use assms(2) in blast)
  with assms(3) show ?thesis by blast
qed

lemma resolve_entry_inv:
  assumes "resolve_inv ts s" "resolve_entry ts s e = Inr s'"
  shows "resolve_inv ts s' \<and> map snd (rv_resolved s') = map snd (rv_resolved s) @ [e]"
proof -
  obtain n t rs saved where t: "dict_get ts n = Some t" "storage_key t \<notin> set (rv_used_storages s)"
    "json_get_int e ''nbytes'' (-1) = Inr (t_storage_nbytes t)"
    and fold: "fold_res (resolve_ref ts (storage_key t) (t_storage_ptr t)) (rv_saved_names s) rs = Inr saved"
    and s': "s' = \<lparr>rv_saved_names = saved, rv_used_storages = storage_key t # rv_used_storages s,
        rv_resolved = rv_resolved s @ [(t, e)]\<rparr>"
    using assms(2) unfolding resolve_entry_def
    by (auto simp: Let_def dest!: tensor_named_get split: if_splits)
  have "t \<in> snd ` set ts" using map_of_SomeD [OF t(1)] by force
  moreover have "\<exists>t'. dict_get ts k = Some t' \<and> storage_key t' \<in> insert (storage_key t) (set (rv_used_storages s))"
    if "k \<in> set saved" for k
    using resolve_ref_saved [OF fold _ that, of "set (rv_used_storages s)"] assms(1)
    unfolding resolve_inv_def by blast
  ultimately show ?thesis using assms(1) t by (auto simp: resolve_inv_def s')
qed

lemma resolve_storages_sound:
  assumes "resolve_storages m storages = Inr resolved" "registered_cuda_tensors m = Inr ts"
  shows "distinct (map (storage_key \<circ> fst) resolved)"
    and "\<And>t e. (t, e) \<in> set resolved \<Longrightarrow> t \<in> snd ` set ts \<and>
           json_get_int e ''nbytes'' (-1) = Inr (t_storage_nbytes t)"
    and "\<And>t. t \<in> snd ` set ts \<Longrightarrow> storage_key t \<in> storage_key ` fst ` set resolved"
    and "json_iter storages = Inr (map snd resolved)"
proof -
  let ?s0 = "\<lparr>rv_saved_names = [], rv_used_storages = [], rv_resolved = []\<rparr>"
  obtain entries s where it: "json_iter storages = Inr entries"
    and fold: "fold_res (resolve_entry ts) ?s0 entries = Inr s"
    and extra: "set (dict_keys ts) - set (rv_saved_names s) = {}" and res: "resolved = rv_resolved s"
    using assms unfolding resolve_storages_def by (auto split: if_splits)
  have "resolve_inv ts s \<and> map snd (rv_resolved s) = entries"
  proof (rule fold_res_prefix_invariant [OF fold])
    show "resolve_inv ts ?s0 \<and> map snd (rv_resolved ?s0) = []" by (simp add: resolve_inv_def)
  next
    fix ys x s s' assume "resolve_inv ts s \<and> map snd (rv_resolved s) = ys" "resolve_entry ts s x = Inr s'"
    then show "resolve_inv ts s' \<and> map snd (rv_resolved s') = ys @ [x]"
      using resolve_entry_inv [of ts s x s'] by simp
  qed
  then have inv: "resolve_inv ts s" and snds: "map snd (rv_resolved s) = entries" by blast+
  show "json_iter storages = Inr (map snd resolved)" using it snds res by simp
  have used: "rv_used_storages s = rev (map (storage_key \<circ> fst) resolved)" "distinct (rv_used_storages s)"
    using inv unfolding resolve_inv_def res by blast+
  then show "distinct (map (storage_key \<circ> fst) resolved)" by simp
  show "t \<in> snd ` set ts \<and> json_get_int e ''nbytes'' (-1) = Inr (t_storage_nbytes t)" if "(t, e) \<in> set resolved" for t e
  proof -
    have "\<forall>v \<in> set resolved. fst v \<in> snd ` set ts \<and>
        json_get_int (snd v) ''nbytes'' (-1) = Inr (t_storage_nbytes (fst v))"
      using inv unfolding resolve_inv_def res by blast
    from bspec [OF this that] show ?thesis by simp
  qed
  show "storage_key t \<in> storage_key ` fst ` set resolved" if reg: "t \<in> snd ` set ts" for t
  proof -
    obtain n where "(n, t) \<in> set ts" using reg by auto
    then have n: "dict_get ts n = Some t"
      using registered_cuda_tensors_ok(1) [OF assms(2)] by (simp add: dict_ok_def dict_keys_def)
    then have "n \<in> set (dict_keys ts)" unfolding dict_key_iff by blast
    then have "n \<in> set (rv_saved_names s)" using extra by blast
    then obtain t' where "dict_get ts n = Some t'" "storage_key t' \<in> set (rv_used_storages s)"
      using inv unfolding resolve_inv_def by blast
    then have "storage_key t \<in> set (rv_used_storages s)" using n by simp
    then show ?thesis unfolding used(1) by (simp add: image_comp)
  qed
qed

lemma entry_int_nbytes:
  assumes "json_get_int e ''nbytes'' (-1) = Inr n" "entry_int e ''nbytes'' = Inr k"
  shows "k = n"
proof -
  obtain w where "jget e ''nbytes'' = Some w" "json_int w = Inr k"
    using assms(2) by (auto simp: entry_int_def)
  then show ?thesis using assms(1) by (simp add: json_get_int_def)
qed

text \<open>The manifest admitted by a restore that went past it, and the storages it resolved.\<close>

lemma restore_admitted_python:
  assumes "restore_admitted L W fs m manifest blob chunk depth pre off mem = Some (Inr r, mem')"
    and env: "hydrator_from_env L (aw_installed W) (aw_environ W) = Inr None"
  shows "\<exists>storages resolved x. jget manifest ''storages'' = Some storages \<and>
    resolve_storages m storages = Inr resolved \<and> am_storages r = length resolved \<and>
    restore_python L fs blob chunk pre off resolved mem = Some (Inr x, mem')"
proof (cases "json_item manifest ''storages''")
  case (Inl e)
  then show ?thesis using assms(1) by (simp add: restore_admitted_def)
next
  case item: (Inr storages)
  show ?thesis
  proof (cases "resolve_storages m storages")
    case (Inl e)
    then show ?thesis using assms(1) item by (simp add: restore_admitted_def del: json_item_eq)
  next
    case res: (Inr resolved)
    show ?thesis
    proof (cases "restore_python L fs blob chunk pre off resolved mem")
      case None
      then show ?thesis using assms(1) env by (simp add: restore_admitted_def item res del: json_item_eq)
    next
      case (Some y)
      obtain x mem1 where y: "y = (x, mem1)" by (cases y)
      have "mem1 = mem' \<and> (\<exists>z. x = Inr z) \<and> am_storages r = length resolved"
        using assms(1) env Some y
        by (cases x) (auto simp add: restore_admitted_def item res simp del: json_item_eq split: if_splits prod.splits)
      then show ?thesis using item res Some y by auto
    qed
  qed
qed

lemma stage_bound:
  assumes sizes: "traverse (\<lambda>v. entry_int (snd v) ''nbytes'') resolved = Inr sizes" and chunk: "0 < chunk"
    and nbytes: "\<And>t e. (t, e) \<in> set resolved \<Longrightarrow> json_get_int e ''nbytes'' (-1) = Inr (t_storage_nbytes t)"
    and te: "(t, e) \<in> set resolved" "entry_int e ''nbytes'' = Inr k"
  shows "k = t_storage_nbytes t \<and> (0 < nat (min chunk (Max (set sizes))) \<or> k \<le> 0)"
proof
  show "k = t_storage_nbytes t" using entry_int_nbytes [OF nbytes [OF te(1)] te(2)] .
  have all: "list_all2 (\<lambda>v y. entry_int (snd v) ''nbytes'' = Inr y) resolved sizes"
    using sizes unfolding traverse_eq_Inr .
  obtain i where i: "i < length resolved" "resolved ! i = (t, e)" using te(1) unfolding in_set_conv_nth by blast
  then have "k = sizes ! i" "i < length sizes"
    using list_all2_nthD [OF all i(1)] list_all2_lengthD [OF all] te(2) by simp_all
  then have "k \<le> Max (set sizes)" by simp
  then show "0 < nat (min chunk (Max (set sizes))) \<or> k \<le> 0" using chunk by auto
qed

lemma restore_python_sound:
  assumes "restore_python L fs blob chunk False off resolved mem = Some (Inr x, mem')" "0 < chunk"
    and "\<And>t e. (t, e) \<in> set resolved \<Longrightarrow> json_get_int e ''nbytes'' (-1) = Inr (t_storage_nbytes t)"
  shows "\<exists>bss. length bss = length resolved \<and> mem' = write_storages mem (zip (map fst resolved) bss) \<and>
    (\<forall>i < length resolved. length (bss ! i) = nat (t_storage_nbytes (fst (resolved ! i))) \<and>
       digests_match L (snd (resolved ! i)) (bss ! i))"
proof (cases "traverse (\<lambda>v. entry_int (snd v) ''nbytes'') resolved")
  case (Inl e)
  then show ?thesis using assms(1) by (simp add: restore_python_def)
next
  case sizes: (Inr sizes)
  let ?stage = "nat (min chunk (Max (set sizes)))"
  obtain b where b: "fs blob = Some b"
    using assms(1) sizes by (cases "fs blob") (simp_all add: restore_python_def)
  obtain n where n: "restore_storages L ?stage False (fn_data b) off resolved mem 0 = Some (Inr n, mem')"
  proof (cases "restore_storages L ?stage False (fn_data b) off resolved mem 0")
    case None
    then show ?thesis using assms(1) sizes b by (simp add: restore_python_def)
  next
    case (Some y)
    obtain r mem1 where y: "y = (r, mem1)" by (cases y)
    then show ?thesis using that Some assms(1) sizes b by (cases r) (simp_all add: restore_python_def)
  qed
  show ?thesis by (rule restore_storages_sound [OF n], rule stage_bound [OF sizes assms(2,3)])
qed

lemma written_storage:
  assumes "distinct (map (storage_key \<circ> fst) resolved)" "length bss = length resolved"
    and "\<And>i. i < length resolved \<Longrightarrow> length (bss ! i) = nat (t_storage_nbytes (fst (resolved ! i)))"
    and "\<And>v. v \<in> set resolved \<Longrightarrow> fst v \<in> snd ` set ts" "storages_disjoint ts" "i < length resolved"
  shows "storage_bytes (write_storages mem (zip (map fst resolved) bss)) (fst (resolved ! i)) = bss ! i"
proof (rule write_storages_read)
  have mem: "(u, cs) \<in> set (zip (map fst resolved) bss) \<longleftrightarrow>
      (\<exists>j < length resolved. u = fst (resolved ! j) \<and> cs = bss ! j)" for u cs
    unfolding in_set_zip using assms(2) by (auto) (metis nth_map)
  show "(fst (resolved ! i), bss ! i) \<in> set (zip (map fst resolved) bss)" using assms(6) mem by blast
  fix u cs assume "(u, cs) \<in> set (zip (map fst resolved) bss)"
  then obtain j where j: "j < length resolved" "u = fst (resolved ! j)" "cs = bss ! j" using mem by blast
  then show "length cs = nat (t_storage_nbytes u)" using assms(3) by simp
  assume "(u, cs) \<noteq> (fst (resolved ! i), bss ! i)"
  then have "i \<noteq> j" using j by auto
  then have "storage_key (fst (resolved ! i)) \<noteq> storage_key (fst (resolved ! j))"
    using assms(1,6) j(1) nth_eq_iff_index_eq [OF assms(1), of i j] by simp
  then show "ranges_disjoint (storage_range (fst (resolved ! i))) (storage_range u)"
    using assms(4) [of "resolved ! i"] assms(4) [of "resolved ! j"] assms(5,6) j unfolding storages_disjoint_def
    by (metis nth_mem)
qed

lemma artifact_restore_loaded:
  assumes "artifact_restore L W fs A m mem identity chunk depth False marker blob_path off = Some (Inr r, mem', fs')"
  shows "0 < chunk \<and> fs' = fs \<and> (\<exists>manifest blob. load_manifest L fs A (Some identity) blob_path off = Inr manifest \<and>
    restore_admitted L W fs m manifest blob chunk depth False off mem = Some (Inr r, mem'))"
proof (cases "load_manifest L fs A (Some identity) blob_path off")
  case (Inl e)
  then show ?thesis using assms by (simp add: artifact_restore_def Let_def split: if_splits)
next
  case (Inr manifest)
  then show ?thesis
    using assms by (auto simp: artifact_restore_def Let_def split: if_splits)
qed

text \<open>
  C2: a restore that verifies what it reads never succeeds with wrong bytes. Whatever the
  manifest and the blob contain, if a restore through the staged copy, not told that the
  artifact is already verified, succeeds, then afterwards the storage of every registered
  tensor holds bytes whose CRC-32 and SHA-256 one entry of the manifest records, and no file has
  changed.
\<close>

theorem restore_integrity:
  assumes run: "artifact_restore L W fs A m mem identity chunk depth False marker blob_path off = Some (Inr r, mem', fs')"
    and env: "hydrator_from_env L (aw_installed W) (aw_environ W) = Inr None"
    and ts: "registered_cuda_tensors m = Inr ts" and disj: "storages_disjoint ts"
  shows "fs' = fs \<and> (\<exists>manifest storages entries.
    load_manifest L fs A (Some identity) blob_path off = Inr manifest \<and>
    jget manifest ''storages'' = Some storages \<and> json_iter storages = Inr entries \<and>
    am_storages r = length entries \<and>
    (\<forall>t \<in> snd ` set ts. \<exists>e \<in> set entries. digests_match L e (storage_bytes mem' t)))"
proof -
  obtain manifest blob where chunk: "0 < chunk" and fs: "fs' = fs"
    and load: "load_manifest L fs A (Some identity) blob_path off = Inr manifest"
    and adm: "restore_admitted L W fs m manifest blob chunk depth False off mem = Some (Inr r, mem')"
    using artifact_restore_loaded [OF run] by blast
  obtain storages resolved x where item: "jget manifest ''storages'' = Some storages"
    and res: "resolve_storages m storages = Inr resolved" and len: "am_storages r = length resolved"
    and py: "restore_python L fs blob chunk False off resolved mem = Some (Inr x, mem')"
    using restore_admitted_python [OF adm env] by blast
  note snd = resolve_storages_sound [OF res ts]
  obtain bss where bss: "length bss = length resolved" "mem' = write_storages mem (zip (map fst resolved) bss)"
    "\<And>i. i < length resolved \<Longrightarrow> length (bss ! i) = nat (t_storage_nbytes (fst (resolved ! i)))"
    "\<And>i. i < length resolved \<Longrightarrow> digests_match L (snd (resolved ! i)) (bss ! i)"
    using restore_python_sound [OF py chunk] snd(2) by blast
  have written: "storage_bytes mem' (fst (resolved ! i)) = bss ! i" if "i < length resolved" for i
    unfolding bss(2) using written_storage [OF snd(1) bss(1,3) _ disj that] snd(2) by auto
  have "\<exists>e \<in> set (map snd resolved). digests_match L e (storage_bytes mem' t)" if "t \<in> snd ` set ts" for t
  proof -
    have "storage_key t \<in> storage_key ` fst ` set resolved" using snd(3) [OF that] .
    then obtain v where v: "v \<in> set resolved" "storage_key t = storage_key (fst v)" by blast
    obtain i where i: "i < length resolved" "resolved ! i = v" using v(1) unfolding in_set_conv_nth by blast
    have "digests_match L (snd v) (storage_bytes mem' t)"
      using bss(4) [OF i(1)] written [OF i(1)] storage_bytes_key [OF v(2), of mem'] i(2) by simp
    then show ?thesis using v(1) by auto
  qed
  then show ?thesis using fs load item snd(4) len by (metis length_map)
qed

lemma restore_integrity_demo:
  "\<exists>r mem2 fs. artifact_restore plain_lib demo_world fs demo_artifact (demo_model 9000) (\<lambda>_ _. 0) demo_identity
     4096 4 False None None 0 = Some (Inr r, mem2, fs)"
proof -
  obtain gs where gs: "storage_groups (demo_model 4096) = Inr gs" using storage_groups_total [OF demo_registered] by blast
  obtain q ps where lay: "artifact_layout gs = (q, ps)" by (cases "artifact_layout gs")
  have one: "0 < (1 :: int)" "(1 :: int) \<le> 1" "(1 :: int) \<le> 64" "0 < (4096 :: int)" "(4096 :: int) mod 4096 = 0" by simp_all
  show ?thesis
    using restore_after_capture [OF demo_artifact_def demo_can_capture one(1-3) demo_identity_ok demo_registered gs lay
        demo_registered demo_same_layout demo_python_restore one(4,5) refl] by blast
qed

theorem restore_integrity_witness:
  "\<exists>r mem2 fs. artifact_restore plain_lib demo_world fs demo_artifact (demo_model 9000) (\<lambda>_ _. 0) demo_identity
     4096 4 False None None 0 = Some (Inr r, mem2, fs) \<and>
     (\<exists>e. digests_match plain_lib e (storage_bytes mem2 (demo_tensor 9000)))"
proof -
  obtain r mem2 fs where run: "artifact_restore plain_lib demo_world fs demo_artifact (demo_model 9000) (\<lambda>_ _. 0)
      demo_identity 4096 4 False None None 0 = Some (Inr r, mem2, fs)"
    using restore_integrity_demo by blast
  have env: "hydrator_from_env plain_lib (aw_installed demo_world) (aw_environ demo_world) = Inr None"
    using demo_python_restore by (simp add: python_restore_def)
  from restore_integrity [OF run env demo_registered demo_disjoint] run show ?thesis by auto
qed

section \<open>Restore always returns and touches nothing else\<close>

definition in_storage :: "tensor \<Rightarrow> int \<Rightarrow> int \<Rightarrow> bool" where
  "in_storage t d a \<longleftrightarrow> device_index t = d \<and> t_storage_ptr t \<le> a \<and> a < t_storage_ptr t + t_storage_nbytes t"

definition same_outside :: "tensor set \<Rightarrow> device_memory \<Rightarrow> device_memory \<Rightarrow> bool" where
  "same_outside T mem mem' \<longleftrightarrow> (\<forall>d a. (\<forall>t \<in> T. \<not> in_storage t d a) \<longrightarrow> mem' d a = mem d a)"

lemma same_outside_refl [simp]: "same_outside T mem mem"
  by (simp add: same_outside_def)

lemma same_outside_trans: "same_outside T a b \<Longrightarrow> same_outside T b c \<Longrightarrow> same_outside T a c"
  by (simp add: same_outside_def)

lemma stage_in_total:
  assumes "0 < stage_size \<or> remaining = 0" "remaining = nat (t_storage_nbytes t)" "t \<in> T"
  shows "\<exists>s c. stage_in stage_size pre blob pos (device_index t) (t_storage_ptr t) remaining
      \<lparr>ld_memory = mem, ld_digest = [], ld_crc = 0, ld_copied = 0\<rparr> = Some (s, c) \<and>
    same_outside T mem (ld_memory s)"
proof (cases "remaining = 0")
  case True
  then show ?thesis by (subst stage_in.simps) (simp, blast)
next
  case False
  let ?s = "\<lparr>ld_memory = mem, ld_digest = [], ld_crc = 0, ld_copied = 0\<rparr>"
  obtain s c bs where s: "stage_in stage_size pre blob pos (device_index t) (t_storage_ptr t) remaining ?s = Some (s, c)"
    "ld_memory s = write_mem mem (device_index t) (t_storage_ptr t) bs" "length bs \<le> remaining"
    using stage_in_writes [of stage_size ?s remaining pre blob pos "device_index t" "t_storage_ptr t"] assms(1) False
    by auto
  have "int (length bs) \<le> t_storage_nbytes t" using s(3) assms(2) False by simp
  then have "same_outside T mem (ld_memory s)"
    using assms(3) unfolding s(2) same_outside_def in_storage_def write_mem_def by force
  with s(1) show ?thesis by blast
qed

lemma restore_storage_total:
  assumes "\<And>k. entry_int e ''nbytes'' = Inr k \<Longrightarrow> k = t_storage_nbytes t \<and> (0 < stage_size \<or> k \<le> 0)" "t \<in> T"
  shows "\<exists>r mem'. restore_storage L stage_size pre blob off (t, e) mem = Some (r, mem') \<and> same_outside T mem mem'"
proof (cases "bind_res (entry_int e ''nbytes'') (\<lambda>n. bind_res (entry_int e ''offset'') (\<lambda>o'. Inr (n, off + o')))")
  case (Inl x)
  then show ?thesis by (simp add: restore_storage_def)
next
  case (Inr y)
  obtain n pos where y: "y = (n, pos)" by (cases y)
  have "entry_int e ''nbytes'' = Inr n" using Inr y by auto
  then have n: "nat n = nat (t_storage_nbytes t)" "0 < stage_size \<or> nat n = 0" using assms(1) by force+
  obtain s c where s: "stage_in stage_size pre blob (nat pos) (device_index t) (t_storage_ptr t) (nat n)
      \<lparr>ld_memory = mem, ld_digest = [], ld_crc = 0, ld_copied = 0\<rparr> = Some (s, c)" "same_outside T mem (ld_memory s)"
    using stage_in_total [OF n(2,1) assms(2), of pre blob "nat pos" mem] by blast
  have "\<exists>r mem'. restore_storage L stage_size pre blob off (t, e) mem = Some (r, mem') \<and> (mem' = mem \<or> mem' = ld_memory s)"
    unfolding restore_storage_def prod.case Inr y sum.case s(1) by simp
  then show ?thesis using s(2) by auto
qed

lemma restore_storages_total:
  assumes "\<And>t e k. (t, e) \<in> set vs \<Longrightarrow> entry_int e ''nbytes'' = Inr k \<Longrightarrow> k = t_storage_nbytes t \<and> (0 < stage_size \<or> k \<le> 0)"
    and "fst ` set vs \<subseteq> T"
  shows "\<exists>r mem'. restore_storages L stage_size pre blob off vs mem restored = Some (r, mem') \<and> same_outside T mem mem'"
  using assms
proof (induction vs arbitrary: mem restored)
  case (Cons v vs)
  obtain t e where v: "v = (t, e)" by (cases v)
  obtain r mem1 where one: "restore_storage L stage_size pre blob off v mem = Some (r, mem1)" "same_outside T mem mem1"
    using restore_storage_total [of e t stage_size T L pre blob off mem] Cons.prems(1) [of t e] Cons.prems(2) v by auto
  have IH: "\<exists>r mem'. restore_storages L stage_size pre blob off vs mm x = Some (r, mem') \<and> same_outside T mm mem'" for mm x
    by (intro Cons.IH, rule Cons.prems(1)) (use Cons.prems(2) in auto)
  show ?case
  proof (cases r)
    case (Inl x)
    then show ?thesis using one by simp
  next
    case (Inr n)
    then show ?thesis using one IH [of mem1 "restored + n"] same_outside_trans [OF one(2)] by auto
  qed
qed simp

lemma restore_python_total:
  assumes "0 < chunk" "fst ` set resolved \<subseteq> T"
    and "\<And>t e. (t, e) \<in> set resolved \<Longrightarrow> json_get_int e ''nbytes'' (-1) = Inr (t_storage_nbytes t)"
  shows "\<exists>r mem'. restore_python L fs blob chunk pre off resolved mem = Some (r, mem') \<and> same_outside T mem mem'"
proof (cases "traverse (\<lambda>v. entry_int (snd v) ''nbytes'') resolved")
  case (Inl e)
  then show ?thesis by (simp add: restore_python_def)
next
  case sizes: (Inr sizes)
  show ?thesis
  proof (cases "fs blob")
    case None
    then show ?thesis by (simp add: restore_python_def sizes)
  next
    case (Some b)
    have "\<exists>r mem'. restore_storages L (nat (min chunk (Max (set sizes)))) pre (fn_data b) off resolved mem 0 =
        Some (r, mem') \<and> same_outside T mem mem'"
      by (rule restore_storages_total [OF _ assms(2)], rule stage_bound [OF sizes assms(1,3)])
    then obtain r mem' where "restore_storages L (nat (min chunk (Max (set sizes)))) pre (fn_data b) off resolved mem 0 =
        Some (r, mem')" "same_outside T mem mem'" by blast
    then show ?thesis using Some by (simp add: restore_python_def sizes)
  qed
qed

lemma restore_admitted_total:
  assumes env: "hydrator_from_env L (aw_installed W) (aw_environ W) = Inr None"
    and ts: "registered_cuda_tensors m = Inr ts" and chunk: "0 < chunk"
  shows "\<exists>r mem'. restore_admitted L W fs m manifest blob chunk depth pre off mem = Some (r, mem') \<and>
    same_outside (snd ` set ts) mem mem'"
proof (cases "bind_res (json_item manifest ''storages'') (resolve_storages m)")
  case (Inl e)
  then have "restore_admitted L W fs m manifest blob chunk depth pre off mem = Some (Inl e, mem)"
    by (cases "json_item manifest ''storages''") (simp_all add: restore_admitted_def del: json_item_eq)
  then show ?thesis by simp
next
  case (Inr resolved)
  then obtain storages where item: "json_item manifest ''storages'' = Inr storages"
    and res: "resolve_storages m storages = Inr resolved" by (auto simp del: json_item_eq)
  note snd = resolve_storages_sound(2) [OF res ts]
  have sub: "fst ` set resolved \<subseteq> snd ` set ts" using snd by auto
  obtain r mem' where "restore_python L fs blob chunk pre off resolved mem = Some (r, mem')"
    "same_outside (snd ` set ts) mem mem'"
    using restore_python_total [OF chunk sub] snd by blast
  then show ?thesis using env by (simp add: restore_admitted_def item res del: json_item_eq)
qed

text \<open>
  C3: a verifying restore through the staged copy always returns, with a result or an exception,
  whatever the files contain: none of its loops runs forever. It changes no file, and no memory
  outside the storages of the model's registered tensors, even when it fails half-way.
\<close>

theorem restore_returns:
  assumes "hydrator_from_env L (aw_installed W) (aw_environ W) = Inr None"
    and "registered_cuda_tensors m = Inr ts"
  shows "\<exists>r mem'. artifact_restore L W fs A m mem identity chunk depth False marker blob_path off = Some (r, mem', fs) \<and>
    same_outside (snd ` set ts) mem mem'"
proof (cases "load_manifest L fs A (Some identity) blob_path off")
  case (Inl e)
  then show ?thesis by (simp add: artifact_restore_def Let_def)
next
  case (Inr manifest)
  show ?thesis
  proof (cases "chunk \<le> 0 \<or> chunk mod ALIGNMENT \<noteq> 0")
    case True
    then show ?thesis by (simp add: artifact_restore_def)
  next
    case False
    let ?blob = "case blob_path of None \<Rightarrow> ar_blob_path A | Some p \<Rightarrow> p"
    obtain r mem' where "restore_admitted L W fs m manifest ?blob chunk depth False off mem = Some (r, mem')"
      "same_outside (snd ` set ts) mem mem'"
      using restore_admitted_total [OF assms] False by (metis not_le)
    then show ?thesis using False Inr by (simp add: artifact_restore_def Let_def)
  qed
qed

theorem restore_returns_witness:
  "\<exists>r mem'. artifact_restore plain_lib demo_world (\<lambda>_. None) demo_artifact (demo_model 9000) demo_memory demo_identity
     4096 4 False None None 0 = Some (r, mem', \<lambda>_. None) \<and>
     same_outside {demo_tensor 9000} demo_memory mem'"
proof -
  have env: "hydrator_from_env plain_lib (aw_installed demo_world) (aw_environ demo_world) = Inr None"
    using demo_python_restore by (simp add: python_restore_def)
  from restore_returns [OF env demo_registered] show ?thesis by simp
qed

section \<open>Publication\<close>

text \<open>The operations of a capture, by its outcome.\<close>

lemma capture_body_ops:
  assumes "capture_body L W fs A m mem identity chunk depth replace = Some (r, ops)"
  shows "(\<exists>e wrote. r = Inl e \<and> ops = wrote \<and>
      (\<forall>op \<in> set wrote. \<exists>d. op = FsWrite (temporary_blob W A) d \<or> op = FsWrite (temporary_manifest W A) d)) \<or>
    (\<exists>c blob manifest. r = Inr c \<and> ops = [FsWrite (temporary_blob W A) blob, FsWrite (temporary_manifest W A) manifest,
       FsReplace (temporary_blob W A) (ar_blob_path A), FsReplace (temporary_manifest W A) (ar_manifest_path A)])"
  using assms unfolding capture_body_def Let_def
  by (auto split: sum.splits option.splits prod.splits)

definition published :: "artifact \<Rightarrow> file_system \<Rightarrow> file_node option \<times> file_node option" where
  "published A fs = (fs (ar_blob_path A), fs (ar_manifest_path A))"

fun touched :: "fs_op \<Rightarrow> string set" where
  "touched (FsWrite p d) = {p}"
| "touched (FsReplace p q) = {p, q}"
| "touched (FsUnlink p) = {p}"

lemma run_ops_frame: "(\<And>op. op \<in> set ops \<Longrightarrow> p \<notin> touched op) \<Longrightarrow> run_ops s fs ops p = fs p"
proof (induction ops rule: rev_induct)
  case (snoc op ops)
  then have "run_ops s fs ops p = fs p" "p \<notin> touched op" by simp_all
  then show ?case by (cases op) (simp_all add: run_ops_def)
qed (simp add: run_ops_def)

lemma capture_ops_cases:
  assumes "artifact_capture L W fs A m mem identity chunk depth replace = Some (r, ops)"
  shows "isl r \<and> (\<forall>op \<in> set ops. touched op \<subseteq> {temporary_blob W A, temporary_manifest W A}) \<and>
      (ops = [] \<or> (\<exists>us. ops = us @ [FsUnlink (temporary_blob W A), FsUnlink (temporary_manifest W A)])) \<or>
    \<not> isl r \<and> (\<exists>blob manifest. ops = [FsWrite (temporary_blob W A) blob, FsWrite (temporary_manifest W A) manifest,
       FsReplace (temporary_blob W A) (ar_blob_path A), FsReplace (temporary_manifest W A) (ar_manifest_path A),
       FsUnlink (temporary_blob W A), FsUnlink (temporary_manifest W A)])"
proof (cases "chunk \<le> 0 \<or> \<not> (1 \<le> depth \<and> depth \<le> 64)")
  case True
  then show ?thesis using assms by (auto simp: artifact_capture_def split: if_splits)
next
  case False
  then obtain us where body: "capture_body L W fs A m mem identity chunk depth replace = Some (r, us)"
    and ops: "ops = us @ [FsUnlink (temporary_blob W A), FsUnlink (temporary_manifest W A)]"
    using assms by (auto simp: artifact_capture_def)
  from capture_body_ops [OF body] show ?thesis
    unfolding ops by (elim disjE exE conjE) fastforce+
qed


lemma demo_capture:
  "\<exists>c ops. artifact_capture plain_lib demo_world (\<lambda>_. None) demo_artifact (demo_model 4096) demo_memory demo_identity
     1 1 False = Some (Inr c, ops) \<and> ops \<noteq> []"
proof -
  obtain gs where gs: "storage_groups (demo_model 4096) = Inr gs" using storage_groups_total [OF demo_registered] by blast
  obtain q ps where lay: "artifact_layout gs = (q, ps)" by (cases "artifact_layout gs")
  have one: "0 < (1 :: int)" "(1 :: int) \<le> 1" "(1 :: int) \<le> 64" by simp_all
  show ?thesis
    using artifact_capture_eq(1) [OF demo_can_capture gs lay one, of demo_memory] by (simp add: capture_ops_def)
qed


text \<open>
  C40: publication is not atomic. Every successful capture passes through a state in which the new
  blob is published beside the manifest of whatever artifact was there before, so a crash at
  that point leaves a pair that no capture ever wrote.
\<close>

theorem capture_torn:
  assumes A: "A = artifact_init L' resolved base lock_root"
    and run: "artifact_capture L W fs A m mem identity chunk depth replace = Some (Inr c, ops)"
  shows "\<exists>first rest. ops = first @ rest \<and>
    published A (run_ops s fs first) = (fst (published A (run_ops s fs ops)), snd (published A fs))"
proof -
  have dist: "distinct [temporary_blob W A, temporary_manifest W A, ar_blob_path A, ar_manifest_path A]"
    by (rule artifact_paths_distinct [OF A])
  obtain blob manifest where ops: "ops = [FsWrite (temporary_blob W A) blob, FsWrite (temporary_manifest W A) manifest,
       FsReplace (temporary_blob W A) (ar_blob_path A)] @ [FsReplace (temporary_manifest W A) (ar_manifest_path A),
       FsUnlink (temporary_blob W A), FsUnlink (temporary_manifest W A)]"
    using capture_ops_cases [OF run] by auto
  show ?thesis
    by (intro exI conjI, rule ops) (use dist in \<open>auto simp: ops run_ops_def published_def\<close>)
qed

theorem capture_torn_witness:
  "\<exists>c ops first rest. artifact_capture plain_lib demo_world (\<lambda>_. None) demo_artifact (demo_model 4096) demo_memory
     demo_identity 1 1 False = Some (Inr c, ops) \<and> ops = first @ rest \<and>
   published demo_artifact (run_ops (demo_stat 0) (\<lambda>_. None) first) =
     (fst (published demo_artifact (run_ops (demo_stat 0) (\<lambda>_. None) ops)), None)"
proof -
  obtain c ops where run: "artifact_capture plain_lib demo_world (\<lambda>_. None) demo_artifact (demo_model 4096) demo_memory
      demo_identity 1 1 False = Some (Inr c, ops)"
    using demo_capture by blast
  have "snd (published demo_artifact (\<lambda>_. None)) = None" by (simp add: published_def)
  with capture_torn [OF demo_artifact_def run, of "demo_stat 0"] run show ?thesis by metis
qed

section \<open>Manifests that are no artifact\<close>

text \<open>
  a manifest that is not an artifact's makes the compatibility test raise instead of saying
  no: text that is not UTF-8 raises the decoding error, and a JSON value that is no dictionary,
  such as the empty list, an attribute error. Neither is the \<^verbatim>\<open>ArtifactError\<close> that the callers handle.
\<close>

theorem is_compatible_escapes:
  assumes "fs (ar_manifest_path A) = Some n"
  shows "(fn_data n = [0xFF] \<longrightarrow> is_compatible L fs A identity = Inl UnicodeDecodeErr) \<and>
    (fn_data n = ascii_bytes ''[]'' \<longrightarrow>
      is_compatible L fs A identity = Inl (AttributeErr ''object has no attribute get''))"
proof
  have "\<not> (255 :: byte) < 128" by simp
  then show "fn_data n = [0xFF] \<longrightarrow> is_compatible L fs A identity = Inl UnicodeDecodeErr"
    using assms by (simp add: is_compatible_def load_manifest_def read_manifest_def)
  have "json_loads L (json_text L (JList [])) = Inr (JList [])" by (subst json_loads_text) simp_all
  moreover have "utf8_decode (ascii_bytes ''[]'') = Inr ''[]''" by (rule utf8_decode_ascii) simp
  ultimately show "fn_data n = ascii_bytes ''[]'' \<longrightarrow>
      is_compatible L fs A identity = Inl (AttributeErr ''object has no attribute get'')"
    using assms by (simp add: is_compatible_def load_manifest_def read_manifest_def join_str_def)
qed

theorem is_compatible_escapes_witness:
  "is_compatible plain_lib [ar_manifest_path demo_artifact \<mapsto> data_node (demo_stat 0) [0xFF]] demo_artifact
     demo_identity = Inl UnicodeDecodeErr"
  using is_compatible_escapes [of "[ar_manifest_path demo_artifact \<mapsto> data_node (demo_stat 0) [0xFF]]" demo_artifact
      "data_node (demo_stat 0) [0xFF]" plain_lib demo_identity]
  by (simp add: data_node_def)

end
