(* ===== verification/Cold_Checkpoint.thy ===== *)
theory Cold_Checkpoint
  imports Cold_Json
begin

text \<open>
  The registry of external resources that cannot enter a snapshot
  (\<^verbatim>\<open>coldsnap_core/checkpoint.py\<close>): the scan of \<^verbatim>\<open>/proc\<close> for io_uring descriptors and
  workers, the \<^verbatim>\<open>ResourceRegistry\<close> with its registration, its preparation with rollback and
  its restoration, and the interleaving of its calls as a step relation between the
  critical sections.

  A resource is a handle of type \<open>'r\<close>; what its methods do to the process is given by a
  \<open>resource_protocol\<close> over worlds of type \<open>'w\<close>. The locale \<open>checkpoint_contract\<close> is the
  contract the adapters promise.
\<close>

named_theorems registry_defs "definitions of the registry operations"

section \<open>Descriptors and kernel workers\<close>

text \<open>
  What \<^verbatim>\<open>/proc/<pid>\<close> shows: the entries of \<^verbatim>\<open>fd\<close> with the result of reading each link, and
  the entries of \<^verbatim>\<open>task\<close> with the result of reading each \<^verbatim>\<open>comm\<close> file.
\<close>

record proc_pid =
  fd_entries :: "(string \<times> string res) list res"
  task_entries :: "(string \<times> string res) list res"

type_synonym proc = "int \<Rightarrow> proc_pid"

definition is_ring_link :: "string \<Rightarrow> bool" where
  "is_ring_link target = (target \<in> set [''anon_inode:[io_uring]'', ''anon_inode:io_uring''])"

definition is_ring_thread :: "string \<Rightarrow> bool" where
  "is_ring_thread name = (starts_with name ''iou-wrk-'' \<or> starts_with name ''iou-sqp-'')"

fun scan_fd :: "int \<Rightarrow> string list \<Rightarrow> string \<times> string res \<Rightarrow> string list res" where
  "scan_fd pid remaining (entry, Inl e) =
     (if e = FileNotFoundErr then Inr remaining
      else if is_os_error e then Inl (CheckpointResourceError ''cannot inspect checkpoint descriptor'')
      else Inl e)"
| "scan_fd pid remaining (entry, Inr target) =
     Inr (if is_ring_link target then remaining @ [''PID '' @ str_int pid @ '' fd '' @ entry] else remaining)"

fun scan_task :: "int \<Rightarrow> string list \<Rightarrow> string \<times> string res \<Rightarrow> string list res" where
  "scan_task pid remaining (task, Inl e) = (if e = FileNotFoundErr then Inr remaining else Inl e)"
| "scan_task pid remaining (task, Inr text) =
     (let name = py_strip text in
      Inr (if is_ring_thread name
           then remaining @ [''PID '' @ str_int pid @ '' thread '' @ task @ '' ('' @ name @ '')'']
           else remaining))"

definition scan_threads :: "int \<Rightarrow> proc_pid \<Rightarrow> string list \<Rightarrow> string list res" where
  "scan_threads pid p remaining =
     catch_res (bind_res (task_entries p) (fold_res (scan_task pid) remaining))
       (\<lambda>e. if e = FileNotFoundErr then Inr remaining
            else if is_os_error e then Inl (CheckpointResourceError ''cannot inspect checkpoint threads'')
            else Inl e)"

definition scan_pid :: "proc \<Rightarrow> string list \<Rightarrow> int \<Rightarrow> string list res" where
  "scan_pid proc remaining pid =
     (case fd_entries (proc pid) of
        Inl e \<Rightarrow>
          if e = FileNotFoundErr then Inr remaining
          else if is_os_error e then Inl (CheckpointResourceError ''cannot inspect checkpoint descriptors'')
          else Inl e
      | Inr entries \<Rightarrow>
          bind_res (fold_res (scan_fd pid) remaining entries) (scan_threads pid (proc pid)))"

definition assert_no_io_uring :: "proc \<Rightarrow> int \<Rightarrow> int list option \<Rightarrow> unit res" where
  "assert_no_io_uring proc getpid pids =
     bind_res (fold_res (scan_pid proc) [] (case pids of None \<Rightarrow> [getpid] | Some ps \<Rightarrow> ps))
       (\<lambda>remaining.
          if remaining \<noteq> []
          then Inl (CheckpointResourceError ''io_uring resources remain after checkpoint prepare'')
          else Inr ())"

section \<open>The registry\<close>

datatype registry_phase = Active | Preparing | Prepared | Restoring | Failed

type_synonym report = "(string \<times> json) list"

record 'r registry =
  resources :: "(string, 'r) dict"
  prepared :: "(string \<times> 'r) list"
  phase :: registry_phase
  sequence :: int
  reported :: "report option"

definition registry_init :: "'r registry" where
  "registry_init =
     \<lparr>resources = [], prepared = [], phase = Active, sequence = 0, reported = None\<rparr>"

text \<open>The methods of a resource, and what the process shows of itself under \<^verbatim>\<open>/proc\<close>.\<close>

record ('r, 'w) resource_protocol =
  has_contract :: "'r \<Rightarrow> bool"
  prepare_of :: "'r \<Rightarrow> 'w \<Rightarrow> 'w \<times> report res"
  restore_of :: "'r \<Rightarrow> 'w \<Rightarrow> 'w \<times> report res"
  proc_of :: "'w \<Rightarrow> proc"
  own_pid :: int

definition resource_name :: "string \<Rightarrow> int \<Rightarrow> string" where
  "resource_name kind n = kind @ ''-'' @ str_int n"

definition registry_register ::
  "('r, 'w) resource_protocol \<Rightarrow> 'r registry \<Rightarrow> 'r \<Rightarrow> string \<Rightarrow> 'r registry \<times> string res" where
  "registry_register P reg resource kind =
     (if phase reg \<noteq> Active then (reg, Inl (CheckpointResourceError ''cannot register a resource''))
      else if kind = [] \<or> \<not> has_contract P resource
        then (reg, Inl (CheckpointResourceError ''invalid checkpoint resource contract''))
      else let n = sequence reg + 1; name = resource_name kind n
        in (reg\<lparr>sequence := n, resources := dict_put name resource (resources reg)\<rparr>, Inr name))"

definition dict_pop :: "'k \<Rightarrow> ('k, 'v) dict \<Rightarrow> ('k, 'v) dict" where
  "dict_pop k d = filter (\<lambda>(k', _). k' \<noteq> k) d"

definition registry_unregister :: "'r registry \<Rightarrow> string \<Rightarrow> 'r registry" where
  "registry_unregister reg name = reg\<lparr>resources := dict_pop name (resources reg)\<rparr>"

definition registry_result :: "string \<Rightarrow> report list \<Rightarrow> report" where
  "registry_result ph reports =
     [(''format'', JInt 1), (''kind'', JStr ''coldsnap-checkpoint-resources''),
      (''phase'', JStr ph), (''resources'', JList (map JObj reports))]"

text \<open>\<^verbatim>\<open>{"name": name, **report}\<close>: a report may itself bind \<^verbatim>\<open>name\<close>, and then wins.\<close>

definition named_report :: "string \<Rightarrow> report \<Rightarrow> report" where
  "named_report name report = fold (\<lambda>(k, v) d. dict_put k v d) report [(''name'', JStr name)]"

text \<open>
  The three loops run outside the lock: preparing the listed resources in order, rolling
  back the prepared ones in reverse order while collecting the failures, and restoring.
\<close>

fun prepare_loop ::
  "('r, 'w) resource_protocol \<Rightarrow> (string \<times> 'r) list \<Rightarrow> (string \<times> 'r) list \<Rightarrow> report list \<Rightarrow> 'w \<Rightarrow>
   'w \<times> (string \<times> 'r) list \<times> report list res" where
  "prepare_loop P [] done reports w =
     (w, done, bind_res (assert_no_io_uring (proc_of P w) (own_pid P) None) (\<lambda>_. Inr reports))"
| "prepare_loop P ((name, resource) # todo) done reports w =
     (case prepare_of P resource w of
        (w', Inl e) \<Rightarrow> (w', done, Inl e)
      | (w', Inr report) \<Rightarrow>
          prepare_loop P todo (done @ [(name, resource)]) (reports @ [named_report name report]) w')"

fun rollback_loop ::
  "('r, 'w) resource_protocol \<Rightarrow> (string \<times> 'r) list \<Rightarrow> string list \<Rightarrow> 'w \<Rightarrow> 'w \<times> string list" where
  "rollback_loop P [] failures w = (w, failures)"
| "rollback_loop P ((name, resource) # todo) failures w =
     (case restore_of P resource w of
        (w', Inl e) \<Rightarrow> rollback_loop P todo (failures @ [name]) w'
      | (w', Inr _) \<Rightarrow> rollback_loop P todo failures w')"

fun restore_loop ::
  "('r, 'w) resource_protocol \<Rightarrow> (string \<times> 'r) list \<Rightarrow> report list \<Rightarrow> 'w \<Rightarrow> 'w \<times> report list res" where
  "restore_loop P [] reports w = (w, Inr reports)"
| "restore_loop P ((name, resource) # todo) reports w =
     (case restore_of P resource w of
        (w', Inl e) \<Rightarrow> (w', Inl e)
      | (w', Inr report) \<Rightarrow> restore_loop P todo (reports @ [named_report name report]) w')"

text \<open>The critical sections that end the two transactions.\<close>

definition prepare_failed :: "string list \<Rightarrow> 'r registry \<Rightarrow> 'r registry" where
  "prepare_failed failures reg = reg\<lparr>phase := if failures \<noteq> [] then Failed else Active\<rparr>"

definition prepare_commit :: "(string \<times> 'r) list \<Rightarrow> report list \<Rightarrow> 'r registry \<Rightarrow> 'r registry" where
  "prepare_commit done reports reg =
     reg\<lparr>prepared := done, phase := Prepared, reported := Some (registry_result ''prepared'' reports)\<rparr>"

definition restore_commit :: "'r registry \<Rightarrow> 'r registry" where
  "restore_commit reg = reg\<lparr>prepared := [], phase := Active, reported := None\<rparr>"

definition registry_prepare ::
  "('r, 'w) resource_protocol \<Rightarrow> 'r registry \<times> 'w \<Rightarrow> ('r registry \<times> 'w) \<times> report res" where
  "registry_prepare P = (\<lambda>(reg, w).
     if phase reg = Prepared then ((reg, w), opt_res AssertionErr (reported reg))
     else if phase reg \<noteq> Active then ((reg, w), Inl (CheckpointResourceError ''cannot prepare resources''))
     else (let reg1 = reg\<lparr>phase := Preparing\<rparr> in
       case prepare_loop P (resources reg) [] [] w of
         (w1, done, Inl e) \<Rightarrow>
           (let (w2, failures) = rollback_loop P (rev done) [] w1
            in ((prepare_failed failures reg1, w2),
                Inl (CheckpointResourceError ''checkpoint resource prepare failed'')))
       | (w1, done, Inr reports) \<Rightarrow>
           ((prepare_commit done reports reg1, w1), Inr (registry_result ''prepared'' reports))))"

definition registry_restore ::
  "('r, 'w) resource_protocol \<Rightarrow> 'r registry \<times> 'w \<Rightarrow> ('r registry \<times> 'w) \<times> report res" where
  "registry_restore P = (\<lambda>(reg, w).
     if phase reg \<noteq> Prepared then ((reg, w), Inl (CheckpointResourceError ''cannot restore resources''))
     else (let reg1 = reg\<lparr>phase := Restoring\<rparr> in
       case restore_loop P (prepared reg) [] w of
         (w1, Inl e) \<Rightarrow>
           ((reg1\<lparr>phase := Failed\<rparr>, w1), Inl (CheckpointResourceError ''checkpoint resource restore failed''))
       | (w1, Inr reports) \<Rightarrow> ((restore_commit reg1, w1), Inr (registry_result ''restored'' reports))))"

declare registry_register_def [registry_defs] registry_unregister_def [registry_defs]
  prepare_failed_def [registry_defs] prepare_commit_def [registry_defs] restore_commit_def [registry_defs]

section \<open>The scan is exact\<close>

fun fd_clean :: "string \<times> string res \<Rightarrow> bool" where
  "fd_clean (_, Inl e) = (e = FileNotFoundErr)"
| "fd_clean (_, Inr target) = (\<not> is_ring_link target)"

fun task_clean :: "string \<times> string res \<Rightarrow> bool" where
  "task_clean (_, Inl e) = (e = FileNotFoundErr)"
| "task_clean (_, Inr text) = (\<not> is_ring_thread (py_strip text))"

definition entries_clean :: "('a \<Rightarrow> bool) \<Rightarrow> 'a list res \<Rightarrow> bool" where
  "entries_clean ok r = (case r of Inl e \<Rightarrow> e = FileNotFoundErr | Inr es \<Rightarrow> list_all ok es)"

definition pid_clean :: "proc_pid \<Rightarrow> bool" where
  "pid_clean p =
     (fd_entries p = Inl FileNotFoundErr \<or>
      entries_clean fd_clean (fd_entries p) \<and> entries_clean task_clean (task_entries p))"

text \<open>
  A scan is a loop that only ever extends the list of findings, and leaves the empty list
  empty exactly when every item is clean.
\<close>

definition scans :: "('s list \<Rightarrow> 'a \<Rightarrow> 's list res) \<Rightarrow> ('a \<Rightarrow> bool) \<Rightarrow> bool" where
  "scans f ok = (\<forall>x rem. (ok x \<longrightarrow> f rem x = Inr rem) \<and>
     (\<forall>rem'. f rem x = Inr rem' \<longrightarrow> \<not> ok x \<longrightarrow> rem' \<noteq> []) \<and>
     (\<forall>rem'. f rem x = Inr rem' \<longrightarrow> rem \<noteq> [] \<longrightarrow> rem' \<noteq> []))"

lemma scansI:
  assumes "\<And>x rem. ok x \<Longrightarrow> f rem x = Inr rem"
    and "\<And>x rem rem'. f rem x = Inr rem' \<Longrightarrow> \<not> ok x \<Longrightarrow> rem' \<noteq> []"
    and "\<And>x rem rem'. f rem x = Inr rem' \<Longrightarrow> rem \<noteq> [] \<Longrightarrow> rem' \<noteq> []"
  shows "scans f ok"
  using assms unfolding scans_def by blast

lemma scansD:
  assumes "scans f ok"
  shows "ok x \<Longrightarrow> f rem x = Inr rem"
    and "f rem x = Inr rem' \<Longrightarrow> \<not> ok x \<Longrightarrow> rem' \<noteq> []"
    and "f rem x = Inr rem' \<Longrightarrow> rem \<noteq> [] \<Longrightarrow> rem' \<noteq> []"
  using assms unfolding scans_def by blast+

lemma scans_fold:
  assumes "scans f ok"
  shows "scans (fold_res f) (list_all ok)"
proof (rule scansI)
  have keep: "fold_res f rem xs = Inr rem' \<Longrightarrow> rem \<noteq> [] \<Longrightarrow> rem' \<noteq> []" for xs rem rem'
  proof (induction xs arbitrary: rem)
    case (Cons x xs)
    then obtain r where "f rem x = Inr r" "fold_res f r xs = Inr rem'" by auto
    with Cons.IH Cons.prems(2) scansD(3) [OF assms] show ?case by blast
  qed simp
  then show "fold_res f rem xs = Inr rem' \<Longrightarrow> rem \<noteq> [] \<Longrightarrow> rem' \<noteq> []" for xs rem rem' .
  show "list_all ok xs \<Longrightarrow> fold_res f rem xs = Inr rem" for xs rem
    using assms by (induction xs arbitrary: rem) (simp_all add: scans_def)
  show "fold_res f rem xs = Inr rem' \<Longrightarrow> \<not> list_all ok xs \<Longrightarrow> rem' \<noteq> []" for xs rem rem'
  proof (induction xs arbitrary: rem)
    case (Cons x xs)
    then obtain r where r: "f rem x = Inr r" "fold_res f r xs = Inr rem'" by auto
    show ?case
    proof (cases "ok x")
      case True
      with Cons.prems(2) Cons.IH [OF r(2)] show ?thesis by simp
    next
      case False
      with assms r(1) have "r \<noteq> []" by (auto simp: scans_def)
      with r(2) show ?thesis by (rule keep)
    qed
  qed simp
qed

lemma scans_fd: "scans (scan_fd pid) fd_clean"
proof (rule scansI)
  show "fd_clean x \<Longrightarrow> scan_fd pid rem x = Inr rem" for x rem
    by (cases "(pid, rem, x)" rule: scan_fd.cases) auto
  show "scan_fd pid rem x = Inr rem' \<Longrightarrow> \<not> fd_clean x \<Longrightarrow> rem' \<noteq> []" for x rem rem'
    by (cases "(pid, rem, x)" rule: scan_fd.cases) (auto split: if_splits)
  show "scan_fd pid rem x = Inr rem' \<Longrightarrow> rem \<noteq> [] \<Longrightarrow> rem' \<noteq> []" for x rem rem'
    by (cases "(pid, rem, x)" rule: scan_fd.cases) (auto split: if_splits)
qed

lemma scans_task: "scans (scan_task pid) task_clean"
proof (rule scansI)
  show "task_clean x \<Longrightarrow> scan_task pid rem x = Inr rem" for x rem
    by (cases "(pid, rem, x)" rule: scan_task.cases) (auto simp: Let_def)
  show "scan_task pid rem x = Inr rem' \<Longrightarrow> \<not> task_clean x \<Longrightarrow> rem' \<noteq> []" for x rem rem'
    by (cases "(pid, rem, x)" rule: scan_task.cases) (auto simp: Let_def split: if_splits)
  show "scan_task pid rem x = Inr rem' \<Longrightarrow> rem \<noteq> [] \<Longrightarrow> rem' \<noteq> []" for x rem rem'
    by (cases "(pid, rem, x)" rule: scan_task.cases) (auto simp: Let_def split: if_splits)
qed

lemma fold_task_not_FileNotFound: "fold_res (scan_task pid) rem ts \<noteq> Inl FileNotFoundErr"
proof (induction ts arbitrary: rem)
  case (Cons t ts)
  have "scan_task pid rem t \<noteq> Inl FileNotFoundErr"
    by (cases "(pid, rem, t)" rule: scan_task.cases) (auto simp: Let_def)
  with Cons show ?case by (auto simp: bind_res_eq_Inl)
qed simp

lemma scans_threads: "scans (\<lambda>rem p. scan_threads pid p rem) (\<lambda>p. entries_clean task_clean (task_entries p))"
proof -
  note fold = scansD [OF scans_fold [OF scans_task [of pid]]]
  have cases: "scan_threads pid p rem =
      (case task_entries p of
         Inl e \<Rightarrow> if e = FileNotFoundErr then Inr rem
           else if is_os_error e then Inl (CheckpointResourceError ''cannot inspect checkpoint threads'') else Inl e
       | Inr ts \<Rightarrow> (case fold_res (scan_task pid) rem ts of
           Inr rem' \<Rightarrow> Inr rem'
         | Inl e \<Rightarrow> if is_os_error e then Inl (CheckpointResourceError ''cannot inspect checkpoint threads'') else Inl e))"
    for p rem
    using fold_task_not_FileNotFound [of pid rem]
    by (auto simp: scan_threads_def split: sum.splits)
  show ?thesis
  proof (rule scansI)
    show "entries_clean task_clean (task_entries p) \<Longrightarrow> scan_threads pid p rem = Inr rem" for p rem
      using fold by (auto simp: cases entries_clean_def split: sum.splits)
    show "scan_threads pid p rem = Inr rem' \<Longrightarrow> \<not> entries_clean task_clean (task_entries p) \<Longrightarrow> rem' \<noteq> []"
      for p rem rem'
      using fold(2)
      by (cases "task_entries p") (auto simp: cases entries_clean_def split: sum.splits if_splits)
    show "scan_threads pid p rem = Inr rem' \<Longrightarrow> rem \<noteq> [] \<Longrightarrow> rem' \<noteq> []" for p rem rem'
      using fold(3) [of rem] by (auto simp: cases split: sum.splits if_splits)
  qed
qed

lemma scans_pid: "scans (scan_pid proc) (\<lambda>pid. pid_clean (proc pid))"
proof (rule scansI)
  fix pid rem rem'
  note fd = scansD [OF scans_fold [OF scans_fd [of pid]]]
  note threads = scansD [OF scans_threads [of pid]]
  show "pid_clean (proc pid) \<Longrightarrow> scan_pid proc rem pid = Inr rem"
    using fd threads
    by (auto simp: scan_pid_def pid_clean_def entries_clean_def split: sum.splits)
  show "scan_pid proc rem pid = Inr rem' \<Longrightarrow> rem \<noteq> [] \<Longrightarrow> rem' \<noteq> []"
    using fd(3) threads(3)
    by (auto simp: scan_pid_def split: sum.splits if_splits) blast+
  show "scan_pid proc rem pid = Inr rem' \<Longrightarrow> \<not> pid_clean (proc pid) \<Longrightarrow> rem' \<noteq> []"
  proof (cases "fd_entries (proc pid)")
    case (Inr es)
    assume ok: "scan_pid proc rem pid = Inr rem'" and bad: "\<not> pid_clean (proc pid)"
    from ok Inr obtain r where r: "fold_res (scan_fd pid) rem es = Inr r"
        "scan_threads pid (proc pid) r = Inr rem'" by (auto simp: scan_pid_def)
    show ?thesis
    proof (cases "list_all fd_clean es")
      case True
      with bad Inr have "\<not> entries_clean task_clean (task_entries (proc pid))"
        by (simp add: pid_clean_def entries_clean_def)
      with r(2) threads show ?thesis by blast
    next
      case False
      with r(1) fd have "r \<noteq> []" by blast
      with r(2) threads show ?thesis by blast
    qed
  qed (auto simp: scan_pid_def pid_clean_def split: if_splits)
qed

lemma assert_no_io_uring_iff:
  "assert_no_io_uring proc getpid pids = Inr () \<longleftrightarrow>
   list_all (\<lambda>pid. pid_clean (proc pid)) (case pids of None \<Rightarrow> [getpid] | Some ps \<Rightarrow> ps)"
proof -
  let ?ps = "case pids of None \<Rightarrow> [getpid] | Some ps \<Rightarrow> ps"
  note fold = scansD [OF scans_fold [OF scans_pid [of proc]]]
  have "assert_no_io_uring proc getpid pids = Inr () \<longleftrightarrow> fold_res (scan_pid proc) [] ?ps = Inr []"
    by (auto simp: assert_no_io_uring_def bind_res_def split: sum.splits if_splits)
  also have "\<dots> \<longleftrightarrow> list_all (\<lambda>pid. pid_clean (proc pid)) ?ps"
    using fold by blast
  finally show ?thesis .
qed

text \<open>
  C24: The scan passes exactly when every inspected process is gone, or all its descriptors
  and threads could be inspected and none is an io_uring descriptor or worker; a descriptor
  or thread that vanished meanwhile is skipped, and nothing else is.
\<close>

theorem assert_no_io_uring_exact:
  "assert_no_io_uring proc getpid pids = Inr () \<longleftrightarrow>
   list_all (\<lambda>pid. pid_clean (proc pid)) (case pids of None \<Rightarrow> [getpid] | Some ps \<Rightarrow> ps)"
  by (rule assert_no_io_uring_iff)

section \<open>The contract of a resource\<close>

text \<open>
  What the protocol promises: preparation suspends a resource that was running, or raises
  and leaves everything as it was; restoration resumes a suspended resource, or raises and
  leaves everything as it was; neither touches the storage the resource retains.
\<close>

locale checkpoint_contract =
  fixes P :: "('r, 'w) resource_protocol"
    and suspended :: "'w \<Rightarrow> 'r \<Rightarrow> bool"
    and well_formed :: "'w \<Rightarrow> bool"
    and retained :: "'w \<Rightarrow> 'r \<Rightarrow> 's"
  assumes prepare_keeps:
      "well_formed w \<Longrightarrow> prepare_of P r w = (w', x) \<Longrightarrow> well_formed w' \<and> retained w' = retained w"
    and restore_keeps:
      "well_formed w \<Longrightarrow> restore_of P r w = (w', x) \<Longrightarrow> well_formed w' \<and> retained w' = retained w"
    and prepare_suspends:
      "well_formed w \<Longrightarrow> prepare_of P r w = (w', Inr report) \<Longrightarrow>
       \<not> suspended w r \<and> suspended w' = (suspended w)(r := True)"
    and prepare_atomic:
      "well_formed w \<Longrightarrow> prepare_of P r w = (w', Inl e) \<Longrightarrow> w' = w"
    and restore_resumes:
      "well_formed w \<Longrightarrow> restore_of P r w = (w', Inr report) \<Longrightarrow>
       suspended w r \<and> suspended w' = (suspended w)(r := False)"
    and restore_atomic:
      "well_formed w \<Longrightarrow> restore_of P r w = (w', Inl e) \<Longrightarrow> w' = w"
begin

lemma prepare_loop_contract:
  assumes "prepare_loop P todo ds reports w = (w', ds', x)" and "well_formed w"
  shows "well_formed w' \<and> retained w' = retained w \<and>
    (\<exists>es fs. ds' = ds @ es \<and> todo = es @ fs \<and>
       (\<forall>r. suspended w' r \<longleftrightarrow> suspended w r \<or> r \<in> snd ` set es) \<and>
       (\<forall>r \<in> snd ` set es. \<not> suspended w r) \<and> distinct (map snd es) \<and>
       (\<forall>reps. x = Inr reps \<longrightarrow> fs = [] \<and> assert_no_io_uring (proc_of P w') (own_pid P) None = Inr ()))"
  using assms
proof (induction todo arbitrary: ds reports w)
  case Nil
  then show ?case by (intro conjI exI [of _ "[]"]) auto
next
  case (Cons p todo)
  obtain name r where p: "p = (name, r)" by force
  obtain w1 y where y: "prepare_of P r w = (w1, y)" by fastforce
  show ?case
  proof (cases y)
    case (Inl e)
    then have "w1 = w" using prepare_atomic [OF Cons.prems(2)] y by simp
    with y Inl Cons.prems p show ?thesis
      by (intro conjI exI [of _ "[]"] exI [of _ "p # todo"]) auto
  next
    case (Inr rep)
    note keeps = prepare_keeps [OF Cons.prems(2) y] and susp = prepare_suspends [OF Cons.prems(2) y [unfolded Inr]]
    have "prepare_loop P todo (ds @ [(name, r)]) (reports @ [named_report name rep]) w1 = (w', ds', x)"
      using Cons.prems(1) y Inr p by simp
    from Cons.IH [OF this] keeps obtain es fs where
      ih: "well_formed w'" "retained w' = retained w1" "ds' = (ds @ [(name, r)]) @ es" "todo = es @ fs"
        "\<forall>r. suspended w' r \<longleftrightarrow> suspended w1 r \<or> r \<in> snd ` set es"
        "\<forall>r \<in> snd ` set es. \<not> suspended w1 r" "distinct (map snd es)"
        "\<forall>reps. x = Inr reps \<longrightarrow> fs = [] \<and> assert_no_io_uring (proc_of P w') (own_pid P) None = Inr ()"
      by blast
    show ?thesis
      using keeps susp ih p by (intro conjI exI [of _ "(name, r) # es"] exI [of _ fs]) (auto split: if_splits)
  qed
qed

lemma rollback_loop_contract:
  assumes "rollback_loop P todo failures w = (w', failures')" and "well_formed w"
  shows "well_formed w' \<and> retained w' = retained w \<and>
    (\<exists>fs. failures' = failures @ fs \<and> (\<forall>r. suspended w' r \<longrightarrow> suspended w r) \<and>
       (\<forall>r. suspended w r \<and> r \<notin> snd ` set todo \<longrightarrow> suspended w' r) \<and>
       (fs = [] \<longrightarrow> (\<forall>r \<in> snd ` set todo. \<not> suspended w' r)))"
  using assms
proof (induction todo arbitrary: failures w)
  case (Cons p todo)
  obtain name r where p: "p = (name, r)" by force
  obtain w1 y where y: "restore_of P r w = (w1, y)" by fastforce
  show ?case
  proof (cases y)
    case (Inl e)
    then have "w1 = w" using restore_atomic [OF Cons.prems(2)] y by simp
    with y Inl Cons.prems p Cons.IH [of "failures @ [name]" w] show ?thesis by force
  next
    case (Inr rep)
    note keeps = restore_keeps [OF Cons.prems(2) y] and susp = restore_resumes [OF Cons.prems(2) y [unfolded Inr]]
    have "rollback_loop P todo failures w1 = (w', failures')" using Cons.prems(1) y Inr p by simp
    from Cons.IH [OF this] keeps susp p show ?thesis by (auto split: if_splits)
  qed
qed simp

lemma restore_loop_contract:
  assumes "restore_loop P todo reports w = (w', x)" and "well_formed w"
  shows "well_formed w' \<and> retained w' = retained w \<and>
    (\<exists>es fs. todo = es @ fs \<and> (\<forall>r \<in> snd ` set es. suspended w r) \<and>
       (\<forall>r. suspended w' r \<longleftrightarrow> suspended w r \<and> r \<notin> snd ` set es) \<and>
       (\<forall>reps. x = Inr reps \<longrightarrow> fs = [] \<and> length reps = length reports + length todo))"
  using assms
proof (induction todo arbitrary: reports w)
  case (Cons p todo)
  obtain name r where p: "p = (name, r)" by force
  obtain w1 y where y: "restore_of P r w = (w1, y)" by fastforce
  show ?case
  proof (cases y)
    case (Inl e)
    then have "w1 = w" using restore_atomic [OF Cons.prems(2)] y by simp
    with y Inl Cons.prems p show ?thesis
      by (intro conjI exI [of _ "[]"] exI [of _ "p # todo"]) auto
  next
    case (Inr rep)
    note keeps = restore_keeps [OF Cons.prems(2) y] and susp = restore_resumes [OF Cons.prems(2) y [unfolded Inr]]
    have "restore_loop P todo (reports @ [named_report name rep]) w1 = (w', x)"
      using Cons.prems(1) y Inr p by simp
    from Cons.IH [OF this] keeps obtain es fs where
      ih: "well_formed w'" "retained w' = retained w1" "todo = es @ fs" "\<forall>r \<in> snd ` set es. suspended w1 r"
        "\<forall>r. suspended w' r \<longleftrightarrow> suspended w1 r \<and> r \<notin> snd ` set es"
        "\<forall>reps. x = Inr reps \<longrightarrow> fs = [] \<and> length reps = length (reports @ [named_report name rep]) + length todo"
      by blast
    show ?thesis
      using keeps susp ih p by (intro conjI exI [of _ "(name, r) # es"] exI [of _ fs]) (auto split: if_splits)
  qed
qed auto

lemma registry_prepare_contract:
  assumes run: "registry_prepare P (reg, w) = ((reg', w'), x)"
    and start: "phase reg = Active" "well_formed w" "\<forall>r. \<not> suspended w r"
  shows "well_formed w' \<and> retained w' = retained w \<and> resources reg' = resources reg \<and>
    (case x of
       Inr _ \<Rightarrow> phase reg' = Prepared \<and> prepared reg' = resources reg \<and>
         (\<forall>r. suspended w' r \<longleftrightarrow> r \<in> snd ` set (resources reg)) \<and>
         assert_no_io_uring (proc_of P w') (own_pid P) None = Inr ()
     | Inl e \<Rightarrow> e = CheckpointResourceError ''checkpoint resource prepare failed'' \<and>
         (phase reg' = Active \<and> (\<forall>r. \<not> suspended w' r) \<or> phase reg' = Failed))"
proof -
  obtain w1 ds y where loop: "prepare_loop P (resources reg) [] [] w = (w1, ds, y)"
    by (cases "prepare_loop P (resources reg) [] [] w") auto
  from prepare_loop_contract [OF loop start(2)] obtain es fs where
    c: "well_formed w1" "retained w1 = retained w" "ds = es" "resources reg = es @ fs"
      "\<forall>r. suspended w1 r \<longleftrightarrow> suspended w r \<or> r \<in> snd ` set es"
      "\<forall>reps. y = Inr reps \<longrightarrow> fs = [] \<and> assert_no_io_uring (proc_of P w1) (own_pid P) None = Inr ()"
    by auto
  show ?thesis
  proof (cases y)
    case (Inr reps)
    with run start(1,3) loop c show ?thesis
      by (auto simp: registry_prepare_def prepare_commit_def Let_def)
  next
    case (Inl e)
    obtain w2 failures where roll: "rollback_loop P (rev ds) [] w1 = (w2, failures)" by fastforce
    from rollback_loop_contract [OF roll c(1)]
    have r: "well_formed w2" "retained w2 = retained w1" "\<forall>r. suspended w2 r \<longrightarrow> suspended w1 r"
      "failures = [] \<longrightarrow> (\<forall>r \<in> snd ` set ds. \<not> suspended w2 r)" by auto
    have eqs: "reg' = prepare_failed failures (reg\<lparr>phase := Preparing\<rparr>)" "w' = w2"
      "x = Inl (CheckpointResourceError ''checkpoint resource prepare failed'')"
      using run start(1) loop Inl roll by (auto simp: registry_prepare_def Let_def)
    show ?thesis
      using r c(2,3,5) start(3) by (auto simp: eqs prepare_failed_def)
  qed
qed

lemma registry_restore_contract:
  assumes run: "registry_restore P (reg, w) = ((reg', w'), x)"
    and start: "phase reg = Prepared" "well_formed w" "\<forall>r. suspended w r \<longleftrightarrow> r \<in> snd ` set (prepared reg)"
  shows "well_formed w' \<and> retained w' = retained w \<and> resources reg' = resources reg \<and>
    (case x of
       Inr _ \<Rightarrow> phase reg' = Active \<and> prepared reg' = [] \<and> (\<forall>r. \<not> suspended w' r)
     | Inl e \<Rightarrow> e = CheckpointResourceError ''checkpoint resource restore failed'' \<and> phase reg' = Failed \<and>
         prepared reg' = prepared reg \<and> (\<forall>r. suspended w' r \<longrightarrow> r \<in> snd ` set (prepared reg)))"
proof -
  obtain w1 y where loop: "restore_loop P (prepared reg) [] w = (w1, y)" by fastforce
  show ?thesis
    using restore_loop_contract [OF loop start(2)] run start(1,3) loop
    by (cases y) (auto simp: registry_restore_def restore_commit_def Let_def)
qed

end

section \<open>Interleaved calls\<close>

text \<open>
  Threads call the registry concurrently; only the critical sections are atomic. An
  activity is a call of \<^verbatim>\<open>prepare\<close> or \<^verbatim>\<open>restore\<close> between its first and its last critical
  section, with its local lists: the resources still to do, those prepared, and the reports
  or rollback failures collected.
\<close>

datatype 'r activity =
    PrepareLoop "(string \<times> 'r) list" "(string \<times> 'r) list" "report list"
  | RollbackLoop "(string \<times> 'r) list" "string list"
  | RestoreLoop "(string \<times> 'r) list" "report list"

type_synonym ('r, 'w) system = "'r registry \<times> 'w \<times> 'r activity multiset"

text \<open>
  The steps that enter the registry. An entry also disappears from the weak dictionary,
  at any time, when its resource is collected; the rest of the process changes the world
  as far as \<open>env\<close> allows.
\<close>

inductive call_step ::
  "('r, 'w) resource_protocol \<Rightarrow> ('w \<Rightarrow> 'w \<Rightarrow> bool) \<Rightarrow> ('r, 'w) system \<Rightarrow> ('r, 'w) system \<Rightarrow> bool"
  for P env where
  register: "registry_register P reg resource kind = (reg', x) \<Longrightarrow> call_step P env (reg, w, A) (reg', w, A)"
| unregister: "call_step P env (reg, w, A) (registry_unregister reg name, w, A)"
| environment: "env w w' \<Longrightarrow> call_step P env (reg, w, A) (reg, w', A)"
| prepare_begin: "phase reg = Active \<Longrightarrow>
    call_step P env (reg, w, A) (reg\<lparr>phase := Preparing\<rparr>, w, add_mset (PrepareLoop (resources reg) [] []) A)"
| restore_begin: "phase reg = Prepared \<Longrightarrow>
    call_step P env (reg, w, A) (reg\<lparr>phase := Restoring\<rparr>, w, add_mset (RestoreLoop (prepared reg) []) A)"

text \<open>The steps of the calls that are under way.\<close>

inductive work_step ::
  "('r, 'w) resource_protocol \<Rightarrow> ('r, 'w) system \<Rightarrow> ('r, 'w) system \<Rightarrow> bool"
  for P where
  prepare_next: "prepare_of P r w = (w', Inr report) \<Longrightarrow>
    work_step P (reg, w, add_mset (PrepareLoop ((name, r) # todo) ds reports) A)
      (reg, w', add_mset (PrepareLoop todo (ds @ [(name, r)]) (reports @ [named_report name report])) A)"
| prepare_raise: "prepare_of P r w = (w', Inl e) \<Longrightarrow>
    work_step P (reg, w, add_mset (PrepareLoop ((name, r) # todo) ds reports) A)
      (reg, w', add_mset (RollbackLoop (rev ds) []) A)"
| prepare_ring: "assert_no_io_uring (proc_of P w) (own_pid P) None = Inl e \<Longrightarrow>
    work_step P (reg, w, add_mset (PrepareLoop [] ds reports) A) (reg, w, add_mset (RollbackLoop (rev ds) []) A)"
| prepare_end: "assert_no_io_uring (proc_of P w) (own_pid P) None = Inr u \<Longrightarrow>
    work_step P (reg, w, add_mset (PrepareLoop [] ds reports) A) (prepare_commit ds reports reg, w, A)"
| rollback_fail: "restore_of P r w = (w', Inl e) \<Longrightarrow>
    work_step P (reg, w, add_mset (RollbackLoop ((name, r) # todo) failures) A)
      (reg, w', add_mset (RollbackLoop todo (failures @ [name])) A)"
| rollback_next: "restore_of P r w = (w', Inr report) \<Longrightarrow>
    work_step P (reg, w, add_mset (RollbackLoop ((name, r) # todo) failures) A)
      (reg, w', add_mset (RollbackLoop todo failures) A)"
| rollback_end: "work_step P (reg, w, add_mset (RollbackLoop [] failures) A) (prepare_failed failures reg, w, A)"
| restore_next: "restore_of P r w = (w', Inr report) \<Longrightarrow>
    work_step P (reg, w, add_mset (RestoreLoop ((name, r) # todo) reports) A)
      (reg, w', add_mset (RestoreLoop todo (reports @ [named_report name report])) A)"
| restore_raise: "restore_of P r w = (w', Inl e) \<Longrightarrow>
    work_step P (reg, w, add_mset (RestoreLoop ((name, r) # todo) reports) A) (reg\<lparr>phase := Failed\<rparr>, w', A)"
| restore_end: "work_step P (reg, w, add_mset (RestoreLoop [] reports) A) (restore_commit reg, w, A)"

inductive registry_reachable ::
  "('r, 'w) resource_protocol \<Rightarrow> ('w \<Rightarrow> 'w \<Rightarrow> bool) \<Rightarrow> 'w \<Rightarrow> ('r, 'w) system \<Rightarrow> bool"
  for P env w0 where
  start: "registry_reachable P env w0 (registry_init, w0, {#})"
| call: "registry_reachable P env w0 s \<Longrightarrow> call_step P env s s' \<Longrightarrow> registry_reachable P env w0 s'"
| work: "registry_reachable P env w0 s \<Longrightarrow> work_step P s s' \<Longrightarrow> registry_reachable P env w0 s'"

section \<open>Names are never reused\<close>

lemma resource_name_inj:
  assumes "resource_name k m = resource_name k' n" "0 \<le> m" "0 \<le> n"
  shows "k = k' \<and> m = n"
proof -
  have suffix: "takeWhile is_digit (rev (resource_name k m)) = rev (nat_digits (nat m))" if "0 \<le> m" for k m
    using that nat_digits_all_digits [of "nat m"]
    by (auto simp: resource_name_def str_int_def takeWhile_append list_all_iff)
  have "nat_digits (nat m) = nat_digits (nat n)"
    using suffix [OF assms(2), of k] suffix [OF assms(3), of k'] assms(1) by simp
  then have "m = n" using assms(2,3) by (auto dest: nat_digits_inj)
  with assms(1) show ?thesis by (simp add: resource_name_def)
qed

definition names_ok :: "'r registry \<Rightarrow> bool" where
  "names_ok reg = (dict_ok (resources reg) \<and> 0 \<le> sequence reg \<and>
     (\<forall>name \<in> fst ` set (resources reg).
        \<exists>kind n. name = resource_name kind n \<and> 0 < n \<and> n \<le> sequence reg))"

lemma fresh_name:
  "names_ok reg \<Longrightarrow> resource_name kind (sequence reg + 1) \<notin> fst ` set (resources reg)"
  unfolding names_ok_def by (auto dest!: bspec resource_name_inj)

section \<open>At most one transaction is under way\<close>

definition threads_ok :: "registry_phase \<Rightarrow> 'r activity multiset \<Rightarrow> bool" where
  "threads_ok ph A =
     (case ph of
        Preparing \<Rightarrow> (\<exists>a. A = {#a#} \<and> (case a of RestoreLoop _ _ \<Rightarrow> False | _ \<Rightarrow> True))
      | Restoring \<Rightarrow> (\<exists>todo reports. A = {#RestoreLoop todo reports#})
      | _ \<Rightarrow> A = {#})"

definition report_ok :: "'r registry \<Rightarrow> bool" where
  "report_ok reg =
     (case phase reg of
        Active \<Rightarrow> reported reg = None \<and> prepared reg = []
      | Preparing \<Rightarrow> reported reg = None \<and> prepared reg = []
      | Failed \<Rightarrow> True
      | _ \<Rightarrow> reported reg \<noteq> None)"

definition registry_inv :: "('r, 'w) system \<Rightarrow> bool" where
  "registry_inv = (\<lambda>(reg, w, A). names_ok reg \<and> threads_ok (phase reg) A \<and> report_ok reg)"

lemmas inv_defs = registry_inv_def threads_ok_def report_ok_def

lemma names_ok_phase [simp]:
  "names_ok (reg\<lparr>phase := ph\<rparr>) = names_ok reg"
  "names_ok (prepare_failed fs reg) = names_ok reg"
  "names_ok (prepare_commit ds reps reg) = names_ok reg"
  "names_ok (restore_commit reg) = names_ok reg"
  by (simp_all add: names_ok_def registry_defs)

lemma names_ok_register:
  assumes "registry_register P reg r kind = (reg', x)" "names_ok reg"
  shows "names_ok reg'"
proof (cases x)
  case (Inr name)
  let ?n = "sequence reg + 1"
  from assms(1) Inr have reg': "reg' = reg\<lparr>sequence := ?n, resources := dict_put (resource_name kind ?n) r (resources reg)\<rparr>"
    by (auto simp: registry_defs Let_def split: if_splits)
  have "\<exists>kd n. name = resource_name kd n \<and> 0 < n \<and> n \<le> ?n"
    if "name \<in> insert (resource_name kind ?n) (fst ` set (resources reg))" for name
    using that
  proof
    assume "name = resource_name kind ?n"
    then show ?thesis using assms(2) by (intro exI [of _ kind] exI [of _ ?n]) (simp add: names_ok_def)
  next
    assume "name \<in> fst ` set (resources reg)"
    with assms(2) obtain kd n where "name = resource_name kd n" "0 < n" "n \<le> sequence reg"
      unfolding names_ok_def by blast
    then show ?thesis by (intro exI [of _ kd] exI [of _ n]) simp
  qed
  then show ?thesis using assms(2) unfolding reg' by (simp add: names_ok_def)
qed (use assms in \<open>auto simp: registry_defs Let_def split: if_splits\<close>)

lemma names_ok_unregister: "names_ok reg \<Longrightarrow> names_ok (registry_unregister reg name)"
  by (auto simp: names_ok_def registry_defs dict_pop_def dict_ok_def dict_keys_def distinct_map inj_on_def)

lemma register_keeps:
  assumes "registry_register P reg r kind = (reg', x)"
  shows "phase reg' = phase reg" "prepared reg' = prepared reg" "reported reg' = reported reg"
  using assms by (auto simp: registry_defs Let_def split: if_splits)

lemma unregister_keeps [simp]:
  "phase (registry_unregister reg name) = phase reg"
  "prepared (registry_unregister reg name) = prepared reg"
  "reported (registry_unregister reg name) = reported reg"
  by (simp_all add: registry_defs)

lemma commit_fields [simp]:
  "phase (prepare_failed fs reg) = (if fs \<noteq> [] then Failed else Active)"
  "prepared (prepare_failed fs reg) = prepared reg" "reported (prepare_failed fs reg) = reported reg"
  "phase (prepare_commit ds reps reg) = Prepared" "prepared (prepare_commit ds reps reg) = ds"
  "reported (prepare_commit ds reps reg) = Some (registry_result ''prepared'' reps)"
  "phase (restore_commit reg) = Active" "prepared (restore_commit reg) = []" "reported (restore_commit reg) = None"
  by (simp_all add: registry_defs)

lemma registry_inv_call:
  "call_step P env s s' \<Longrightarrow> registry_inv s \<Longrightarrow> registry_inv s'"
  by (induction rule: call_step.induct)
    (simp_all add: inv_defs names_ok_register names_ok_unregister register_keeps split: registry_phase.splits)

lemma registry_inv_work:
  "work_step P s s' \<Longrightarrow> registry_inv s \<Longrightarrow> registry_inv s'"
  by (induction rule: work_step.induct)
    (auto simp: inv_defs split: registry_phase.splits)

lemma registry_inv_reachable: "registry_reachable P env w0 s \<Longrightarrow> registry_inv s"
proof (induction rule: registry_reachable.induct)
  case start
  show ?case by (simp add: inv_defs registry_init_def names_ok_def)
qed (auto intro: registry_inv_call registry_inv_work)


definition idle_protocol :: "(nat, unit) resource_protocol" where
  "idle_protocol =
     \<lparr>has_contract = (\<lambda>_. True), prepare_of = (\<lambda>_ w. (w, Inr [])), restore_of = (\<lambda>_ w. (w, Inr [])),
      proc_of = (\<lambda>_ _. \<lparr>fd_entries = Inr [], task_entries = Inr []\<rparr>), own_pid = 1\<rparr>"


section \<open>Every transaction ends\<close>

fun activity_work :: "'r activity \<Rightarrow> nat" where
  "activity_work (PrepareLoop todo ds _) = 2 * length todo + length ds + 2"
| "activity_work (RollbackLoop todo _) = length todo + 1"
| "activity_work (RestoreLoop todo _) = length todo + 1"

definition system_work :: "('r, 'w) system \<Rightarrow> nat" where
  "system_work = (\<lambda>(reg, w, A). sum_mset (image_mset activity_work A))"

lemma work_step_decreases: "work_step P s s' \<Longrightarrow> system_work s' < system_work s"
  by (induction rule: work_step.induct) (simp_all add: system_work_def)

lemma work_step_progress: "a \<in># A \<Longrightarrow> \<exists>s'. work_step P (reg, w, A) s'"
proof -
  assume "a \<in># A"
  then obtain B where A: "A = add_mset a B" by (metis insert_DiffM)
  show ?thesis
  proof (cases a)
    case (PrepareLoop todo ds reps)
    show ?thesis
    proof (cases todo)
      case Nil
      then show ?thesis
        unfolding A PrepareLoop Nil
        by (cases "assert_no_io_uring (proc_of P w) (own_pid P) None") (rule exI, erule prepare_ring prepare_end)+
    next
      case (Cons p todo')
      obtain w' x where "prepare_of P (snd p) w = (w', x)" by fastforce
      then show ?thesis
        unfolding A PrepareLoop Cons using prepare_next prepare_raise by (cases p; cases x) fastforce+
    qed
  next
    case (RollbackLoop todo fs)
    show ?thesis
    proof (cases todo)
      case Nil
      show ?thesis unfolding A RollbackLoop Nil by (rule exI, rule rollback_end)
    next
      case (Cons p todo')
      obtain w' x where "restore_of P (snd p) w = (w', x)" by fastforce
      then show ?thesis
        unfolding A RollbackLoop Cons using rollback_next rollback_fail by (cases p; cases x) fastforce+
    qed
  next
    case (RestoreLoop todo reps)
    show ?thesis
    proof (cases todo)
      case Nil
      show ?thesis unfolding A RestoreLoop Nil by (rule exI, rule restore_end)
    next
      case (Cons p todo')
      obtain w' x where "restore_of P (snd p) w = (w', x)" by fastforce
      then show ?thesis
        unfolding A RestoreLoop Cons using restore_next restore_raise by (cases p; cases x) fastforce+
    qed
  qed
qed

lemma work_run_bound: "(work_step P ^^ k) s s' \<Longrightarrow> system_work s' + k \<le> system_work s"
proof (induction k arbitrary: s')
  case (Suc k)
  then obtain t where "(work_step P ^^ k) s t" "work_step P t s'" by auto
  with Suc.IH [of t] work_step_decreases [of P t s'] show ?case by simp
qed simp

lemma work_run_inv:
  "(work_step P ^^ k) s t \<Longrightarrow> registry_inv s \<Longrightarrow> phase (fst s) \<noteq> Restoring \<Longrightarrow>
   registry_inv t \<and> phase (fst t) \<noteq> Restoring"
proof (induction k arbitrary: t)
  case (Suc k)
  then obtain u where u: "(work_step P ^^ k) s u" "work_step P u t" by auto
  with Suc have "registry_inv u" "phase (fst u) \<noteq> Restoring" by blast+
  moreover from u(2) this(2) have "phase (fst t) \<noteq> Restoring" by cases auto
  ultimately show ?case using u(2) registry_inv_work by blast
qed simp



section \<open>The sequential calls are runs of the interleaved system\<close>

abbreviation registry_run ::
  "('r, 'w) resource_protocol \<Rightarrow> ('w \<Rightarrow> 'w \<Rightarrow> bool) \<Rightarrow> ('r, 'w) system \<Rightarrow> ('r, 'w) system \<Rightarrow> bool" where
  "registry_run P env \<equiv> (\<lambda>s s'. call_step P env s s' \<or> work_step P s s')\<^sup>*\<^sup>*"

lemma run_work: "work_step P s t \<Longrightarrow> registry_run P env t u \<Longrightarrow> registry_run P env s u"
  by (rule converse_rtranclp_into_rtranclp [of _ s t]) simp_all

lemma run_call: "call_step P env s t \<Longrightarrow> registry_run P env t u \<Longrightarrow> registry_run P env s u"
  by (rule converse_rtranclp_into_rtranclp [of _ s t]) simp_all

lemma rollback_loop_run:
  "rollback_loop P todo fs w = (w', fs') \<Longrightarrow>
   registry_run P env (reg, w, {#RollbackLoop todo fs#}) (prepare_failed fs' reg, w', {#})"
proof (induction todo arbitrary: fs w)
  case Nil
  then show ?case using run_work [OF rollback_end rtranclp.rtrancl_refl] by simp
next
  case (Cons p todo)
  obtain name r where p: "p = (name, r)" by force
  obtain w1 y where y: "restore_of P r w = (w1, y)" by fastforce
  show ?case
  proof (cases y)
    case (Inl e)
    have "registry_run P env (reg, w1, {#RollbackLoop todo (fs @ [name])#}) (prepare_failed fs' reg, w', {#})"
      using Cons.prems y Inl p by (intro Cons.IH) simp
    then show ?thesis using run_work [OF rollback_fail [OF y [unfolded Inl]]] unfolding p by blast
  next
    case (Inr rep)
    have "registry_run P env (reg, w1, {#RollbackLoop todo fs#}) (prepare_failed fs' reg, w', {#})"
      using Cons.prems y Inr p by (intro Cons.IH) simp
    then show ?thesis using run_work [OF rollback_next [OF y [unfolded Inr]]] unfolding p by blast
  qed
qed

lemma prepare_loop_run:
  "prepare_loop P todo ds reps w = (w', ds', x) \<Longrightarrow>
   registry_run P env (reg, w, {#PrepareLoop todo ds reps#})
     (case x of
        Inr reps' \<Rightarrow> (prepare_commit ds' reps' reg, w', {#})
      | Inl e \<Rightarrow> (reg, w', {#RollbackLoop (rev ds') []#}))"
proof (induction todo arbitrary: ds reps w)
  case Nil
  then show ?case
    using run_work [OF prepare_end rtranclp.rtrancl_refl] run_work [OF prepare_ring rtranclp.rtrancl_refl]
    by (cases "assert_no_io_uring (proc_of P w) (own_pid P) None") auto
next
  case (Cons p todo)
  obtain name r where p: "p = (name, r)" by force
  obtain w1 y where y: "prepare_of P r w = (w1, y)" by fastforce
  show ?case
  proof (cases y)
    case (Inl e)
    then have "ds' = ds" "w' = w1" "x = Inl e" using Cons.prems y p by auto
    then show ?thesis
      using run_work [OF prepare_raise [OF y [unfolded Inl]] rtranclp.rtrancl_refl] by (simp add: p)
  next
    case (Inr rep)
    then have "prepare_loop P todo (ds @ [(name, r)]) (reps @ [named_report name rep]) w1 = (w', ds', x)"
      using Cons.prems y p by simp
    from Cons.IH [OF this] show ?thesis
      using run_work [OF prepare_next [OF y [unfolded Inr]]] unfolding p by blast
  qed
qed

lemma restore_loop_run:
  "restore_loop P todo reps w = (w', x) \<Longrightarrow>
   registry_run P env (reg, w, {#RestoreLoop todo reps#})
     (case x of Inr _ \<Rightarrow> (restore_commit reg, w', {#}) | Inl e \<Rightarrow> (reg\<lparr>phase := Failed\<rparr>, w', {#}))"
proof (induction todo arbitrary: reps w)
  case Nil
  then show ?case using run_work [OF restore_end rtranclp.rtrancl_refl] by auto
next
  case (Cons p todo)
  obtain name r where p: "p = (name, r)" by force
  obtain w1 y where y: "restore_of P r w = (w1, y)" by fastforce
  show ?case
  proof (cases y)
    case (Inl e)
    then have "w' = w1" "x = Inl e" using Cons.prems y p by auto
    then show ?thesis
      using run_work [OF restore_raise [OF y [unfolded Inl]] rtranclp.rtrancl_refl] by (simp add: p)
  next
    case (Inr rep)
    then have "restore_loop P todo (reps @ [named_report name rep]) w1 = (w', x)"
      using Cons.prems y p by simp
    from Cons.IH [OF this] show ?thesis
      using run_work [OF restore_next [OF y [unfolded Inr]]] unfolding p by blast
  qed
qed


section \<open>What the suspended resources are at every moment\<close>

fun activity_owes :: "('w \<Rightarrow> 'r \<Rightarrow> bool) \<Rightarrow> 'w \<Rightarrow> 'r activity \<Rightarrow> bool" where
  "activity_owes susp w (PrepareLoop todo ds _) =
     (distinct (map snd ds) \<and> (\<forall>r. susp w r \<longleftrightarrow> r \<in> snd ` set ds))"
| "activity_owes susp w (RollbackLoop todo failures) =
     (failures = [] \<longrightarrow> distinct (map snd todo) \<and> (\<forall>r. susp w r \<longleftrightarrow> r \<in> snd ` set todo))"
| "activity_owes susp w (RestoreLoop todo _) =
     (distinct (map snd todo) \<and> (\<forall>r. susp w r \<longleftrightarrow> r \<in> snd ` set todo))"

definition suspension_ok :: "('w \<Rightarrow> 'r \<Rightarrow> bool) \<Rightarrow> ('r, 'w) system \<Rightarrow> bool" where
  "suspension_ok susp = (\<lambda>(reg, w, A).
     (\<forall>a \<in># A. activity_owes susp w a) \<and>
     (phase reg = Active \<longrightarrow> (\<forall>r. \<not> susp w r)) \<and>
     (phase reg = Prepared \<longrightarrow>
        distinct (map snd (prepared reg)) \<and> (\<forall>r. susp w r \<longleftrightarrow> r \<in> snd ` set (prepared reg))))"

context checkpoint_contract
begin

lemma suspension_call:
  assumes "call_step P env s s'" "registry_inv s" "suspension_ok suspended s" "well_formed (fst (snd s))"
    and env: "\<And>w w'. env w w' \<Longrightarrow> well_formed w \<Longrightarrow> well_formed w' \<and> suspended w' = suspended w"
  shows "suspension_ok suspended s' \<and> well_formed (fst (snd s'))"
  using assms(1)
proof cases
  case (register reg resource kind reg' x w A)
  then show ?thesis using assms(3,4) by (simp add: suspension_ok_def register_keeps [OF register(3)])
next
  case (unregister reg w A name)
  then show ?thesis using assms(3,4) by (simp add: suspension_ok_def)
next
  case (environment w w' reg A)
  then have same: "suspended w' = suspended w" "well_formed w'" using env assms(4) by auto
  have "activity_owes suspended w' a = activity_owes suspended w a" for a
    by (cases a) (simp_all add: same)
  then show ?thesis using assms(3) environment same by (simp add: suspension_ok_def)
next
  case (prepare_begin reg w A)
  then show ?thesis using assms(2-4) by (simp add: suspension_ok_def)
next
  case (restore_begin reg w A)
  then show ?thesis using assms(2-4) by (simp add: suspension_ok_def)
qed

lemma single_activity:
  assumes "registry_inv (reg, w, add_mset a A)"
  shows "A = {#}" and "phase reg = (case a of RestoreLoop _ _ \<Rightarrow> Restoring | _ \<Rightarrow> Preparing)"
  using assms by (auto simp: inv_defs split: registry_phase.splits activity.splits)

lemma suspension_single:
  assumes "activity_owes suspended w a" "phase reg = Preparing \<or> phase reg = Restoring"
  shows "suspension_ok suspended (reg, w, {#a#})"
  using assms by (auto simp: suspension_ok_def)

lemma suspension_work:
  assumes "work_step P s s'" "registry_inv s" "suspension_ok suspended s" "well_formed (fst (snd s))"
  shows "suspension_ok suspended s' \<and> well_formed (fst (snd s'))"
  using assms(1)
proof cases
  case (prepare_next r w w' report reg name todo ds reports A)
  note one = single_activity [OF assms(2) [unfolded prepare_next(1)]]
  have wf: "well_formed w" using assms(4) prepare_next(1) by simp
  have "activity_owes suspended w (PrepareLoop ((name, r) # todo) ds reports)"
    using assms(3) prepare_next(1) by (simp add: suspension_ok_def)
  then show ?thesis
    using one prepare_keeps [OF wf prepare_next(3)] prepare_suspends [OF wf prepare_next(3)]
    unfolding prepare_next(2) by (intro conjI) (simp, rule suspension_single, auto)
next
  case (prepare_raise r w w' e reg name todo ds reports A)
  note one = single_activity [OF assms(2) [unfolded prepare_raise(1)]]
  have wf: "well_formed w" using assms(4) prepare_raise(1) by simp
  then have "w' = w" using prepare_raise(3) prepare_atomic by blast
  moreover have "activity_owes suspended w (PrepareLoop ((name, r) # todo) ds reports)"
    using assms(3) prepare_raise(1) by (simp add: suspension_ok_def)
  ultimately show ?thesis
    using one wf unfolding prepare_raise(2)
    by (intro conjI) (simp, rule suspension_single, auto simp: rev_map [symmetric])
next
  case (prepare_ring w e reg ds reports A)
  note one = single_activity [OF assms(2) [unfolded prepare_ring(1)]]
  have "activity_owes suspended w (PrepareLoop [] ds reports)"
    using assms(3) prepare_ring(1) by (simp add: suspension_ok_def)
  then show ?thesis
    using one assms(4) unfolding prepare_ring(1,2)
    by (intro conjI) (simp, rule suspension_single, auto simp: rev_map [symmetric])
next
  case (rollback_fail r w w' e reg name todo failures A)
  note one = single_activity [OF assms(2) [unfolded rollback_fail(1)]]
  have wf: "well_formed w" using assms(4) rollback_fail(1) by simp
  then have "w' = w" using rollback_fail(3) restore_atomic by blast
  then show ?thesis
    using one wf unfolding rollback_fail(2) by (intro conjI) (simp, rule suspension_single, auto)
next
  case (rollback_next r w w' report reg name todo failures A)
  note one = single_activity [OF assms(2) [unfolded rollback_next(1)]]
  have wf: "well_formed w" using assms(4) rollback_next(1) by simp
  have "activity_owes suspended w (RollbackLoop ((name, r) # todo) failures)"
    using assms(3) rollback_next(1) by (simp add: suspension_ok_def)
  then show ?thesis
    using one restore_keeps [OF wf rollback_next(3)] restore_resumes [OF wf rollback_next(3)]
    unfolding rollback_next(2) by (intro conjI) (simp, rule suspension_single, auto)
next
  case (restore_next r w w' report reg name todo reports A)
  note one = single_activity [OF assms(2) [unfolded restore_next(1)]]
  have wf: "well_formed w" using assms(4) restore_next(1) by simp
  have "activity_owes suspended w (RestoreLoop ((name, r) # todo) reports)"
    using assms(3) restore_next(1) by (simp add: suspension_ok_def)
  then show ?thesis
    using one restore_keeps [OF wf restore_next(3)] restore_resumes [OF wf restore_next(3)]
    unfolding restore_next(2) by (intro conjI) (simp, rule suspension_single, auto)
next
  case (restore_raise r w w' e reg name todo reports A)
  note one = single_activity [OF assms(2) [unfolded restore_raise(1)]]
  have wf: "well_formed w" using assms(4) restore_raise(1) by simp
  then have "w' = w" using restore_raise(3) restore_atomic by blast
  with one wf show ?thesis unfolding restore_raise(2) by (simp add: suspension_ok_def)
next
  case (prepare_end w u reg ds reports A)
  note one = single_activity [OF assms(2) [unfolded prepare_end(1)]]
  with assms(3,4) show ?thesis unfolding prepare_end(1,2) by (simp add: suspension_ok_def)
next
  case (rollback_end reg w failures A)
  note one = single_activity [OF assms(2) [unfolded rollback_end(1)]]
  with assms(3,4) show ?thesis unfolding rollback_end(1,2) by (simp add: suspension_ok_def)
next
  case (restore_end reg w reports A)
  note one = single_activity [OF assms(2) [unfolded restore_end(1)]]
  with assms(3,4) show ?thesis unfolding restore_end(1,2) by (simp add: suspension_ok_def)
qed

lemma suspension_reachable:
  assumes "registry_reachable P env w0 s" and "well_formed w0" and "\<forall>r. \<not> suspended w0 r"
    and "\<And>w w'. env w w' \<Longrightarrow> well_formed w \<Longrightarrow> well_formed w' \<and> suspended w' = suspended w"
  shows "suspension_ok suspended s \<and> well_formed (fst (snd s))"
  using assms(1)
proof induction
  case start
  show ?case using assms(2,3) by (simp add: suspension_ok_def registry_init_def)
next
  case (call s s')
  show ?case
    by (rule suspension_call [OF call(2) registry_inv_reachable [OF call(1)] conjunct1 [OF call(3)]
          conjunct2 [OF call(3)] assms(4)])
next
  case (work s s')
  show ?case
    by (rule suspension_work [OF work(2) registry_inv_reachable [OF work(1)] conjunct1 [OF work(3)]
          conjunct2 [OF work(3)]])
qed

end

end
