(* ===== verification/Cold_DiskRow.thy ===== *)
theory Cold_DiskRow
  imports Cold_Checkpoint
begin

text \<open>
  The adapter that suspends B12x disk row readers around a checkpoint
  (\<^verbatim>\<open>coldsnap_b12x_checkpoint.py\<close>) and the worker hooks that call the registry
  (\<^verbatim>\<open>coldsnap_vllm_resources.py\<close>). The B12x package itself is not part of the repository: its
  native reader and the methods the adapter wraps are the fields of \<open>b12x_lib\<close>. The adapter
  is shown to keep the contract of the registry, which gives the registry's guarantees for
  disk row caches.
\<close>

section \<open>Sources\<close>

record row_source =
  src_shard :: int
  src_path :: string
  src_offset :: int
  src_scale :: bool
  src_size :: int

text \<open>\<^verbatim>\<open>os.stat\<close>: whether the path is a regular file, and its size.\<close>

type_synonym stat_fun = "string \<Rightarrow> (bool \<times> int) res"

definition source_record :: "string \<Rightarrow> stat_fun \<Rightarrow> int \<Rightarrow> string \<Rightarrow> int \<Rightarrow> bool \<Rightarrow> row_source res" where
  "source_record cwd stat shard path offset scale =
     (let path = abspath cwd path in
      bind_res (stat path) (\<lambda>(regular, st_size).
        if \<not> regular \<or> offset < 0 \<or> offset \<ge> st_size
        then Inl (CheckpointResourceError ''invalid B12x disk source range'')
        else Inr \<lparr>src_shard = shard, src_path = path, src_offset = offset, src_scale = scale, src_size = st_size\<rparr>))"

definition source_validate :: "string \<Rightarrow> stat_fun \<Rightarrow> row_source \<Rightarrow> unit res" where
  "source_validate cwd stat s =
     bind_res (source_record cwd stat (src_shard s) (src_path s) (src_offset s) (src_scale s)) (\<lambda>now.
       if now \<noteq> s then Inl (CheckpointResourceError ''B12x disk source changed size'') else Inr ())"

section \<open>Caches and their staging tensors\<close>

record row_tensor =
  object_id :: int
  data_ptr :: int
  tensor_shape :: "int list"
  tensor_stride :: "int list"
  tensor_dtype :: string
  tensor_device :: string
  numel :: int
  element_size :: int

definition BUFFER_NAMES :: "string list" where
  "BUFFER_NAMES = [''ids_host'', ''weight'', ''scale'', ''weight_host'', ''scale_host'']"

text \<open>
  The attributes of a \<^verbatim>\<open>DiskRowCache\<close> that the adapter reads or writes. \<open>geometry\<close> are the
  arguments \<^verbatim>\<open>shard_rows\<close> to \<^verbatim>\<open>max_lookups\<close> of its reader; \<open>lock_free\<close> says whether its lock
  can be had within the 30 seconds that preparation waits.
\<close>

record 'n row_cache =
  backend :: string
  gds :: bool
  transaction_thread :: "int option"
  abi_version :: int
  reader :: "'n option"
  frozen :: bool
  cache_sources :: "(bool \<times> int) list"
  cache_used :: bool
  closed :: bool
  lock_free :: bool
  geometry :: "int list"
  tensors :: "string \<Rightarrow> row_tensor option"

definition tensor_identity ::
  "row_tensor \<Rightarrow> int \<times> int \<times> int list \<times> int list \<times> string \<times> string \<times> int" where
  "tensor_identity t =
     (object_id t, data_ptr t, tensor_shape t, tensor_stride t, tensor_dtype t, tensor_device t,
      numel t * element_size t)"

type_synonym buffers =
  "(string \<times> (int \<times> int \<times> int list \<times> int list \<times> string \<times> string \<times> int) option) list"

definition buffer_identity :: "'n row_cache \<Rightarrow> buffers" where
  "buffer_identity c = map (\<lambda>name. (name, map_option tensor_identity (tensors c name))) BUFFER_NAMES"

text \<open>The native reader and the methods of the cache class that the adapter calls.\<close>

record 'n b12x_lib =
  ple_reader :: "int list \<Rightarrow> int \<Rightarrow> 'n res"
  ple_reader_add :: "'n \<Rightarrow> int \<Rightarrow> string \<Rightarrow> int \<Rightarrow> bool \<Rightarrow> 'n res"
  require_complete :: "'n row_cache \<Rightarrow> unit res"
  synchronize :: "'n row_cache \<Rightarrow> unit res"
  original_add :: "'n row_cache \<Rightarrow> int \<Rightarrow> string \<Rightarrow> int \<Rightarrow> bool \<Rightarrow> 'n row_cache \<times> unit res"
  original_close :: "'n row_cache \<Rightarrow> 'n row_cache \<times> unit res"
  working_directory :: string

section \<open>The resource\<close>

datatype row_phase = RowActive | RowPrepared | RowClosed

text \<open>
  \<open>reader_calls\<close> is the \<^verbatim>\<open>_ThreadedReader\<close> that the resource puts in front of the native
  module: \<open>None\<close> when there is none, else whether its executor thread is running.
  \<open>cache_alive\<close> is whether the weak reference still has its cache.
\<close>

record 'n row_resource =
  cache_alive :: bool
  cache :: "'n row_cache"
  queue_depth :: int
  sources :: "((bool \<times> int), row_source) dict"
  saved_buffers :: "buffers option"
  row_phase :: row_phase
  reader_calls :: "bool option"

definition row_init :: "'n row_cache \<Rightarrow> int \<Rightarrow> 'n row_resource" where
  "row_init c depth =
     \<lparr>cache_alive = True, cache = c, queue_depth = depth, sources = [], saved_buffers = None,
      row_phase = RowActive, reader_calls = (if backend c = ''io_uring'' then Some False else None)\<rparr>"

text \<open>\<^verbatim>\<open>_ThreadedReader.ple_reader_run\<close> starts the executor on demand; \<^verbatim>\<open>stop\<close> joins it.\<close>

definition reader_run :: "'n row_resource \<Rightarrow> 'n row_resource" where
  "reader_run s = s\<lparr>reader_calls := map_option (\<lambda>_. True) (reader_calls s)\<rparr>"

definition reader_stop :: "'n row_resource \<Rightarrow> 'n row_resource" where
  "reader_stop s = s\<lparr>reader_calls := map_option (\<lambda>_. False) (reader_calls s)\<rparr>"

definition live_cache :: "'n row_resource \<Rightarrow> 'n row_cache res" where
  "live_cache s =
     (if \<not> cache_alive s \<or> closed (cache s) \<or> row_phase s = RowClosed
      then Inl (CheckpointResourceError ''B12x disk row cache was closed before checkpoint resume'')
      else Inr (cache s))"

definition require_active :: "'n row_resource \<Rightarrow> unit res" where
  "require_active s =
     (if row_phase s \<noteq> RowActive then Inl (CheckpointResourceError ''B12x disk row cache; reads require checkpoint resume'')
      else Inr ())"

definition row_report :: "'n row_resource \<Rightarrow> string \<Rightarrow> report" where
  "row_report s ph =
     [(''kind'', JStr ''b12x-disk-row-cache''), (''backend'', JStr ''io_uring''), (''phase'', JStr ph),
      (''source_ranges'', JInt (int (length (sources s)))),
      (''source_files'', JInt (int (length (remdups (map (src_path \<circ> snd) (sources s)))))),
      (''buffer_addresses_preserved'', JBool True)]"

definition validate_sources :: "'n b12x_lib \<Rightarrow> stat_fun \<Rightarrow> 'n row_resource \<Rightarrow> unit res" where
  "validate_sources L stat s = each_res (source_validate (working_directory L) stat) (map snd (sources s))"

definition prepare_checks :: "'n b12x_lib \<Rightarrow> stat_fun \<Rightarrow> 'n row_resource \<Rightarrow> unit res" where
  "prepare_checks L stat s =
     bind_res (live_cache s) (\<lambda>c.
     if \<not> lock_free c then Inl (CheckpointResourceError ''timed out draining a B12x disk row transaction'')
     else bind_res (require_active s) (\<lambda>_.
     if backend c \<noteq> ''io_uring'' \<or> gds c
       then Inl (CheckpointResourceError ''B12x GDS readers do not yet expose a checkpoint suspension contract'')
     else if transaction_thread c \<noteq> None
       then Inl (CheckpointResourceError ''cannot checkpoint an active B12x disk row transaction'')
     else if abi_version c \<noteq> 1 \<or> reader c = None
       then Inl (CheckpointResourceError ''unsupported B12x disk reader ABI or ownership'')
     else if \<not> frozen c \<or> set (dict_keys (sources s)) \<noteq> set (cache_sources c)
       then Inl (CheckpointResourceError ''B12x disk source registrations are incomplete or mutable'')
     else bind_res (require_complete L c) (\<lambda>_.
     bind_res (validate_sources L stat s) (\<lambda>_.
     if cache_used c then synchronize L c else Inr ()))))"

definition row_prepare :: "'n b12x_lib \<Rightarrow> stat_fun \<Rightarrow> 'n row_resource \<Rightarrow> 'n row_resource \<times> report res" where
  "row_prepare L stat s =
     (case prepare_checks L stat s of
        Inl e \<Rightarrow> (s, Inl e)
      | Inr _ \<Rightarrow>
          let s1 = s\<lparr>saved_buffers := Some (buffer_identity (cache s)), cache := (cache s)\<lparr>reader := None\<rparr>\<rparr> in
          if reader_calls s1 = None then (s1, Inl AssertionErr)
          else let s2 = (reader_stop s1)\<lparr>row_phase := RowPrepared\<rparr> in (s2, Inr (row_report s2 ''prepared'')))"

definition reopen_reader :: "'n b12x_lib \<Rightarrow> 'n row_resource \<Rightarrow> 'n res" where
  "reopen_reader L s =
     bind_res (ple_reader L (geometry (cache s)) (queue_depth s)) (\<lambda>n.
       fold_res (\<lambda>n src. ple_reader_add L n (src_shard src) (src_path src) (src_offset src) (src_scale src)) n
         (map snd (sources s)))"

definition row_restore :: "'n b12x_lib \<Rightarrow> stat_fun \<Rightarrow> 'n row_resource \<Rightarrow> 'n row_resource \<times> report res" where
  "row_restore L stat s =
     (case bind_res (live_cache s) (\<lambda>c.
        if row_phase s \<noteq> RowPrepared \<or> reader c \<noteq> None
          then Inl (CheckpointResourceError ''B12x disk row cache has no suspended reader'')
        else if Some (buffer_identity c) \<noteq> saved_buffers s
          then Inl (CheckpointResourceError ''B12x disk staging tensor identity/address changed across checkpoint'')
        else bind_res (validate_sources L stat s) (\<lambda>_. reopen_reader L s)) of
        Inl e \<Rightarrow> (s, Inl e)
      | Inr n \<Rightarrow>
          let s1 = s\<lparr>cache := (cache s)\<lparr>reader := Some n, cache_used := False\<rparr>, row_phase := RowActive\<rparr>
          in (s1, Inr (row_report s1 ''restored'')))"

section \<open>The wrapped methods\<close>

definition row_close :: "'n b12x_lib \<Rightarrow> 'r registry \<Rightarrow> string \<Rightarrow> 'n row_resource \<Rightarrow> 'n row_resource \<times> 'r registry \<times> unit res" where
  "row_close L reg name s =
     (case original_close L (cache s) of
        (c, Inl e) \<Rightarrow> (s\<lparr>cache := c\<rparr>, reg, Inl e)
      | (c, Inr _) \<Rightarrow>
          ((reader_stop (s\<lparr>cache := c\<rparr>))\<lparr>row_phase := RowClosed\<rparr>, registry_unregister reg name, Inr ()))"

definition row_initialize ::
  "'n b12x_lib \<Rightarrow> ('r, 'w) resource_protocol \<Rightarrow> 'r registry \<Rightarrow> 'r \<Rightarrow> string set \<Rightarrow> 'n row_cache res \<Rightarrow> int \<Rightarrow>
   'r registry \<times> ('n row_resource \<times> string) res" where
  "row_initialize L P reg rid arguments made depth =
     (if arguments \<noteq> {''self'', ''device'', ''max_lookups'', ''table_rows'', ''shard_start'', ''shard_end'',
        ''shard_rows'', ''weight_row_bytes'', ''scale_row_bytes'', ''queue_depth''}
      then (reg, Inl (CheckpointResourceError ''unsupported B12x DiskRowCache constructor contract''))
      else case made of
        Inl e \<Rightarrow> (reg, Inl e)
      | Inr c \<Rightarrow>
          (case registry_register P reg rid ''b12x-disk-row-cache'' of
             (reg', Inl e) \<Rightarrow> (reg', Inl (case original_close L c of (_, Inl e') \<Rightarrow> e' | _ \<Rightarrow> e))
           | (reg', Inr name) \<Rightarrow> (reg', Inr (row_init c depth, name))))"

definition row_add_shard ::
  "'n b12x_lib \<Rightarrow> stat_fun \<Rightarrow> bool \<Rightarrow> 'n row_resource \<Rightarrow> int \<Rightarrow> string \<Rightarrow> int \<Rightarrow> bool \<Rightarrow> 'n row_resource \<times> unit res" where
  "row_add_shard L stat replay s idx path off sc =
     (let rec = source_record (working_directory L) stat idx path off sc; key = (sc, idx) in
      case require_active s of
        Inl e \<Rightarrow> (s, Inl e)
      | Inr _ \<Rightarrow>
          (case (if replay then dict_get (sources s) key else None) of
             Some src \<Rightarrow>
               (s, bind_res rec (\<lambda>now. if src \<noteq> now
                  then Inl (CheckpointResourceError ''recovery changed an immutable B12x disk source registration'')
                  else Inr ()))
           | None \<Rightarrow>
               (case original_add L (cache s) idx path off sc of
                  (c, Inl e) \<Rightarrow> (s\<lparr>cache := c\<rparr>, Inl e)
                | (c, Inr _) \<Rightarrow>
                    if key \<in> set (cache_sources c)
                    then (case rec of
                            Inl e \<Rightarrow> (s\<lparr>cache := c\<rparr>, Inl e)
                          | Inr src \<Rightarrow> (s\<lparr>cache := c, sources := dict_put key src (sources s)\<rparr>, Inr ()))
                    else (s\<lparr>cache := c\<rparr>, Inr ()))))"

text \<open>\<^verbatim>\<open>transaction\<close>, \<^verbatim>\<open>stats\<close> and \<^verbatim>\<open>_require_open\<close>: the wrapped method runs only while active.\<close>

definition row_guarded :: "'n row_resource \<Rightarrow> ('n row_resource \<Rightarrow> 'n row_resource \<times> 'a res) \<Rightarrow> 'n row_resource \<times> 'a res" where
  "row_guarded s original =
     (case require_active s of Inl e \<Rightarrow> (s, Inl e) | Inr _ \<Rightarrow> original s)"

section \<open>Worker hooks\<close>

definition worker_result :: "json \<Rightarrow> report \<Rightarrow> report" where
  "worker_result result rep =
     dict_put ''checkpoint_resources'' (JObj rep) (case result of JObj d \<Rightarrow> d | _ \<Rightarrow> [])"

definition worker_prepare ::
  "('w \<Rightarrow> 'w \<times> json res) \<Rightarrow> ('r, 'w) resource_protocol \<Rightarrow> 'r registry \<times> 'w \<Rightarrow> ('r registry \<times> 'w) \<times> report res" where
  "worker_prepare original P = (\<lambda>(reg, w).
     (case original w of
        (w1, Inl e) \<Rightarrow> ((reg, w1), Inl e)
      | (w1, Inr result) \<Rightarrow>
          (case registry_prepare P (reg, w1) of (s, x) \<Rightarrow> (s, bind_res x (\<lambda>rep. Inr (worker_result result rep))))))"

definition worker_restore ::
  "('w \<Rightarrow> 'w \<times> json res) \<Rightarrow> ('r, 'w) resource_protocol \<Rightarrow> 'r registry \<times> 'w \<Rightarrow> ('r registry \<times> 'w) \<times> report res" where
  "worker_restore original P = (\<lambda>(reg, w).
     (case original w of
        (w1, Inl e) \<Rightarrow> ((reg, w1), Inl e)
      | (w1, Inr result) \<Rightarrow>
          (case registry_restore P (reg, w1) of (s, x) \<Rightarrow> (s, bind_res x (\<lambda>rep. Inr (worker_result result rep))))))"

section \<open>The adapter keeps the contract\<close>

text \<open>The world of the registry: the disk row resources of the process and the files they read.\<close>

record 'n host =
  rows :: "nat \<Rightarrow> 'n row_resource"
  stat_file :: stat_fun

definition on_row ::
  "(stat_fun \<Rightarrow> 'n row_resource \<Rightarrow> 'n row_resource \<times> report res) \<Rightarrow> nat \<Rightarrow> 'n host \<Rightarrow> 'n host \<times> report res" where
  "on_row f r h = (case f (stat_file h) (rows h r) of (s, x) \<Rightarrow> (h\<lparr>rows := (rows h)(r := s)\<rparr>, x))"

definition row_protocol :: "'n b12x_lib \<Rightarrow> ('n host \<Rightarrow> proc) \<Rightarrow> int \<Rightarrow> (nat, 'n host) resource_protocol" where
  "row_protocol L proc pid =
     \<lparr>has_contract = (\<lambda>_. True), prepare_of = on_row (row_prepare L), restore_of = on_row (row_restore L),
      proc_of = proc, own_pid = pid\<rparr>"

definition row_suspended :: "'n host \<Rightarrow> nat \<Rightarrow> bool" where
  "row_suspended h r = (row_phase (rows h r) = RowPrepared)"

text \<open>
  Every resource on io_uring has its threaded reader, and a suspended one has neither a
  native reader nor a running thread.
\<close>

definition row_ok :: "'n row_resource \<Rightarrow> bool" where
  "row_ok s =
     ((backend (cache s) = ''io_uring'' \<longrightarrow> reader_calls s \<noteq> None) \<and>
      (row_phase s = RowPrepared \<longrightarrow> reader (cache s) = None \<and> reader_calls s = Some False))"

definition rows_ok :: "'n host \<Rightarrow> bool" where
  "rows_ok h = (\<forall>r. row_ok (rows h r))"

definition row_retained :: "'n host \<Rightarrow> nat \<Rightarrow> buffers" where
  "row_retained h r = buffer_identity (cache (rows h r))"

lemma prepare_checks_Inr:
  assumes "prepare_checks L stat s = Inr u"
  shows "row_phase s = RowActive" "backend (cache s) = ''io_uring''" "live_cache s = Inr (cache s)"
    "validate_sources L stat s = Inr ()" "reader (cache s) \<noteq> None"
    "set (dict_keys (sources s)) = set (cache_sources (cache s))"
  using assms by (auto simp: prepare_checks_def live_cache_def require_active_def split: if_splits)

lemma row_prepare_Inl: "row_ok s \<Longrightarrow> row_prepare L stat s = (s', Inl e) \<Longrightarrow> s' = s"
  by (auto simp: row_prepare_def Let_def row_ok_def split: sum.splits if_splits dest!: prepare_checks_Inr(2))

lemma row_prepare_Inr:
  assumes "row_prepare L stat s = (s', Inr x)"
  shows "prepare_checks L stat s = Inr ()" "reader_calls s \<noteq> None" "x = row_report s' ''prepared''"
    "s' = s\<lparr>saved_buffers := Some (buffer_identity (cache s)), cache := (cache s)\<lparr>reader := None\<rparr>,
            reader_calls := Some False, row_phase := RowPrepared\<rparr>"
  using assms by (auto simp: row_prepare_def Let_def reader_stop_def split: sum.splits if_splits)

lemma row_restore_Inl: "row_restore L stat s = (s', Inl e) \<Longrightarrow> s' = s"
  by (auto simp: row_restore_def Let_def split: sum.splits)

lemma row_restore_Inr:
  assumes "row_restore L stat s = (s', Inr x)"
  shows "row_phase s = RowPrepared" "Some (buffer_identity (cache s)) = saved_buffers s"
    "\<exists>n. reopen_reader L s = Inr n \<and>
      s' = s\<lparr>cache := (cache s)\<lparr>reader := Some n, cache_used := False\<rparr>, row_phase := RowActive\<rparr>"
  using assms
  by (auto simp: row_restore_def Let_def live_cache_def bind_res_eq_Inl split: sum.splits if_splits)

lemma buffer_identity_reader [simp]:
  "buffer_identity (c\<lparr>reader := n\<rparr>) = buffer_identity c"
  "buffer_identity (c\<lparr>reader := n, cache_used := b\<rparr>) = buffer_identity c"
  by (simp_all add: buffer_identity_def)

lemma row_prepare_ok: "row_ok s \<Longrightarrow> row_prepare L stat s = (s', x) \<Longrightarrow> row_ok s' \<and> buffer_identity (cache s') = buffer_identity (cache s)"
proof (cases x)
  case (Inl e)
  assume "row_ok s" "row_prepare L stat s = (s', x)"
  then show ?thesis using row_prepare_Inl [of s L stat s' e] Inl by simp
next
  case (Inr rep)
  assume "row_ok s" and run: "row_prepare L stat s = (s', x)"
  from row_prepare_Inr(4) [OF run [unfolded Inr]] show ?thesis by (simp add: row_ok_def)
qed

lemma row_restore_ok: "row_ok s \<Longrightarrow> row_restore L stat s = (s', x) \<Longrightarrow> row_ok s' \<and> buffer_identity (cache s') = buffer_identity (cache s)"
proof (cases x)
  case (Inl e)
  assume "row_ok s" "row_restore L stat s = (s', x)"
  then show ?thesis using row_restore_Inl [of L stat s s' e] Inl by simp
next
  case (Inr rep)
  assume "row_ok s" and run: "row_restore L stat s = (s', x)"
  with row_restore_Inr(3) [OF run [unfolded Inr]] show ?thesis by (auto simp: row_ok_def)
qed

lemma on_row_eq:
  "on_row f r h = (h', x) \<longleftrightarrow>
   (\<exists>s. f (stat_file h) (rows h r) = (s, x) \<and> h' = h\<lparr>rows := (rows h)(r := s)\<rparr>)"
  by (auto simp: on_row_def split: prod.splits)

lemma on_row_keeps:
  assumes "\<And>s s' x. row_ok s \<Longrightarrow> f (stat_file h) s = (s', x) \<Longrightarrow>
      row_ok s' \<and> buffer_identity (cache s') = buffer_identity (cache s)"
    and "rows_ok h" "on_row f r h = (h', x)"
  shows "rows_ok h' \<and> row_retained h' = row_retained h"
proof -
  from assms(3) obtain s where s: "f (stat_file h) (rows h r) = (s, x)" "h' = h\<lparr>rows := (rows h)(r := s)\<rparr>"
    by (auto simp: on_row_eq)
  from assms(1) [OF _ s(1)] assms(2) have "row_ok s" "buffer_identity (cache s) = buffer_identity (cache (rows h r))"
    by (auto simp: rows_ok_def)
  with assms(2) show ?thesis by (auto simp: s(2) rows_ok_def row_retained_def fun_eq_iff)
qed

lemma on_row_same: "h\<lparr>rows := (rows h)(r := rows h r)\<rparr> = h"
  by simp

interpretation disk_row: checkpoint_contract "row_protocol L proc pid" row_suspended rows_ok row_retained
  for L :: "'n b12x_lib" and proc pid
proof
  fix h h' :: "'n host" and r x report e
  assume wf: "rows_ok h"
  then have ok: "row_ok (rows h r)" for r by (simp add: rows_ok_def)
  show "prepare_of (row_protocol L proc pid) r h = (h', x) \<Longrightarrow> rows_ok h' \<and> row_retained h' = row_retained h"
    using on_row_keeps [OF row_prepare_ok wf] by (simp add: row_protocol_def)
  show "restore_of (row_protocol L proc pid) r h = (h', x) \<Longrightarrow> rows_ok h' \<and> row_retained h' = row_retained h"
    using on_row_keeps [OF row_restore_ok wf] by (simp add: row_protocol_def)
  show "prepare_of (row_protocol L proc pid) r h = (h', Inl e) \<Longrightarrow> h' = h"
    using row_prepare_Inl [OF ok [of r], of L "stat_file h"] by (auto simp: row_protocol_def on_row_eq)
  show "restore_of (row_protocol L proc pid) r h = (h', Inl e) \<Longrightarrow> h' = h"
    by (auto simp: row_protocol_def on_row_eq dest!: row_restore_Inl)
  show "\<not> row_suspended h r \<and> row_suspended h' = (row_suspended h)(r := True)"
    if "prepare_of (row_protocol L proc pid) r h = (h', Inr report)"
  proof -
    from that obtain s where s: "row_prepare L (stat_file h) (rows h r) = (s, Inr report)"
        "h' = h\<lparr>rows := (rows h)(r := s)\<rparr>" by (auto simp: row_protocol_def on_row_eq)
    from prepare_checks_Inr(1) [OF row_prepare_Inr(1) [OF s(1)]] row_prepare_Inr(4) [OF s(1)]
    show ?thesis by (auto simp: s(2) row_suspended_def fun_eq_iff)
  qed
  show "row_suspended h r \<and> row_suspended h' = (row_suspended h)(r := False)"
    if "restore_of (row_protocol L proc pid) r h = (h', Inr report)"
  proof -
    from that obtain s where s: "row_restore L (stat_file h) (rows h r) = (s, Inr report)"
        "h' = h\<lparr>rows := (rows h)(r := s)\<rparr>" by (auto simp: row_protocol_def on_row_eq)
    from row_restore_Inr(1,3) [OF s(1)] show ?thesis by (auto simp: s(2) row_suspended_def fun_eq_iff)
  qed
qed

section \<open>Suspending and resuming one cache\<close>

text \<open>
  C23: A successful preparation has dropped the native reader and joined its thread. If the
  sources are as they were and the native library accepts them again, restoration succeeds
  and gives back the same cache with a reader that has every source registered in order; if
  a source file changed, or a staging tensor moved, it raises and leaves the cache suspended.
\<close>

theorem row_suspend_resume:
  assumes "row_prepare L stat s = (s1, Inr report)"
  shows "reader (cache s1) = None \<and> reader_calls s1 = Some False \<and>
    (\<forall>n. reopen_reader L s = Inr n \<longrightarrow>
       (let s2 = s\<lparr>saved_buffers := Some (buffer_identity (cache s)), reader_calls := Some False,
                   cache := (cache s)\<lparr>reader := Some n, cache_used := False\<rparr>\<rparr>
        in row_restore L stat s1 = (s2, Inr (row_report s2 ''restored'')))) \<and>
    (\<forall>stat' e. validate_sources L stat' s = Inl e \<longrightarrow> row_restore L stat' s1 = (s1, Inl e)) \<and>
    (\<forall>ts. let s' = s1\<lparr>cache := (cache s1)\<lparr>tensors := ts\<rparr>\<rparr> in
       buffer_identity (cache s') \<noteq> buffer_identity (cache s) \<longrightarrow>
       row_restore L stat s' =
         (s', Inl (CheckpointResourceError ''B12x disk staging tensor identity/address changed across checkpoint'')))"
proof -
  note checks = prepare_checks_Inr [OF row_prepare_Inr(1) [OF assms]] and s1 = row_prepare_Inr(4) [OF assms]
  have live: "cache_alive s" "\<not> closed (cache s)"
    using checks(3) by (auto simp: live_cache_def split: if_splits)
  have valid: "validate_sources L st s1 = validate_sources L st s" for st
    by (simp add: validate_sources_def s1)
  have reopen: "reopen_reader L s1 = reopen_reader L s" by (simp add: reopen_reader_def s1)
  have restored: "row_restore L st s1 =
      (case bind_res (validate_sources L st s) (\<lambda>_. reopen_reader L s) of
         Inl e \<Rightarrow> (s1, Inl e)
       | Inr n \<Rightarrow> let s2 = s1\<lparr>cache := (cache s1)\<lparr>reader := Some n, cache_used := False\<rparr>, row_phase := RowActive\<rparr>
           in (s2, Inr (row_report s2 ''restored'')))" for st
    unfolding row_restore_def valid reopen by (simp add: s1 live live_cache_def)
  have same: "s1\<lparr>cache := (cache s1)\<lparr>reader := Some n, cache_used := False\<rparr>, row_phase := RowActive\<rparr> =
      s\<lparr>saved_buffers := Some (buffer_identity (cache s)), reader_calls := Some False,
        cache := (cache s)\<lparr>reader := Some n, cache_used := False\<rparr>\<rparr>" for n
    using checks(1) by (cases s) (simp add: s1)
  show ?thesis
  proof (intro conjI allI impI)
    show "reader (cache s1) = None" "reader_calls s1 = Some False" by (simp_all add: s1)
    show "let s2 = s\<lparr>saved_buffers := Some (buffer_identity (cache s)), reader_calls := Some False,
                   cache := (cache s)\<lparr>reader := Some n, cache_used := False\<rparr>\<rparr>
        in row_restore L stat s1 = (s2, Inr (row_report s2 ''restored''))" if "reopen_reader L s = Inr n" for n
      using that checks(4) by (simp add: restored same Let_def)
    show "row_restore L stat' s1 = (s1, Inl e)" if "validate_sources L stat' s = Inl e" for stat' e
      using that by (simp add: restored)
    show "let s' = s1\<lparr>cache := (cache s1)\<lparr>tensors := ts\<rparr>\<rparr> in
       buffer_identity (cache s') \<noteq> buffer_identity (cache s) \<longrightarrow>
       row_restore L stat s' =
         (s', Inl (CheckpointResourceError ''B12x disk staging tensor identity/address changed across checkpoint''))"
      for ts
      by (simp add: Let_def row_restore_def s1 live live_cache_def)
  qed
qed

definition demo_native :: "string list b12x_lib" where
  "demo_native =
     \<lparr>ple_reader = (\<lambda>_ _. Inr []), ple_reader_add = (\<lambda>n _ path _ _. Inr (n @ [path])),
      require_complete = (\<lambda>_. Inr ()), synchronize = (\<lambda>_. Inr ()),
      original_add = (\<lambda>c idx _ _ sc. (c\<lparr>cache_sources := (sc, idx) # cache_sources c\<rparr>, Inr ())),
      original_close = (\<lambda>c. (c\<lparr>closed := True\<rparr>, Inr ())), working_directory = ''/''\<rparr>"

definition demo_cache :: "string list row_cache" where
  "demo_cache =
     \<lparr>backend = ''io_uring'', gds = False, transaction_thread = None, abi_version = 1, reader = Some [''/w''],
      frozen = True, cache_sources = [(False, 0)], cache_used = True, closed = False, lock_free = True,
      geometry = [8, 8, 0, 8, 64, 4, 16], tensors = (\<lambda>_. None)\<rparr>"

definition demo_row :: "string list row_resource" where
  "demo_row = (row_init demo_cache 32)
     \<lparr>sources := [((False, 0), \<lparr>src_shard = 0, src_path = ''/w'', src_offset = 0, src_scale = False, src_size = 512\<rparr>)],
      reader_calls := Some True\<rparr>"

definition demo_stat :: stat_fun where
  "demo_stat path = (if path = ''/w'' then Inr (True, 512) else Inl FileNotFoundErr)"

lemmas demo_row_defs = demo_native_def demo_cache_def demo_row_def demo_stat_def row_init_def

lemma demo_sources_valid: "validate_sources demo_native demo_stat demo_row = Inr ()"
  by code_simp

lemma demo_reopen: "reopen_reader demo_native demo_row = Inr [''/w'']"
  by code_simp

lemma demo_checks: "prepare_checks demo_native demo_stat demo_row = Inr ()"
  using demo_sources_valid
  by (simp add: prepare_checks_def demo_row_defs live_cache_def require_active_def dict_keys_def)

lemma demo_prepare:
  "row_prepare demo_native demo_stat demo_row =
     (let s = demo_row\<lparr>saved_buffers := Some (buffer_identity demo_cache), cache := demo_cache\<lparr>reader := None\<rparr>,
            reader_calls := Some False, row_phase := RowPrepared\<rparr>
      in (s, Inr (row_report s ''prepared'')))"
  using demo_checks by (simp add: row_prepare_def Let_def reader_stop_def demo_row_def row_init_def)

theorem row_suspend_resume_witness:
  "snd (row_prepare demo_native demo_stat demo_row) \<noteq> Inl AssertionErr \<and>
   reader (cache (fst (row_restore demo_native demo_stat (fst (row_prepare demo_native demo_stat demo_row))))) =
     Some [''/w'']"
  using row_suspend_resume [OF demo_prepare [unfolded Let_def]] demo_reopen
  by (simp add: demo_prepare Let_def)

section \<open>Worker checkpoints over disk row caches\<close>

text \<open>
  C11: When the worker's \<^verbatim>\<open>checkpoint_prepare\<close> returns, every registered cache has no native
  reader and no reader thread, the process shows no io_uring descriptor or worker, the
  staging buffers are where they were, and the report is part of the answer. When it raises
  and the registry is still active, no cache is left suspended.
\<close>

theorem worker_prepare_safe:
  fixes L :: "'n b12x_lib"
  assumes run: "worker_prepare original (row_protocol L proc pid) (reg, h) = ((reg', h'), x)"
    and start: "phase reg = Active" "original h = (h1, Inr result)" "rows_ok h1" "\<forall>r. \<not> row_suspended h1 r"
  shows "row_retained h' = row_retained h1 \<and>
    (case x of
       Inr answer \<Rightarrow> phase reg' = Prepared \<and> pid_clean (proc h' pid) \<and>
         dict_get answer ''checkpoint_resources'' \<noteq> None \<and>
         (\<forall>r \<in> snd ` set (resources reg).
            reader (cache (rows h' r)) = None \<and> reader_calls (rows h' r) = Some False)
     | Inl e \<Rightarrow> phase reg' = Failed \<or> phase reg' = Active \<and> (\<forall>r. \<not> row_suspended h' r))"
proof -
  let ?P = "row_protocol L proc pid"
  obtain y where reg: "registry_prepare ?P (reg, h1) = ((reg', h'), y)"
      and x: "x = bind_res y (\<lambda>rep. Inr (worker_result result rep))"
    using run start(2) by (auto simp: worker_prepare_def split: prod.splits)
  note c = disk_row.registry_prepare_contract [OF reg start(1,3,4)]
  show ?thesis
  proof (cases y)
    case (Inl e)
    with c show ?thesis by (auto simp: x)
  next
    case (Inr rep)
    have "rows_ok h'" "\<forall>r. row_suspended h' r \<longleftrightarrow> r \<in> snd ` set (resources reg)" using c Inr by auto
    then have "\<forall>r \<in> snd ` set (resources reg). reader (cache (rows h' r)) = None \<and> reader_calls (rows h' r) = Some False"
      by (simp add: rows_ok_def row_ok_def row_suspended_def)
    moreover have "pid_clean (proc h' pid)"
      using c Inr assert_no_io_uring_iff [of "proc h'" pid None] by (simp add: row_protocol_def)
    ultimately show ?thesis using c Inr by (simp add: x worker_result_def)
  qed
qed

definition demo_host :: "string list host" where
  "demo_host = \<lparr>rows = (\<lambda>_. demo_row), stat_file = demo_stat\<rparr>"

definition quiet_proc :: "string list host \<Rightarrow> proc" where
  "quiet_proc h pid = \<lparr>fd_entries = Inr [(''0'', Inr ''/dev/null'')], task_entries = Inr [(''7'', Inr ''python'')]\<rparr>"

definition demo_registry :: "nat registry" where
  "demo_registry = registry_init\<lparr>sequence := 1, resources := [(''b12x-disk-row-cache-1'', 0)]\<rparr>"

lemma demo_host_start: "rows_ok demo_host" "\<forall>r. \<not> row_suspended demo_host r"
  by (simp_all add: rows_ok_def row_ok_def row_suspended_def demo_host_def demo_row_def row_init_def)

lemma quiet_proc_clean: "assert_no_io_uring (quiet_proc h) pid None = Inr ()"
  by (simp add: assert_no_io_uring_iff pid_clean_def entries_clean_def quiet_proc_def is_ring_link_def
      is_ring_thread_def starts_with_def py_strip_def is_space_def)

theorem worker_prepare_safe_witness:
  "\<exists>reg' h' answer. worker_prepare (\<lambda>h. (h, Inr JNull)) (row_protocol demo_native quiet_proc 7)
     (demo_registry, demo_host) = ((reg', h'), Inr answer) \<and> reader (cache (rows h' 0)) = None"
proof -
  let ?run = "worker_prepare (\<lambda>h. (h, Inr JNull)) (row_protocol demo_native quiet_proc 7) (demo_registry, demo_host)"
  obtain reg' h' x where run: "?run = ((reg', h'), x)" by (metis prod.exhaust)
  have "\<exists>answer. snd ?run = Inr answer"
    using demo_prepare
    by (simp add: worker_prepare_def registry_prepare_def demo_registry_def registry_init_def row_protocol_def
        on_row_def demo_host_def Let_def quiet_proc_clean)
  with run obtain answer where x: "x = Inr answer" by auto
  from worker_prepare_safe [OF run, of demo_host JNull] demo_host_start x
  have "reader (cache (rows h' 0)) = None"
    by (simp add: demo_registry_def registry_init_def)
  with run x show ?thesis by blast
qed



end
