(* ===== verification/Cold_Coord.thy ===== *)
theory Cold_Coord
  imports Cold_Json
begin

text \<open>
  The Python client of the activation coordinator (\<^verbatim>\<open>runtime/shared/coldsnap_coord.py\<close>): the
  endpoint text, the binary request and response frames, the receive loop over a stream
  that arrives in arbitrary segments, and the client operations. \<open>round(timeout * 1000)\<close> is
  the parameter \<open>millis\<close>, the network is a state-passing parameter \<open>net\<close>.
\<close>

named_theorems frame_simps "encoding and decoding of frames"

section \<open>Bytes of text and of numbers\<close>

definition utf8_char :: "char \<Rightarrow> byte list" where
  "utf8_char c =
     (let n = code c in
      if n < 128 then [of_nat n] else [of_nat (192 + n div 64), of_nat (128 + n mod 64)])"

definition utf8_encode :: "string \<Rightarrow> byte list" where
  "utf8_encode s = concat (map utf8_char s)"

text \<open>\<^verbatim>\<open>struct\<close> with network byte order: an unsigned field of \<open>w\<close> bytes.\<close>

fun be_bytes :: "nat \<Rightarrow> nat \<Rightarrow> byte list" where
  "be_bytes 0 n = []"
| "be_bytes (Suc w) n = be_bytes w (n div 256) @ [of_nat (n mod 256)]"

definition from_be :: "byte list \<Rightarrow> nat" where
  "from_be bs = foldl (\<lambda>a b. 256 * a + unat b) 0 bs"

definition pack_field :: "nat \<times> int \<Rightarrow> byte list res" where
  "pack_field f =
     (case f of (w, n) \<Rightarrow> if 0 \<le> n \<and> n < 256 ^ w then Inr (be_bytes w (nat n)) else Inl StructErr)"

definition pack_fields :: "(nat \<times> int) list \<Rightarrow> byte list res" where
  "pack_fields fs = bind_res (traverse pack_field fs) (\<lambda>ps. Inr (concat ps))"

section \<open>Constants\<close>

definition MAGIC :: "byte list" where
  "MAGIC = ascii_bytes ''CSKV''"

definition VERSION :: nat where
  "VERSION = 1"

definition MAX_VALUE :: nat where
  "MAX_VALUE = 16 * 1024 ^ 2"

definition RESPONSE_SIZE :: nat where
  "RESPONSE_SIZE = 12"

datatype operation = OpSet | OpGet | OpDelete | OpHealth | OpAdd | OpAppend

fun op_code :: "operation \<Rightarrow> nat" where
  "op_code OpSet = 1" | "op_code OpGet = 2" | "op_code OpDelete = 3"
| "op_code OpHealth = 4" | "op_code OpAdd = 5" | "op_code OpAppend = 6"

section \<open>Endpoints\<close>

record endpoint =
  address :: string
  scope :: string
  token :: string

definition endpoint_parse :: "string \<Rightarrow> endpoint res" where
  "endpoint_parse text =
     (case split_ws text of
        [format, a, s, t] \<Rightarrow>
          if format \<noteq> ''coldsnap-coord-v1'' then Inl (ValueError ''invalid coordinator endpoint'')
          else if list_ex (\<lambda>f. f = [] \<or> list_ex is_space f) [a, s, t]
            then Inl (ValueError ''coordinator endpoint fields must not contain whitespace'')
          else Inr \<lparr>address = a, scope = s, token = t\<rparr>
      | _ \<Rightarrow> Inl (ValueError ''invalid coordinator endpoint''))"

text \<open>The file is given by its size when it was inspected and the bytes read afterwards.\<close>

definition endpoint_read :: "int res \<Rightarrow> byte list res \<Rightarrow> endpoint res" where
  "endpoint_read st_size contents =
     bind_res st_size (\<lambda>n.
       if n > 16 * 1024 then Inl (ValueError ''coordinator endpoint is too large'')
       else bind_res contents (\<lambda>bs. bind_res (utf8_decode bs) endpoint_parse))"

text \<open>\<open>rpartition sep s\<close>: the text before the last occurrence of \<open>sep\<close>, whether there is one, and the text after.\<close>

fun rpartition_from :: "nat \<Rightarrow> string \<Rightarrow> string \<Rightarrow> (string \<times> string) option" where
  "rpartition_from 0 sep s = (if starts_with s sep then Some ([], drop (length sep) s) else None)"
| "rpartition_from (Suc i) sep s =
     (if starts_with (drop (Suc i) s) sep then Some (take (Suc i) s, drop (Suc i + length sep) s)
      else rpartition_from i sep s)"

definition rpartition :: "string \<Rightarrow> string \<Rightarrow> (string \<times> string) option" where
  "rpartition sep s = rpartition_from (length s) sep s"

definition split_address :: "string \<Rightarrow> (string \<times> int) res" where
  "split_address text =
     (case (if starts_with text ''['' then rpartition '']:'' (tl text) else rpartition '':'' text) of
        None \<Rightarrow> Inl (ValueError ''invalid coordinator address'')
      | Some (host, port_text) \<Rightarrow>
          if host = [] \<or> port_text = [] \<or> \<not> list_all is_digit port_text
          then Inl (ValueError ''invalid coordinator address'')
          else let port = int (digits_val port_text) in
            if \<not> (0 < port \<and> port < 65536) then Inl (ValueError ''invalid coordinator port'')
            else Inr (host, port))"

section \<open>Requests\<close>

definition scoped_key :: "endpoint \<Rightarrow> string \<Rightarrow> byte list" where
  "scoped_key ep key = (if key \<noteq> [] then utf8_encode (scope ep @ ''/'' @ key) else [])"

definition encode_request ::
  "(rat \<Rightarrow> int) \<Rightarrow> endpoint \<Rightarrow> operation \<Rightarrow> string \<Rightarrow> byte list \<Rightarrow> rat \<Rightarrow> byte list res" where
  "encode_request millis ep op key val timeout =
     (if timeout < 0 \<or> timeout > 4294967295 / 1000 then Inl (ValueError ''coordinator timeout is out of range'')
      else let tok = utf8_encode (token ep); skey = scoped_key ep key;
               total = length tok + length skey + length val in
        if length skey > 64 * 1024 \<or> length val > MAX_VALUE \<or> total > 0xFFFFFFFF
        then Inl (ValueError ''coordinator request exceeds configured limit'')
        else bind_res (pack_fields
            [(1, int VERSION), (1, int (op_code op)), (2, 0), (4, millis timeout),
             (4, int (length tok)), (4, int (length skey)), (4, int (length val)), (4, int total)])
          (\<lambda>fields. Inr (MAGIC @ fields @ tok @ skey @ val)))"

section \<open>Receiving\<close>

text \<open>
  A connection yields segments, or an exception; an empty read means that the peer closed.
  \<^verbatim>\<open>recv(n)\<close> returns at most \<open>n\<close> bytes of the next segment.
\<close>

type_synonym connection = "byte list res list"

fun recv :: "nat \<Rightarrow> connection \<Rightarrow> byte list res \<times> connection" where
  "recv n [] = (Inr [], [])"
| "recv n (Inl e # cs) = (Inl e, cs)"
| "recv n (Inr b # cs) = (Inr (take n b), if length b \<le> n then cs else Inr (drop n b) # cs)"

function recv_exact :: "nat \<Rightarrow> connection \<Rightarrow> byte list res \<times> connection" where
  "recv_exact remaining conn =
     (if remaining = 0 then (Inr [], conn)
      else case recv remaining conn of
        (Inl e, conn') \<Rightarrow> (Inl e, conn')
      | (Inr chunk, conn') \<Rightarrow>
          if chunk = [] then (Inl (ConnectionErr ''coordinator closed an incomplete response''), conn')
          else (case recv_exact (remaining - length chunk) conn' of
                  (x, conn'') \<Rightarrow> (bind_res x (\<lambda>rest. Inr (chunk @ rest)), conn'')))"
  by pat_completeness auto
termination
  by (relation "measure fst") auto

declare recv_exact.simps [simp del]

section \<open>Responses\<close>

definition status_result :: "nat \<Rightarrow> byte list \<Rightarrow> byte list res" where
  "status_result status body =
     (if status = 0 then Inr body
      else if status = 1 then Inl (CoordinatorNotFound '''')
      else if status = 4 then Inl (TimeoutErr ''timed out waiting for coordinator key'')
      else if status = 2 then Inl (PermissionErr ''coordinator authentication failed'')
      else if status = 3 then Inl (CoordinatorError ''coordinator invalid request'')
      else if status = 5 then Inl (CoordinatorError ''coordinator request too large'')
      else Inl (CoordinatorError ''coordinator request failed''))"

definition read_reply :: "connection \<Rightarrow> byte list res" where
  "read_reply conn =
     (case recv_exact RESPONSE_SIZE conn of
        (Inl e, _) \<Rightarrow> Inl e
      | (Inr h, conn') \<Rightarrow>
          if take 4 h \<noteq> MAGIC \<or> from_be (take 1 (drop 4 h)) \<noteq> VERSION
            then Inl (CoordinatorError ''unsupported coordinator response'')
          else let status = from_be (take 1 (drop 5 h)); value_length = from_be (take 4 (drop 8 h)) in
            if value_length > MAX_VALUE
              then Inl (CoordinatorError ''coordinator response exceeds configured limit'')
            else bind_res (fst (recv_exact value_length conn')) (status_result status))"

definition client_request ::
  "(rat \<Rightarrow> int) \<Rightarrow> (string \<times> int \<Rightarrow> byte list \<Rightarrow> 's \<Rightarrow> 's \<times> connection res) \<Rightarrow> endpoint \<Rightarrow>
   operation \<Rightarrow> string \<Rightarrow> byte list \<Rightarrow> rat \<Rightarrow> 's \<Rightarrow> 's \<times> byte list res" where
  "client_request millis net ep op key val timeout s =
     (case bind_res (encode_request millis ep op key val timeout) (\<lambda>request.
             bind_res (split_address (address ep)) (\<lambda>peer. Inr (request, peer))) of
        Inl e \<Rightarrow> (s, Inl e)
      | Inr (request, peer) \<Rightarrow>
          (case net peer request s of (s', conn) \<Rightarrow> (s', bind_res conn read_reply)))"

definition client_health where
  "client_health millis net ep s = client_request millis net ep OpHealth [] [] 0 s"

definition client_set where
  "client_set millis net ep key val s = client_request millis net ep OpSet key val 0 s"

definition client_get where
  "client_get millis net ep key wait s = client_request millis net ep OpGet key [] wait s"

definition client_delete where
  "client_delete millis net ep key s = client_request millis net ep OpDelete key [] 0 s"

definition client_append where
  "client_append millis net ep key val s = client_request millis net ep OpAppend key val 0 s"

definition client_add where
  "client_add millis net ep key amount s =
     (case client_request millis net ep OpAdd key (utf8_encode (str_int amount)) 0 s of
        (s', x) \<Rightarrow> (s', bind_res x (\<lambda>body. bind_res (utf8_decode body)
           (\<lambda>t. opt_res (ValueError ''invalid literal for int() with base 10'') (py_int t)))))"

definition client_wait where
  "client_wait millis net ep key timeout s =
     (case client_get millis net ep key timeout s of (s', x) \<Rightarrow> (s', bind_res x utf8_decode))"

lemmas client_ops = client_health_def client_set_def client_get_def client_delete_def
  client_append_def client_add_def client_wait_def

section \<open>Encodings read back\<close>

lemma length_be_bytes [simp]: "length (be_bytes w n) = w"
  by (induction w arbitrary: n) simp_all

lemma from_be_be_bytes [frame_simps]: "n < 256 ^ w \<Longrightarrow> from_be (be_bytes w n) = n"
proof (induction w arbitrary: n)
  case (Suc w)
  then have "from_be (be_bytes w (n div 256)) = n div 256" by (intro Suc.IH) (simp add: less_mult_imp_div_less)
  then show ?case by (simp add: from_be_def unat_of_nat)
qed (simp add: from_be_def)

lemma pack_field_eq: "n < 256 ^ w \<Longrightarrow> pack_field (w, int n) = Inr (be_bytes w n)"
  by (simp add: pack_field_def nat_less_iff zless_nat_eq_int_zless)

lemma utf8_decode_cons:
  "utf8_decode (utf8_char c @ bs) = bind_res (utf8_decode bs) (\<lambda>s. Inr (c # s))"
proof (cases "code c < 128")
  case True
  then have "utf8_char c = [of_nat (code c)]" by (simp add: utf8_char_def)
  with True char_of_byte [OF True] show ?thesis by (cases bs) simp_all
next
  case False
  let ?n = "code c"
  let ?b = "of_nat (192 + ?n div 64) :: byte" and ?d = "of_nat (128 + ?n mod 64) :: byte"
  have n: "?n < 256" by simp
  have hi: "unat ?b = 192 + ?n div 64" and lo: "unat ?d = 128 + ?n mod 64"
    using n less_mult_imp_div_less [of ?n 4 64]
    by (simp_all only: unat_of_nat) (auto simp: mod_less)
  have "?n div 64 = 2 \<or> ?n div 64 = 3" using n False by linarith
  then have "?b = 0xC2 \<or> ?b = 0xC3" "\<not> ?b < 128" by (auto simp: word_less_nat_alt)
  moreover have "0x80 \<le> ?d" "?d < 0xC0" by (simp_all add: word_le_nat_alt word_less_nat_alt lo del: of_nat_add)
  moreover have "char_of ((unat ?b - 192) * 64 + (unat ?d - 128)) = c"
    unfolding hi lo by (simp add: mult.commute)
  moreover have "utf8_char c = [?b, ?d]" using False by (simp add: utf8_char_def Let_def)
  ultimately show ?thesis by (simp del: of_nat_add of_nat_numeral)
qed

lemma utf8_roundtrip [frame_simps]: "utf8_decode (utf8_encode s) = Inr s"
  by (induction s) (simp_all add: utf8_encode_def utf8_decode_cons)

lemma utf8_encode_inj: "utf8_encode s = utf8_encode t \<Longrightarrow> s = t"
  by (metis utf8_roundtrip sum.inject(2))

lemma utf8_encode_append [simp]: "utf8_encode (s @ t) = utf8_encode s @ utf8_encode t"
  by (simp add: utf8_encode_def)

lemma length_utf8_encode: "length s \<le> length (utf8_encode s)"
  by (induction s) (simp_all add: utf8_encode_def utf8_char_def Let_def)

lemma utf8_encode_Nil_iff [simp]: "utf8_encode s = [] \<longleftrightarrow> s = []"
proof
  assume "utf8_encode s = []"
  with length_utf8_encode [of s] show "s = []" by simp
qed (simp add: utf8_encode_def)

section \<open>The receive loop\<close>

text \<open>A stream whose segments carry the bytes \<open>bs\<close> before it ends.\<close>

definition carries :: "connection \<Rightarrow> byte list \<Rightarrow> bool" where
  "carries conn bs = (\<exists>segs. conn = map Inr segs \<and> [] \<notin> set segs \<and> concat segs = bs)"

lemma carries_Nil [simp]: "carries conn [] \<longleftrightarrow> conn = []"
proof
  assume "carries conn []"
  then obtain segs where "conn = map Inr segs" "[] \<notin> set segs" "concat segs = []" by (auto simp: carries_def)
  then show "conn = []" by (cases segs) auto
qed (simp add: carries_def)

lemma carries_Cons: "carries conn bs \<Longrightarrow> bs \<noteq> [] \<Longrightarrow>
  \<exists>seg conn' bs'. conn = Inr seg # conn' \<and> seg \<noteq> [] \<and> bs = seg @ bs' \<and> carries conn' bs'"
proof -
  assume "carries conn bs" and ne: "bs \<noteq> []"
  then obtain segs where s: "conn = map Inr segs" "[] \<notin> set segs" "concat segs = bs" by (auto simp: carries_def)
  with ne obtain seg segs' where segs: "segs = seg # segs'" by (cases segs) auto
  then have "carries (map Inr segs') (concat segs')" using s(2) by (auto simp: carries_def)
  with s segs show ?thesis by (intro exI [of _ seg] exI [of _ "map Inr segs'"] exI [of _ "concat segs'"]) auto
qed

lemma carries_insert: "carries conn bs \<Longrightarrow> seg \<noteq> [] \<Longrightarrow> carries (Inr seg # conn) (seg @ bs)"
  unfolding carries_def
proof (elim exE conjE)
  fix segs
  assume "seg \<noteq> []" "conn = map Inr segs" "[] \<notin> set segs" "concat segs = bs"
  then show "\<exists>segs. Inr seg # conn = map Inr segs \<and> [] \<notin> set segs \<and> concat segs = seg @ bs"
    by (intro exI [of _ "seg # segs"]) auto
qed

lemma recv_exact_carries:
  assumes "carries conn bs" "n \<le> length bs"
  shows "\<exists>conn'. recv_exact n conn = (Inr (take n bs), conn') \<and> carries conn' (drop n bs)"
  using assms
proof (induction n arbitrary: conn bs rule: less_induct)
  case (less n)
  show ?case
  proof (cases "n = 0")
    case True
    with less.prems show ?thesis by (simp add: recv_exact.simps)
  next
    case False
    with less.prems(2) have "bs \<noteq> []" by auto
    with less.prems(1) obtain seg cs bs' where
      c: "conn = Inr seg # cs" "seg \<noteq> []" "bs = seg @ bs'" "carries cs bs'" using carries_Cons by blast
    show ?thesis
    proof (cases "length seg \<le> n")
      case True
      have "n - length seg < n" using c(2) False by (cases seg) auto
      moreover have "n - length seg \<le> length bs'" using less.prems(2) c(3) by simp
      ultimately obtain conn' where
        "recv_exact (n - length seg) cs = (Inr (take (n - length seg) bs'), conn')"
        "carries conn' (drop (n - length seg) bs')" using less.IH [OF _ c(4)] by blast
      with True False c show ?thesis by (subst recv_exact.simps) simp
    next
      case le: False
      have "carries (Inr (drop n seg) # cs) (drop n seg @ bs')"
        using carries_insert [OF c(4)] le by simp
      moreover have "recv_exact 0 (Inr (drop n seg) # cs) = (Inr [], Inr (drop n seg) # cs)"
        by (simp add: recv_exact.simps)
      ultimately show ?thesis using le False c by (subst recv_exact.simps) (simp add: min_def)
    qed
  qed
qed

lemma recv_exact_short:
  assumes "carries conn bs" "length bs < n"
  shows "fst (recv_exact n conn) = Inl (ConnectionErr ''coordinator closed an incomplete response'')"
  using assms
proof (induction n arbitrary: conn bs rule: less_induct)
  case (less n)
  show ?case
  proof (cases "bs = []")
    case True
    with less.prems show ?thesis by (subst recv_exact.simps) simp
  next
    case False
    with less.prems(1) obtain seg cs bs' where
      c: "conn = Inr seg # cs" "seg \<noteq> []" "bs = seg @ bs'" "carries cs bs'" using carries_Cons by blast
    have "n - length seg < n" using c(2) less.prems(2) by (cases seg) auto
    from less.IH [OF this c(4)] less.prems(2) c show ?thesis
      by (subst recv_exact.simps) (auto split: prod.splits)
  qed
qed

text \<open>
  C22: The receive loop returns for every stream and every length. What it returns does not
  depend on how the bytes are cut into segments: the first \<open>n\<close> bytes when the peer sent that
  many before closing, and a connection error when it sent fewer.
\<close>

theorem recv_exact_segments:
  assumes "carries conn bs"
  shows "fst (recv_exact n conn) =
    (if n \<le> length bs then Inr (take n bs)
     else Inl (ConnectionErr ''coordinator closed an incomplete response''))"
  using recv_exact_carries [OF assms, of n] recv_exact_short [OF assms, of n] by auto

theorem recv_exact_segments_witness:
  "carries [Inr [1], Inr [2, 3]] [1, 2, 3 :: byte] \<and>
   fst (recv_exact 2 [Inr [1], Inr [2, 3]]) = Inr [1, 2] \<and>
   fst (recv_exact 4 [Inr [1], Inr [2, 3]]) = Inl (ConnectionErr ''coordinator closed an incomplete response'')"
proof -
  have c: "carries [Inr [1], Inr [2, 3]] [1, 2, 3 :: byte]"
    unfolding carries_def by (intro exI [of _ "[[1], [2, 3]]"]) simp
  from recv_exact_segments [OF c, of 2] recv_exact_segments [OF c, of 4] c show ?thesis by simp
qed

end
