(* ===== verification/Cold_Coordinator.thy ===== *)
theory Cold_Coordinator
  imports Cold_Coord
begin

text \<open>
  The coordinator itself (\<^verbatim>\<open>internal/coord/protocol.go\<close>, \<^verbatim>\<open>server.go\<close>, \<^verbatim>\<open>endpoint.go\<close>) and its
  composition with the Python client: the frames one side writes are the frames the other
  side reads, and the client's operations are the operations of a map from keys to values.
\<close>

section \<open>Frames\<close>

definition DefaultMaxKey :: nat where
  "DefaultMaxKey = 65536"

definition DefaultMaxValue :: nat where
  "DefaultMaxValue = 16777216"

record kv_request =
  req_operation :: nat
  req_timeout :: nat
  req_token :: "byte list"
  req_key :: "byte list"
  req_value :: "byte list"

record kv_response =
  rsp_status :: nat
  rsp_value :: "byte list"

datatype go_error = ErrTooLarge | GoErr string

text \<open>\<open>field h i n\<close> is the big-endian number in \<open>header[i : i+n]\<close>.\<close>

definition field :: "byte list \<Rightarrow> nat \<Rightarrow> nat \<Rightarrow> nat" where
  "field h i n = from_be (take n (drop i h))"

text \<open>The stream is what the peer sends before it closes its side; reading past it is an error.\<close>

definition read_request :: "nat \<Rightarrow> nat \<Rightarrow> byte list \<Rightarrow> go_error + kv_request" where
  "read_request maxKey maxValue stream =
     (let h = take 28 stream in
      if length h < 28 then Inl (GoErr ''unexpected EOF'')
      else if take 4 h \<noteq> MAGIC \<or> field h 4 1 \<noteq> 1 then Inl (GoErr ''unsupported coordinator protocol'')
      else let tokenLength = field h 12 4; keyLength = field h 16 4; valueLength = field h 20 4;
               totalLength = field h 24 4 in
        if tokenLength < 1 \<or> totalLength \<noteq> tokenLength + keyLength + valueLength
          then Inl (GoErr ''invalid coordinator request lengths'')
        else if keyLength > maxKey \<or> valueLength > maxValue \<or> totalLength > maxKey + maxValue + 4096
          then Inl ErrTooLarge
        else let payload = take totalLength (drop 28 stream) in
          if length payload < totalLength then Inl (GoErr ''unexpected EOF'')
          else Inr \<lparr>req_operation = field h 5 1, req_timeout = field h 8 4, req_token = take tokenLength payload,
                    req_key = take keyLength (drop tokenLength payload),
                    req_value = drop (tokenLength + keyLength) payload\<rparr>)"

definition write_response :: "kv_response \<Rightarrow> byte list option" where
  "write_response r =
     (if length (rsp_value r) > 4294967295 then None
      else Some (MAGIC @ be_bytes 1 1 @ be_bytes 1 (rsp_status r) @ be_bytes 2 0 @
                 be_bytes 4 (length (rsp_value r)) @ rsp_value r))"

section \<open>Integers of 64 bits\<close>

definition bytes_text :: "byte list \<Rightarrow> string" where
  "bytes_text bs = map (\<lambda>b. char_of (unat b)) bs"

text \<open>\<^verbatim>\<open>strconv.ParseInt(s, 10, 64)\<close> and \<^verbatim>\<open>strconv.FormatInt\<close>.\<close>

definition parse_int64 :: "byte list \<Rightarrow> 64 word option" where
  "parse_int64 bs =
     (let t = bytes_text bs; neg = (t \<noteq> [] \<and> hd t = CHR ''-'');
          body = (if t \<noteq> [] \<and> (hd t = CHR ''-'' \<or> hd t = CHR ''+'') then tl t else t) in
      if body = [] \<or> \<not> list_all is_digit body then None
      else let n = digits_val body in
        if neg then (if n \<le> 2 ^ 63 then Some (word_of_int (- int n)) else None)
        else (if n < 2 ^ 63 then Some (word_of_int (int n)) else None))"

definition format_int64 :: "64 word \<Rightarrow> byte list" where
  "format_int64 w = ascii_bytes (str_int (sint w))"

definition MaxInt64 :: "64 word" where
  "MaxInt64 = 0x7FFFFFFFFFFFFFFF"

definition MinInt64 :: "64 word" where
  "MinInt64 = 0x8000000000000000"

definition add_overflows :: "64 word \<Rightarrow> 64 word \<Rightarrow> bool" where
  "add_overflows current delta =
     ((0 <s delta \<and> MaxInt64 - delta <s current) \<or> (delta <s 0 \<and> current <s MinInt64 - delta))"

section \<open>The server\<close>

type_synonym store = "byte list \<rightharpoonup> byte list"

record kv_server =
  srv_token :: "byte list"
  MaxKey :: nat
  MaxValue :: nat
  MaxWait :: nat
  stored :: store

definition NewServer :: "byte list \<Rightarrow> kv_server" where
  "NewServer tok =
     \<lparr>srv_token = tok, MaxKey = DefaultMaxKey, MaxValue = DefaultMaxValue, MaxWait = 3600000, stored = Map.empty\<rparr>"

text \<open>What ends one round of a waiting get: another client changed the store, the deadline passed, or the server stops.\<close>

datatype wait_event = Changed store | DeadlineExceeded | Stopping

abbreviation answer :: "nat \<Rightarrow> string \<Rightarrow> kv_response" where
  "answer st message \<equiv> \<lparr>rsp_status = st, rsp_value = ascii_bytes message\<rparr>"

text \<open>A waiting get, with the store as it is when the get returns; \<open>None\<close> while it still waits.\<close>

fun get_wait :: "byte list \<Rightarrow> store \<Rightarrow> wait_event list \<Rightarrow> store \<times> kv_response option" where
  "get_wait key m events =
     (case m key of
        Some v \<Rightarrow> (m, Some \<lparr>rsp_status = 0, rsp_value = v\<rparr>)
      | None \<Rightarrow>
          (case events of
             [] \<Rightarrow> (m, None)
           | Changed m' # es \<Rightarrow> get_wait key m' es
           | DeadlineExceeded # _ \<Rightarrow> (m, Some (answer 4 []))
           | Stopping # _ \<Rightarrow> (m, Some (answer 6 ''coordinator is stopping''))))"

declare get_wait.simps [simp del]

definition server_get :: "kv_server \<Rightarrow> wait_event list \<Rightarrow> kv_request \<Rightarrow> kv_server \<times> kv_response option" where
  "server_get srv events r =
     (if req_key r = [] then (srv, Some (answer 3 ''key is required''))
      else if req_timeout r \<le> 0 then
        (srv, Some (case stored srv (req_key r) of
                      None \<Rightarrow> answer 1 [] | Some v \<Rightarrow> \<lparr>rsp_status = 0, rsp_value = v\<rparr>))
      else (case get_wait (req_key r) (stored srv) events of (m, x) \<Rightarrow> (srv\<lparr>stored := m\<rparr>, x)))"

definition server_add :: "kv_server \<Rightarrow> kv_request \<Rightarrow> kv_server \<times> kv_response" where
  "server_add srv r =
     (case parse_int64 (req_value r) of
        None \<Rightarrow> (srv, answer 3 ''add value must be an integer'')
      | Some delta \<Rightarrow>
          (case (case stored srv (req_key r) of None \<Rightarrow> Some 0 | Some v \<Rightarrow> parse_int64 v) of
             None \<Rightarrow> (srv, answer 3 ''stored value is not an integer'')
           | Some current \<Rightarrow>
               if add_overflows current delta then (srv, answer 3 ''add result overflows int64'')
               else let encoded = format_int64 (current + delta)
                    in (srv\<lparr>stored := (stored srv)(req_key r \<mapsto> encoded)\<rparr>, \<lparr>rsp_status = 0, rsp_value = encoded\<rparr>)))"

definition server_append :: "kv_server \<Rightarrow> kv_request \<Rightarrow> kv_server \<times> kv_response" where
  "server_append srv r =
     (let old = (case stored srv (req_key r) of None \<Rightarrow> [] | Some v \<Rightarrow> v) in
      if length old + length (req_value r) > MaxValue srv
      then (srv, answer 5 ''appended value exceeds coordinator limit'')
      else (srv\<lparr>stored := (stored srv)(req_key r \<mapsto> old @ req_value r)\<rparr>, answer 0 []))"

definition execute :: "kv_server \<Rightarrow> wait_event list \<Rightarrow> kv_request \<Rightarrow> kv_server \<times> kv_response option" where
  "execute srv events r =
     (let opn = req_operation r; need = (srv, Some (answer 3 ''key is required'')) in
      if opn = op_code OpHealth then (srv, Some (answer 0 []))
      else if opn = op_code OpSet then
        (if req_key r = [] then need
         else (srv\<lparr>stored := (stored srv)(req_key r \<mapsto> req_value r)\<rparr>, Some (answer 0 [])))
      else if opn = op_code OpDelete then
        (if req_key r = [] then need
         else (srv\<lparr>stored := (stored srv)(req_key r := None)\<rparr>, Some (answer 0 [])))
      else if opn = op_code OpAdd then
        (if req_key r = [] then need else (case server_add srv r of (srv', x) \<Rightarrow> (srv', Some x)))
      else if opn = op_code OpAppend then
        (if req_key r = [] then need else (case server_append srv r of (srv', x) \<Rightarrow> (srv', Some x)))
      else if opn = op_code OpGet then server_get srv events r
      else (srv, Some (answer 3 ''unsupported operation'')))"

text \<open>One connection: the bytes written back, or \<open>None\<close> when nothing was.\<close>

definition handle :: "kv_server \<Rightarrow> wait_event list \<Rightarrow> byte list \<Rightarrow> kv_server \<times> byte list option" where
  "handle srv events stream =
     (case read_request (MaxKey srv) (MaxValue srv) stream of
        Inl ErrTooLarge \<Rightarrow> (srv, write_response (answer 5 ''coordinator request exceeds configured limits''))
      | Inl (GoErr m) \<Rightarrow> (srv, write_response (answer 3 m))
      | Inr r \<Rightarrow>
          if req_token r \<noteq> srv_token srv then (srv, write_response (answer 2 ''invalid token''))
          else if MaxWait srv > 0 \<and> req_timeout r > MaxWait srv
            then (srv, write_response (answer 3 ''wait exceeds coordinator limit''))
          else (case execute srv events r of (srv', x) \<Rightarrow> (srv', Option.bind x write_response)))"

section \<open>Endpoint text\<close>

definition go_endpoint_string :: "endpoint \<Rightarrow> string" where
  "go_endpoint_string ep = ''coldsnap-coord-v1'' @ '' '' @ address ep @ '' '' @ scope ep @ '' '' @ token ep"

definition go_endpoint_validate :: "endpoint \<Rightarrow> bool" where
  "go_endpoint_validate ep =
     list_all (\<lambda>f. f \<noteq> [] \<and> list_all (\<lambda>c. c \<notin> set [CHR '' '', CHR 0x09, CHR 0x0D, CHR 0x0A]) f)
       [address ep, scope ep, token ep]"

section \<open>The client and the server together\<close>

text \<open>
  The network between them delivers the request, and delivers the answer cut into segments
  by \<open>chop\<close>; without an answer the client's receive times out.
\<close>

definition coordinator_net ::
  "wait_event list \<Rightarrow> (byte list \<Rightarrow> byte list list) \<Rightarrow> string \<times> int \<Rightarrow> byte list \<Rightarrow> kv_server \<Rightarrow>
   kv_server \<times> connection res" where
  "coordinator_net events chop peer request srv =
     (case handle srv events request of
        (srv', Some out) \<Rightarrow> (srv', Inr (map Inr (chop out)))
      | (srv', None) \<Rightarrow> (srv', Inr [Inl (TimeoutErr ''timed out'')]))"

section \<open>Frames are read back\<close>

lemma length_MAGIC [simp]: "length MAGIC = 4"
  by (simp add: MAGIC_def ascii_bytes_def)

lemmas limit_defs = DefaultMaxKey_def DefaultMaxValue_def MAX_VALUE_def VERSION_def RESPONSE_SIZE_def

lemma traverse_pack: "list_all (\<lambda>(w, n). n < 256 ^ w) fs \<Longrightarrow>
  traverse pack_field (map (\<lambda>(w, n). (w, int n)) fs) = Inr (map (\<lambda>(w, n). be_bytes w n) fs)"
  by (induction fs) (auto simp: pack_field_eq)

lemma encode_request_Inr:
  assumes "encode_request millis ep op key val timeout = Inr bytes"
  shows "\<exists>ms. millis timeout = int ms \<and> ms < 256 ^ 4 \<and>
    length (utf8_encode (token ep)) + length (scoped_key ep key) + length val < 256 ^ 4 \<and>
    length (scoped_key ep key) \<le> DefaultMaxKey \<and> length val \<le> DefaultMaxValue \<and>
    bytes = MAGIC @ be_bytes 1 1 @ be_bytes 1 (op_code op) @ be_bytes 2 0 @ be_bytes 4 ms @
      be_bytes 4 (length (utf8_encode (token ep))) @ be_bytes 4 (length (scoped_key ep key)) @
      be_bytes 4 (length val) @
      be_bytes 4 (length (utf8_encode (token ep)) + length (scoped_key ep key) + length val) @
      utf8_encode (token ep) @ scoped_key ep key @ val"
proof -
  let ?t = "length (utf8_encode (token ep))" and ?k = "length (scoped_key ep key)"
  from assms obtain fields where
    f: "pack_fields [(1, int VERSION), (1, int (op_code op)), (2, 0), (4, millis timeout), (4, int ?t), (4, int ?k),
          (4, int (length val)), (4, int (?t + ?k + length val))] = Inr fields"
      and lim: "?k \<le> 64 * 1024" "length val \<le> MAX_VALUE" "?t + ?k + length val \<le> 0xFFFFFFFF"
      and bytes: "bytes = MAGIC @ fields @ utf8_encode (token ep) @ scoped_key ep key @ val"
    by (auto simp: encode_request_def Let_def split: if_splits)
  have "pack_field (4, millis timeout) \<noteq> Inl StructErr"
    using f by (auto simp: pack_fields_def pack_field_def split: if_splits)
  then obtain ms where ms: "millis timeout = int ms" "ms < 256 ^ 4"
    by (cases "millis timeout") (auto simp: pack_field_def split: if_splits)
  have "op_code op < 256 ^ 1" by (cases op) simp_all
  then have "fields = concat (map (\<lambda>(w, n). be_bytes w n)
      [(1, VERSION), (1, op_code op), (2, 0), (4, ms), (4, ?t), (4, ?k), (4, length val), (4, ?t + ?k + length val)])"
    using f lim traverse_pack [of "[(1, VERSION), (1, op_code op), (2, 0), (4, ms), (4, ?t), (4, ?k), (4, length val),
        (4, ?t + ?k + length val)]"] ms
    by (simp add: pack_fields_def VERSION_def)
  then show ?thesis using ms lim bytes by (intro exI [of _ ms]) (simp add: limit_defs)
qed

lemma drop_prefix: "length a = n \<Longrightarrow> drop n (a @ b) = b"
  by simp

lemma field_at: "length a = i \<Longrightarrow> v < 256 ^ w \<Longrightarrow> field (a @ be_bytes w v @ b) i w = v"
  by (simp add: field_def frame_simps)

text \<open>A request frame as the two sides see it, with its header laid out.\<close>

definition request_frame :: "nat \<Rightarrow> nat \<Rightarrow> byte list \<Rightarrow> byte list \<Rightarrow> byte list \<Rightarrow> byte list" where
  "request_frame opn ms tok key val =
     MAGIC @ be_bytes 1 1 @ be_bytes 1 opn @ be_bytes 2 0 @ be_bytes 4 ms @ be_bytes 4 (length tok) @
     be_bytes 4 (length key) @ be_bytes 4 (length val) @ be_bytes 4 (length tok + length key + length val) @
     tok @ key @ val"

lemma read_request_frame:
  assumes "opn < 256" "ms < 256 ^ 4" "length tok + length key + length val < 256 ^ 4"
    and "tok \<noteq> []" "length key \<le> maxKey" "length val \<le> maxValue" "length tok \<le> 4096"
  shows "read_request maxKey maxValue (request_frame opn ms tok key val) =
    Inr \<lparr>req_operation = opn, req_timeout = ms, req_token = tok, req_key = key, req_value = val\<rparr>"
proof -
  let ?s = "request_frame opn ms tok key val"
  let ?h = "MAGIC @ be_bytes 1 1 @ be_bytes 1 opn @ be_bytes 2 0 @ be_bytes 4 ms @ be_bytes 4 (length tok) @
     be_bytes 4 (length key) @ be_bytes 4 (length val) @ be_bytes 4 (length tok + length key + length val)"
  have len: "length ?h = 28" by simp
  have s: "?s = ?h @ tok @ key @ val" by (simp add: request_frame_def)
  obtain h where h: "h = ?h" by blast
  have parts: "take 28 ?s = h" "drop 28 ?s = tok @ key @ val" "length h = 28" "take 4 h = MAGIC"
    unfolding s h using len by simp_all
  have "field ?h 4 1 = 1" using field_at [of MAGIC 4 1 1] by simp
  moreover have "field ?h 5 1 = opn" using field_at [of "MAGIC @ be_bytes 1 1" 5 opn 1] assms(1) by simp
  moreover have "field ?h 8 4 = ms"
    using field_at [of "MAGIC @ be_bytes 1 1 @ be_bytes 1 opn @ be_bytes 2 0" 8 ms 4] assms(2) by simp
  moreover have "field ?h 12 4 = length tok"
    using field_at [of "MAGIC @ be_bytes 1 1 @ be_bytes 1 opn @ be_bytes 2 0 @ be_bytes 4 ms" 12 "length tok" 4] assms(3)
    by simp
  moreover have "field ?h 16 4 = length key"
    using field_at [of "MAGIC @ be_bytes 1 1 @ be_bytes 1 opn @ be_bytes 2 0 @ be_bytes 4 ms @
      be_bytes 4 (length tok)" 16 "length key" 4] assms(3) by simp
  moreover have "field ?h 20 4 = length val"
    using field_at [of "MAGIC @ be_bytes 1 1 @ be_bytes 1 opn @ be_bytes 2 0 @ be_bytes 4 ms @
      be_bytes 4 (length tok) @ be_bytes 4 (length key)" 20 "length val" 4] assms(3) by simp
  moreover have "field ?h 24 4 = length tok + length key + length val"
    using field_at [of "MAGIC @ be_bytes 1 1 @ be_bytes 1 opn @ be_bytes 2 0 @ be_bytes 4 ms @
      be_bytes 4 (length tok) @ be_bytes 4 (length key) @ be_bytes 4 (length val)" 24
      "length tok + length key + length val" 4 "[]"] assms(3) by simp
  ultimately show ?thesis
    using assms(4-7) parts(3,4) unfolding h [symmetric] read_request_def parts(1,2) Let_def
    by simp
qed

lemma encode_request_frame:
  assumes "encode_request millis ep op key val timeout = Inr bytes"
  shows "\<exists>ms. millis timeout = int ms \<and> ms < 256 ^ 4 \<and>
    length (utf8_encode (token ep)) + length (scoped_key ep key) + length val < 256 ^ 4 \<and>
    length (scoped_key ep key) \<le> DefaultMaxKey \<and> length val \<le> DefaultMaxValue \<and>
    bytes = request_frame (op_code op) ms (utf8_encode (token ep)) (scoped_key ep key) val"
  using encode_request_Inr [OF assms] unfolding request_frame_def .

lemma read_reply_response:
  assumes "rsp_status r < 256" "length (rsp_value r) \<le> MAX_VALUE"
    and "write_response r = Some out" "carries conn out"
  shows "read_reply conn = status_result (rsp_status r) (rsp_value r)"
proof -
  let ?n = "length (rsp_value r)"
  let ?h = "MAGIC @ be_bytes 1 1 @ be_bytes 1 (rsp_status r) @ be_bytes 2 0 @ be_bytes 4 ?n"
  have n: "?n < 256 ^ 4" using assms(2) by (simp add: MAX_VALUE_def)
  have out: "out = ?h @ rsp_value r" using assms(3) by (auto simp: write_response_def split: if_splits)
  obtain h where h: "h = ?h" by blast
  have len: "length h = 12" by (simp add: h)
  have "RESPONSE_SIZE \<le> length out" by (simp add: out RESPONSE_SIZE_def)
  from recv_exact_carries [OF assms(4) this] obtain conn' where
    head: "recv_exact RESPONSE_SIZE conn = (Inr h, conn')" and rest: "carries conn' (rsp_value r)"
    by (auto simp: out RESPONSE_SIZE_def h)
  from recv_exact_carries [OF rest, of ?n] have body: "fst (recv_exact ?n conn') = Inr (rsp_value r)" by auto
  have "take 4 h = MAGIC" by (simp add: h)
  moreover have "field h 4 1 = 1" using field_at [of MAGIC 4 1 1] by (simp add: h)
  moreover have "field h 5 1 = rsp_status r"
    using field_at [of "MAGIC @ be_bytes 1 1" 5 "rsp_status r" 1] assms(1) by (simp add: h)
  moreover have "field h 8 4 = ?n"
    using field_at [of "MAGIC @ be_bytes 1 1 @ be_bytes 1 (rsp_status r) @ be_bytes 2 0" 8 ?n 4 "[]"] n by (simp add: h)
  ultimately show ?thesis
    using assms(2) head body by (simp add: read_reply_def Let_def field_def VERSION_def)
qed

text \<open>How a network may cut an answer: into segments that are not empty and join to it.\<close>

definition segments :: "(byte list \<Rightarrow> byte list list) \<Rightarrow> bool" where
  "segments chop = (\<forall>bs. concat (chop bs) = bs \<and> [] \<notin> set (chop bs))"

lemma segments_carries: "segments chop \<Longrightarrow> carries (map Inr (chop out)) out"
  by (auto simp: segments_def carries_def)

section \<open>The store keeps its bounds\<close>

definition server_ok :: "kv_server \<Rightarrow> bool" where
  "server_ok srv =
     (MaxKey srv = DefaultMaxKey \<and> MaxValue srv = DefaultMaxValue \<and>
      (\<forall>k v. stored srv k = Some v \<longrightarrow> length v \<le> MaxValue srv))"

lemma nat_digits_length: "n < 10 ^ Suc k \<Longrightarrow> length (nat_digits n) \<le> Suc k"
proof (induction k arbitrary: n)
  case 0
  then show ?case by (subst nat_digits.simps) simp
next
  case (Suc k)
  have "length (nat_digits (n div 10)) \<le> Suc k" using Suc.prems by (intro Suc.IH) (simp add: less_mult_imp_div_less)
  then show ?case by (subst nat_digits.simps) simp
qed

lemma length_format_int64: "length (format_int64 w) \<le> 20"
proof -
  have "- (2 ^ 63) \<le> sint w" "sint w < 2 ^ 63" using sint_ge [of w] sint_lt [of w] by simp_all
  then have "nat (sint w) < 10 ^ Suc 18" "nat (- sint w) < 10 ^ Suc 18" by simp_all
  then have "length (nat_digits (nat (sint w))) \<le> 19" "length (nat_digits (nat (- sint w))) \<le> 19"
    using nat_digits_length [of "nat (sint w)" 18] nat_digits_length [of "nat (- sint w)" 18] by simp_all
  then show ?thesis by (simp add: format_int64_def ascii_bytes_def str_int_def)
qed

section \<open>Counters\<close>

lemma sint_of_int64:
  assumes "- (2 ^ 63) \<le> k" "k < 2 ^ 63"
  shows "sint (word_of_int k :: 64 word) = k"
  using assms by (simp add: signed_of_int signed_take_bit_int_eq_self)

lemma word_of_sint64: "word_of_int (sint w) = (w :: 64 word)"
  by simp

lemma sint_plus64:
  fixes a b :: "64 word"
  assumes "- (2 ^ 63) \<le> sint a + sint b" "sint a + sint b < 2 ^ 63"
  shows "sint (a + b) = sint a + sint b"
proof -
  have "word_of_int (sint a + sint b) = a + b" by (simp only: wi_hom_add [symmetric] word_of_sint64)
  with sint_of_int64 [OF assms] show ?thesis by (simp only:)
qed

lemma sint_minus64:
  fixes a b :: "64 word"
  assumes "- (2 ^ 63) \<le> sint a - sint b" "sint a - sint b < 2 ^ 63"
  shows "sint (a - b) = sint a - sint b"
proof -
  have "word_of_int (sint a - sint b) = a - b" by (simp only: wi_hom_sub [symmetric] word_of_sint64)
  with sint_of_int64 [OF assms] show ?thesis by (simp only:)
qed

lemma sint_bounds64: "- (2 ^ 63) \<le> sint (w :: 64 word)" "sint w < 2 ^ 63"
  using sint_ge [of w] sint_lt [of w] by simp_all

lemma sint_limits [simp]: "sint MaxInt64 = 2 ^ 63 - 1" "sint MinInt64 = - (2 ^ 63)"
  by (simp_all add: MaxInt64_def MinInt64_def)

lemma add_overflows_iff:
  "add_overflows current delta \<longleftrightarrow>
   \<not> (- (2 ^ 63) \<le> sint current + sint delta \<and> sint current + sint delta < 2 ^ 63)"
proof -
  note b = sint_bounds64 [of current] sint_bounds64 [of delta]
  have "sint (MaxInt64 - delta) = 2 ^ 63 - 1 - sint delta" if "0 < sint delta"
    using that b by (subst sint_minus64) simp_all
  moreover have "sint (MinInt64 - delta) = - (2 ^ 63) - sint delta" if "sint delta < 0"
    using that b by (subst sint_minus64) simp_all
  ultimately show ?thesis
    using b by (cases "sint delta" "0::int" rule: linorder_cases) (auto simp: add_overflows_def word_sless_alt)
qed

lemma bytes_text_ascii: "list_all (\<lambda>c. code c < 128) s \<Longrightarrow> bytes_text (ascii_bytes s) = s"
  by (induction s) (simp_all add: bytes_text_def ascii_bytes_def unat_of_nat)

lemma str_int_nonneg: "0 \<le> k \<Longrightarrow> str_int k = nat_digits (nat k)"
  by (simp add: str_int_def)

lemma parse_int64_text:
  assumes "- (2 ^ 63) \<le> k" "k < 2 ^ 63"
  shows "parse_int64 (ascii_bytes (str_int k)) = Some (word_of_int k)"
proof (cases "k < 0")
  case True
  then have "nat (- k) \<le> 2 ^ 63" "str_int k = CHR ''-'' # nat_digits (nat (- k))" using assms by (simp_all add: str_int_def)
  with True show ?thesis
    unfolding parse_int64_def bytes_text_ascii [OF str_int_ascii]
    by (simp add: nat_digits_all_digits Let_def)
next
  case False
  have d: "is_digit (hd (nat_digits (nat k)))" by (rule nat_digits_hd_digit)
  then have "hd (nat_digits (nat k)) \<noteq> CHR ''-''" "hd (nat_digits (nat k)) \<noteq> CHR ''+''" by auto
  moreover have "nat k < 2 ^ 63" "str_int k = nat_digits (nat k)" using False assms by (simp_all add: str_int_def)
  ultimately show ?thesis
    using False unfolding parse_int64_def bytes_text_ascii [OF str_int_ascii]
    by (simp add: nat_digits_all_digits Let_def)
qed

lemma parse_format_int64: "parse_int64 (format_int64 w) = Some w"
  using parse_int64_text [OF sint_bounds64 [of w]] by (simp add: format_int64_def)

text \<open>
  C18: Counters of 64 bits never wrap: the overflow test of the server holds exactly when the
  sum of the two signed numbers leaves the range of 64 bits, so an accepted addition stores
  the decimal text of the exact sum, which reads back as that number, and a refused one
  changes nothing.
\<close>

theorem server_add_exact:
  assumes "parse_int64 (req_value r) = Some delta"
    and "(case stored srv (req_key r) of None \<Rightarrow> Some 0 | Some v \<Rightarrow> parse_int64 v) = Some current"
  shows "let total = sint current + sint delta in
    if - (2 ^ 63) \<le> total \<and> total < 2 ^ 63
    then server_add srv r =
        (srv\<lparr>stored := (stored srv)(req_key r \<mapsto> ascii_bytes (str_int total))\<rparr>,
         \<lparr>rsp_status = 0, rsp_value = ascii_bytes (str_int total)\<rparr>) \<and>
      parse_int64 (ascii_bytes (str_int total)) = Some (current + delta) \<and> sint (current + delta) = total
    else server_add srv r = (srv, answer 3 ''add result overflows int64'')"
proof (cases "- (2 ^ 63) \<le> sint current + sint delta \<and> sint current + sint delta < 2 ^ 63")
  case True
  then have "sint (current + delta) = sint current + sint delta" by (simp add: sint_plus64)
  moreover from this have "format_int64 (current + delta) = ascii_bytes (str_int (sint current + sint delta))"
    by (simp add: format_int64_def)
  moreover have "\<not> add_overflows current delta" using True by (simp add: add_overflows_iff)
  ultimately show ?thesis
    using True assms parse_format_int64 [of "current + delta"] by (simp add: server_add_def Let_def)
next
  case False
  then have "add_overflows current delta" by (simp add: add_overflows_iff)
  with False assms show ?thesis by (auto simp: server_add_def Let_def)
qed

definition counter_request :: "int \<Rightarrow> kv_request" where
  "counter_request n =
     \<lparr>req_operation = op_code OpAdd, req_timeout = 0, req_token = [], req_key = [1],
      req_value = ascii_bytes (str_int n)\<rparr>"

theorem server_add_exact_witness:
  "parse_int64 (req_value (counter_request 1)) = Some 1 \<and>
   server_add ((NewServer [])\<lparr>stored := [[1] \<mapsto> format_int64 MaxInt64]\<rparr>) (counter_request 1) =
     ((NewServer [])\<lparr>stored := [[1] \<mapsto> format_int64 MaxInt64]\<rparr>, answer 3 ''add result overflows int64'')"
proof -
  have "parse_int64 (req_value (counter_request 1)) = Some 1"
    using parse_int64_text [of 1] by (simp add: counter_request_def)
  with server_add_exact [of "counter_request 1" 1 "(NewServer [])\<lparr>stored := [[1] \<mapsto> format_int64 MaxInt64]\<rparr>" MaxInt64]
  show ?thesis by (simp add: parse_format_int64 counter_request_def)
qed

section \<open>Client operations over the server\<close>

text \<open>A client whose endpoint names this server and carries its token.\<close>

definition connected :: "endpoint \<Rightarrow> kv_server \<Rightarrow> bool" where
  "connected ep srv =
     (utf8_encode (token ep) = srv_token srv \<and> 16 \<le> length (srv_token srv) \<and> length (srv_token srv) \<le> 4096 \<and>
      (\<exists>peer. split_address (address ep) = Inr peer) \<and> server_ok srv)"

definition request_of :: "endpoint \<Rightarrow> operation \<Rightarrow> nat \<Rightarrow> string \<Rightarrow> byte list \<Rightarrow> kv_request" where
  "request_of ep op ms key val =
     \<lparr>req_operation = op_code op, req_timeout = ms, req_token = utf8_encode (token ep),
      req_key = scoped_key ep key, req_value = val\<rparr>"

lemma handle_frame:
  assumes "connected ep srv" "encode_request millis ep op key val timeout = Inr bytes" "millis timeout = int ms"
    and "ms \<le> MaxWait srv"
  shows "handle srv events bytes =
    (case execute srv events (request_of ep op ms key val) of (srv', x) \<Rightarrow> (srv', Option.bind x write_response))"
proof -
  have "op_code op < 256" by (cases op) simp_all
  moreover obtain ms' where e: "millis timeout = int ms'" "ms' < 256 ^ 4"
      "length (utf8_encode (token ep)) + length (scoped_key ep key) + length val < 256 ^ 4"
      "length (scoped_key ep key) \<le> DefaultMaxKey" "length val \<le> DefaultMaxValue"
      "bytes = request_frame (op_code op) ms' (utf8_encode (token ep)) (scoped_key ep key) val"
    using encode_request_frame [OF assms(2)] by blast
  moreover have "utf8_encode (token ep) \<noteq> []" "length (utf8_encode (token ep)) \<le> 4096"
    using assms(1) by (auto simp: connected_def simp del: utf8_encode_Nil_iff)
  ultimately have "read_request DefaultMaxKey DefaultMaxValue bytes = Inr (request_of ep op ms key val)"
    using assms(3) read_request_frame [of "op_code op" ms' "utf8_encode (token ep)" "scoped_key ep key" val
      DefaultMaxKey DefaultMaxValue]
    by (simp add: request_of_def)
  then have "read_request (MaxKey srv) (MaxValue srv) bytes = Inr (request_of ep op ms key val)"
    using assms(1) by (simp add: connected_def server_ok_def)
  then show ?thesis
    using assms(1,4) by (simp add: handle_def connected_def request_of_def)
qed

lemma client_request_execute:
  assumes "connected ep srv" "segments chop"
    and "encode_request millis ep op key val timeout = Inr bytes" "millis timeout = int ms" "ms \<le> MaxWait srv"
    and "execute srv events (request_of ep op ms key val) = (srv', Some rsp)"
    and "rsp_status rsp < 256" "length (rsp_value rsp) \<le> MAX_VALUE"
  shows "client_request millis (coordinator_net events chop) ep op key val timeout srv =
    (srv', status_result (rsp_status rsp) (rsp_value rsp))"
proof -
  obtain peer where peer: "split_address (address ep) = Inr peer" using assms(1) by (auto simp: connected_def)
  obtain out where out: "write_response rsp = Some out"
    using assms(8) by (auto simp: write_response_def MAX_VALUE_def)
  have "handle srv events bytes = (srv', Some out)"
    using handle_frame [OF assms(1,3,4,5)] assms(6) out by simp
  then have "coordinator_net events chop peer bytes srv = (srv', Inr (map Inr (chop out)))"
    by (simp add: coordinator_net_def)
  moreover have "read_reply (map Inr (chop out)) = status_result (rsp_status rsp) (rsp_value rsp)"
    using assms(7,8) out segments_carries [OF assms(2)] by (rule read_reply_response)
  ultimately show ?thesis using assms(3) peer by (simp add: client_request_def)
qed

lemma encode_request_total:
  assumes "connected ep srv" "millis 0 = 0" "length (scoped_key ep key) \<le> DefaultMaxKey" "length val \<le> DefaultMaxValue"
  shows "\<exists>bytes. encode_request millis ep op key val 0 = Inr bytes"
proof -
  have t: "length (utf8_encode (token ep)) \<le> 4096" using assms(1) by (simp add: connected_def)
  have "op_code op < 256" by (cases op) simp_all
  then show ?thesis
    using assms t by (simp add: encode_request_def Let_def limit_defs pack_fields_def pack_field_def)
qed

lemma scoped_key_neq: "key \<noteq> [] \<Longrightarrow> scoped_key ep key \<noteq> []"
  by (simp add: scoped_key_def del: utf8_encode_append)

lemma client_request_now:
  assumes "connected ep srv" "segments chop" "millis 0 = 0"
    and "length (scoped_key ep key) \<le> DefaultMaxKey" "length val \<le> DefaultMaxValue"
    and "execute srv events (request_of ep op 0 key val) = (srv', Some rsp)"
    and "rsp_status rsp < 256" "length (rsp_value rsp) \<le> MAX_VALUE"
  shows "client_request millis (coordinator_net events chop) ep op key val 0 srv =
    (srv', status_result (rsp_status rsp) (rsp_value rsp))"
proof -
  obtain bytes where "encode_request millis ep op key val 0 = Inr bytes"
    using encode_request_total [where millis = millis, OF assms(1,3-5)] by blast
  from client_request_execute [OF assms(1,2) this _ _ assms(6-8)] assms(3) show ?thesis by simp
qed

lemma utf8_ascii: "list_all (\<lambda>c. code c < 128) s \<Longrightarrow> utf8_encode s = ascii_bytes s"
  by (induction s) (simp_all add: utf8_encode_def ascii_bytes_def utf8_char_def)

lemma execute_simps:
  assumes "key \<noteq> []"
  shows "execute srv events (request_of ep OpSet ms key val) =
      (srv\<lparr>stored := (stored srv)(scoped_key ep key \<mapsto> val)\<rparr>, Some (answer 0 []))"
    and "execute srv events (request_of ep OpDelete ms key val) =
      (srv\<lparr>stored := (stored srv)(scoped_key ep key := None)\<rparr>, Some (answer 0 []))"
    and "execute srv events (request_of ep OpGet 0 key val) =
      (srv, Some (case stored srv (scoped_key ep key) of
         None \<Rightarrow> answer 1 [] | Some v \<Rightarrow> \<lparr>rsp_status = 0, rsp_value = v\<rparr>))"
    and "execute srv events (request_of ep OpAppend ms key val) =
      (case server_append srv (request_of ep OpAppend ms key val) of (srv', x) \<Rightarrow> (srv', Some x))"
    and "execute srv events (request_of ep OpAdd ms key val) =
      (case server_add srv (request_of ep OpAdd ms key val) of (srv', x) \<Rightarrow> (srv', Some x))"
  using scoped_key_neq [OF assms, of ep] by (simp_all add: execute_def request_of_def server_get_def)

text \<open>
  C16: Over any segmentation of the answers, the operations of a connected client are the
  operations of a map: \<^verbatim>\<open>set\<close> binds the scoped key, \<^verbatim>\<open>get\<close> returns what is bound or raises
  \<^verbatim>\<open>CoordinatorNotFound\<close>, \<^verbatim>\<open>delete\<close> removes it, \<^verbatim>\<open>append\<close> extends it within the size limit and
  \<^verbatim>\<open>add\<close> counts from zero; each leaves every other key alone.
\<close>

theorem client_refines_map:
  assumes "connected ep srv" "segments chop" "millis 0 = 0" "key \<noteq> []"
    and "length (scoped_key ep key) \<le> DefaultMaxKey" "length val \<le> DefaultMaxValue"
  shows "client_set millis (coordinator_net events chop) ep key val srv =
      (srv\<lparr>stored := (stored srv)(scoped_key ep key \<mapsto> val)\<rparr>, Inr []) \<and>
    client_get millis (coordinator_net events chop) ep key 0 srv =
      (srv, opt_res (CoordinatorNotFound '''') (stored srv (scoped_key ep key))) \<and>
    client_delete millis (coordinator_net events chop) ep key srv =
      (srv\<lparr>stored := (stored srv)(scoped_key ep key := None)\<rparr>, Inr []) \<and>
    client_append millis (coordinator_net events chop) ep key val srv =
      (let old = (case stored srv (scoped_key ep key) of None \<Rightarrow> [] | Some v \<Rightarrow> v) in
       if length old + length val > DefaultMaxValue then (srv, Inl (CoordinatorError ''coordinator request too large''))
       else (srv\<lparr>stored := (stored srv)(scoped_key ep key \<mapsto> old @ val)\<rparr>, Inr [])) \<and>
    (- (2 ^ 63) \<le> n \<and> n < 2 ^ 63 \<and> stored srv (scoped_key ep key) = None \<longrightarrow>
     client_add millis (coordinator_net events chop) ep key n srv =
       (srv\<lparr>stored := (stored srv)(scoped_key ep key \<mapsto> ascii_bytes (str_int n))\<rparr>, Inr n))"
proof (intro conjI impI)
  note now = client_request_now [where millis = millis and events = events, OF assms(1-3,5)]
  let ?k = "scoped_key ep key"
  have bound: "stored srv ?k = Some v \<Longrightarrow> length v \<le> MAX_VALUE" for v
    using assms(1) by (auto simp: connected_def server_ok_def limit_defs)
  show "client_set millis (coordinator_net events chop) ep key val srv =
      (srv\<lparr>stored := (stored srv)(?k \<mapsto> val)\<rparr>, Inr [])"
    using now [OF assms(6) execute_simps(1) [OF assms(4)]] by (simp add: client_set_def status_result_def ascii_bytes_def)
  show "client_delete millis (coordinator_net events chop) ep key srv =
      (srv\<lparr>stored := (stored srv)(?k := None)\<rparr>, Inr [])"
    using now [OF _ execute_simps(2) [OF assms(4)]] by (simp add: client_delete_def status_result_def ascii_bytes_def)
  show "client_get millis (coordinator_net events chop) ep key 0 srv =
      (srv, opt_res (CoordinatorNotFound '''') (stored srv ?k))"
    using now [OF _ execute_simps(3) [OF assms(4)]] bound
    by (cases "stored srv ?k") (simp_all add: client_get_def status_result_def ascii_bytes_def)
  have max: "MaxValue srv = DefaultMaxValue" using assms(1) by (simp add: connected_def server_ok_def)
  show "client_append millis (coordinator_net events chop) ep key val srv =
      (let old = (case stored srv ?k of None \<Rightarrow> [] | Some v \<Rightarrow> v) in
       if length old + length val > DefaultMaxValue then (srv, Inl (CoordinatorError ''coordinator request too large''))
       else (srv\<lparr>stored := (stored srv)(?k \<mapsto> old @ val)\<rparr>, Inr []))"
    using now [OF assms(6), of OpAppend] execute_simps(4) [OF assms(4), of srv events ep 0 val]
    by (simp add: client_append_def server_append_def request_of_def Let_def max status_result_def ascii_bytes_def
        MAX_VALUE_def split: if_splits)
  assume n: "- (2 ^ 63) \<le> n \<and> n < 2 ^ 63 \<and> stored srv ?k = None"
  define t where "t = ascii_bytes (str_int n)"
  have sint: "sint (word_of_int n :: 64 word) = n" using n by (intro sint_of_int64) simp_all
  have parse: "parse_int64 t = Some (word_of_int n)" unfolding t_def using n by (intro parse_int64_text) simp_all
  have fmt: "t = format_int64 (word_of_int n)" by (simp only: t_def format_int64_def sint)
  then have len: "length t \<le> 20" using length_format_int64 by simp
  have "server_add srv (request_of ep OpAdd 0 key t) =
      (srv\<lparr>stored := (stored srv)(?k \<mapsto> t)\<rparr>, \<lparr>rsp_status = 0, rsp_value = t\<rparr>)"
    using n parse fmt by (simp add: server_add_def request_of_def add_overflows_iff sint Let_def del: of_int_sint)
  then have "client_request millis (coordinator_net events chop) ep OpAdd key t 0 srv =
      (srv\<lparr>stored := (stored srv)(?k \<mapsto> t)\<rparr>, Inr t)"
    using now [of t OpAdd] execute_simps(5) [OF assms(4), of srv events ep 0 t] len
    by (simp add: status_result_def limit_defs)
  moreover have "utf8_encode (str_int n) = t" by (simp add: t_def utf8_ascii str_int_ascii)
  moreover have "utf8_decode t = Inr (str_int n)" unfolding t_def by (simp add: utf8_decode_ascii str_int_ascii)
  ultimately show "client_add millis (coordinator_net events chop) ep key n srv =
       (srv\<lparr>stored := (stored srv)(?k \<mapsto> ascii_bytes (str_int n))\<rparr>, Inr n)"
    by (simp add: client_add_def t_def [symmetric])
qed

definition demo_endpoint :: endpoint where
  "demo_endpoint = \<lparr>address = ''h:7000'', scope = ''run'', token = ''0123456789abcdef''\<rparr>"

definition demo_server :: kv_server where
  "demo_server = NewServer (ascii_bytes ''0123456789abcdef'')"

definition whole :: "byte list \<Rightarrow> byte list list" where
  "whole bs = (if bs = [] then [] else [bs])"

lemma segments_whole: "segments whole"
  by (simp add: segments_def whole_def)

lemma demo_address: "split_address ''h:7000'' = Inr (''h'', 7000)"
  by code_simp

lemma demo_connected: "connected demo_endpoint demo_server"
proof -
  have "utf8_encode ''0123456789abcdef'' = ascii_bytes ''0123456789abcdef''" by (rule utf8_ascii) simp
  then show ?thesis
    using demo_address
    by (simp add: connected_def demo_endpoint_def demo_server_def NewServer_def server_ok_def ascii_bytes_def)
qed

lemma demo_key: "length (scoped_key demo_endpoint ''k'') \<le> DefaultMaxKey"
  by (simp add: scoped_key_def demo_endpoint_def utf8_encode_def utf8_char_def DefaultMaxKey_def)

theorem client_refines_map_witness:
  "connected demo_endpoint demo_server \<and>
   snd (client_get (\<lambda>_. 0) (coordinator_net [] whole) demo_endpoint ''k'' 0
     (fst (client_set (\<lambda>_. 0) (coordinator_net [] whole) demo_endpoint ''k'' [7] demo_server))) = Inr [7]"
proof -
  have ok: "(\<lambda>_. 0 :: int) 0 = 0" "''k'' \<noteq> ''''" "length [7 :: byte] \<le> DefaultMaxValue"
    by (simp_all add: DefaultMaxValue_def)
  let ?srv = "demo_server\<lparr>stored := (stored demo_server)(scoped_key demo_endpoint ''k'' \<mapsto> [7])\<rparr>"
  have "connected demo_endpoint ?srv"
    using demo_connected by (auto simp: connected_def server_ok_def DefaultMaxValue_def)
  from client_refines_map [OF this segments_whole ok(1,2) demo_key ok(3), of "[]"]
    client_refines_map [OF demo_connected segments_whole ok(1,2) demo_key ok(3), of "[]"] demo_connected
  show ?thesis by simp
qed

section \<open>What the server stores stays deliverable\<close>

fun event_ok :: "nat \<Rightarrow> wait_event \<Rightarrow> bool" where
  "event_ok n (Changed m) = (\<forall>k v. m k = Some v \<longrightarrow> length v \<le> n)"
| "event_ok n _ = True"

lemma get_wait_bounded:
  assumes "\<forall>k v. m k = Some v \<longrightarrow> length v \<le> n" "list_all (event_ok n) events"
    and "get_wait key m events = (m', x)"
  shows "(\<forall>k v. m' k = Some v \<longrightarrow> length v \<le> n) \<and>
    (\<forall>r. x = Some r \<longrightarrow> rsp_status r < 256 \<and> length (rsp_value r) \<le> max n 64)"
  using assms
proof (induction events arbitrary: m)
  case Nil
  then show ?case by (subst (asm) get_wait.simps) (fastforce split: option.splits)
next
  case (Cons e es)
  then show ?case
    using get_wait.simps [of key m "e # es"]
    by (cases e) (fastforce simp: ascii_bytes_def split: option.splits)+
qed

lemma read_request_bounded:
  "read_request maxKey maxValue stream = Inr r \<Longrightarrow> length (req_value r) \<le> maxValue"
  by (auto simp: read_request_def Let_def split: if_splits)

definition deliverable :: "kv_response \<Rightarrow> bool" where
  "deliverable rsp = (rsp_status rsp < 256 \<and> length (rsp_value rsp) \<le> MAX_VALUE)"

lemma deliverable_answer [simp]:
  "st < 256 \<Longrightarrow> length m \<le> 64 \<Longrightarrow> deliverable (answer st m)"
  by (simp add: deliverable_def ascii_bytes_def MAX_VALUE_def)

lemma server_ok_put:
  "server_ok srv \<Longrightarrow> length v \<le> MAX_VALUE \<Longrightarrow> server_ok (srv\<lparr>stored := (stored srv)(k \<mapsto> v)\<rparr>)"
  by (auto simp: server_ok_def limit_defs)

lemma server_ok_drop: "server_ok srv \<Longrightarrow> server_ok (srv\<lparr>stored := (stored srv)(k := None)\<rparr>)"
  by (auto simp: server_ok_def)

lemma server_add_bounded:
  assumes "server_ok srv" "server_add srv r = (srv', x)"
  shows "server_ok srv' \<and> deliverable x"
proof -
  have "length (format_int64 w) \<le> MAX_VALUE" for w
    using length_format_int64 [of w] by (simp add: MAX_VALUE_def)
  then show ?thesis
    using assms server_ok_put [OF assms(1)]
    by (auto simp: server_add_def Let_def deliverable_def ascii_bytes_def MAX_VALUE_def
        split: option.splits if_splits)
qed

lemma server_append_bounded:
  assumes "server_ok srv" "server_append srv r = (srv', x)"
  shows "server_ok srv' \<and> deliverable x"
proof -
  have "MaxValue srv = MAX_VALUE" using assms(1) by (simp add: server_ok_def limit_defs)
  then show ?thesis
    using assms server_ok_put [OF assms(1)] unfolding server_append_def Let_def
    by (auto split: if_splits simp del: fun_upd_apply)
qed

lemma server_get_bounded:
  assumes "server_ok srv" "list_all (event_ok MAX_VALUE) events" "server_get srv events r = (srv', x)"
  shows "server_ok srv' \<and> (\<forall>rsp. x = Some rsp \<longrightarrow> deliverable rsp)"
proof -
  have bound: "\<forall>k v. stored srv k = Some v \<longrightarrow> length v \<le> MAX_VALUE" and max: "max MAX_VALUE 64 = MAX_VALUE"
    using assms(1) by (auto simp: server_ok_def limit_defs)
  obtain m y where m: "get_wait (req_key r) (stored srv) events = (m, y)" by fastforce
  from get_wait_bounded [OF bound assms(2) m] assms(1)
  have "server_ok (srv\<lparr>stored := m\<rparr>) \<and> (\<forall>rsp. y = Some rsp \<longrightarrow> deliverable rsp)"
    by (simp add: server_ok_def deliverable_def max) (simp add: limit_defs)
  then show ?thesis
    using assms(1,3) bound m
    by (auto simp: server_get_def deliverable_def ascii_bytes_def MAX_VALUE_def split: if_splits option.splits)
qed

lemma execute_bounded:
  assumes "server_ok srv" "list_all (event_ok MAX_VALUE) events" "length (req_value r) \<le> MAX_VALUE"
    and "execute srv events r = (srv', x)"
  shows "server_ok srv' \<and> (\<forall>rsp. x = Some rsp \<longrightarrow> deliverable rsp)"
  using assms(4) server_ok_put [OF assms(1,3)] server_ok_drop [OF assms(1)] assms(1)
    server_add_bounded [OF assms(1)] server_append_bounded [OF assms(1)] server_get_bounded [OF assms(1,2)]
  unfolding execute_def Let_def
  by (auto split: if_splits prod.splits simp del: fun_upd_apply)

lemma read_request_message:
  "read_request maxKey maxValue stream = Inl (GoErr m) \<Longrightarrow> length m \<le> 64"
  by (auto simp: read_request_def Let_def split: if_splits)

lemma execute_waits:
  "execute srv events r = (srv', None) \<Longrightarrow> req_operation r = op_code OpGet \<and> 0 < req_timeout r"
  by (auto simp: execute_def server_get_def Let_def split: if_splits prod.splits)

text \<open>
  C17: Whatever bytes a peer sends, the server writes a complete response frame that the
  client accepts, or is still waiting for a key; and no stored value ever exceeds the size
  that a response can carry.
\<close>

theorem handle_keeps_bounds:
  assumes "server_ok srv" "list_all (event_ok MAX_VALUE) events" "handle srv events stream = (srv', written)"
  shows "server_ok srv' \<and>
    (\<forall>out conn. written = Some out \<longrightarrow> carries conn out \<longrightarrow>
       (\<exists>status body. length body \<le> MAX_VALUE \<and> read_reply conn = status_result status body)) \<and>
    (written = None \<longrightarrow>
       (\<exists>r. read_request (MaxKey srv) (MaxValue srv) stream = Inr r \<and> req_operation r = op_code OpGet \<and> 0 < req_timeout r))"
proof -
  have reply: "\<exists>status body. length body \<le> MAX_VALUE \<and> read_reply conn = status_result status body"
    if "deliverable rsp" "write_response rsp = Some out" "carries conn out" for rsp out conn
    using that read_reply_response unfolding deliverable_def by blast
  have sent: "write_response rsp \<noteq> None" if "deliverable rsp" for rsp
    using that by (simp add: write_response_def deliverable_def MAX_VALUE_def)
  have direct: ?thesis if "srv' = srv" "written = write_response rsp" "deliverable rsp" for rsp
    using that assms(1) reply [OF that(3)] sent [OF that(3)] by auto
  show ?thesis
  proof (cases "read_request (MaxKey srv) (MaxValue srv) stream")
    case (Inl e)
    then have "srv' = srv \<and> (\<exists>rsp. written = write_response rsp \<and> deliverable rsp)"
      using assms(3) read_request_message [of "MaxKey srv" "MaxValue srv" stream]
      by (cases e) (force simp: handle_def)+
    then show ?thesis using direct by blast
  next
    case (Inr r)
    obtain srv1 x where ex: "execute srv events r = (srv1, x)" by fastforce
    have "length (req_value r) \<le> MAX_VALUE"
      using read_request_bounded [OF Inr] assms(1) by (simp add: server_ok_def limit_defs)
    note b = execute_bounded [OF assms(1,2) this ex]
    show ?thesis
    proof (cases "req_token r \<noteq> srv_token srv \<or> MaxWait srv > 0 \<and> req_timeout r > MaxWait srv")
      case True
      then have "srv' = srv \<and> (\<exists>rsp. written = write_response rsp \<and> deliverable rsp)"
        using assms(3) Inr by (force simp: handle_def split: if_splits)
      then show ?thesis using direct by blast
    next
      case False
      then have h: "srv' = srv1" "written = Option.bind x write_response"
        using assms(3) Inr ex by (auto simp: handle_def)
      show ?thesis
      proof (cases x)
        case None
        then have "req_operation r = op_code OpGet \<and> 0 < req_timeout r" using execute_waits ex by blast
        with b h None Inr show ?thesis by simp
      next
        case (Some rsp)
        with b have "deliverable rsp" by simp
        with b h Some reply [OF this] sent [OF this] show ?thesis by auto
      qed
    qed
  qed
qed

theorem handle_keeps_bounds_witness:
  "server_ok demo_server \<and> server_ok (fst (handle demo_server [DeadlineExceeded] []))"
proof -
  have ok: "server_ok demo_server" using demo_connected by (simp add: connected_def)
  obtain srv' written where run: "handle demo_server [DeadlineExceeded] [] = (srv', written)" by fastforce
  from handle_keeps_bounds [OF ok _ run] ok run show ?thesis by simp
qed

section \<open>Endpoint files\<close>

lemma split_ws_word:
  "list_all (\<lambda>c. \<not> is_space c) w \<Longrightarrow> split_ws_from acc (w @ rest) = split_ws_from (rev w @ acc) rest"
  by (induction w arbitrary: acc) simp_all

lemma split_ws_sep: "is_space c \<Longrightarrow> w \<noteq> [] \<Longrightarrow> split_ws_from (rev w) (c # rest) = w # split_ws_from [] rest"
  by simp

lemma split_ws_endpoint:
  assumes "list_all (\<lambda>w. w \<noteq> [] \<and> list_all (\<lambda>c. \<not> is_space c) w) [f, a, s, t]"
  shows "split_ws (f @ '' '' @ a @ '' '' @ s @ '' '' @ t) = [f, a, s, t]"
proof -
  have sp: "is_space CHR '' ''" by (simp add: is_space_def)
  have last: "split_ws_from [] t = [t]"
    using split_ws_word [of t "[]" "[]"] assms by simp
  show ?thesis
    using assms sp last split_ws_word [of f "[]"] split_ws_word [of a "[]"] split_ws_word [of s "[]"]
    by (simp add: split_ws_def)
qed

text \<open>
  C25: The endpoint text that the coordinator writes is read back by the Python client field
  by field, when no field contains white space. The Go side checks only for blank, tab,
  carriage return and line feed: an endpoint with a vertical tab in its scope passes that
  check, and the client refuses the text.
\<close>

theorem endpoint_roundtrip:
  assumes "list_all (\<lambda>f. f \<noteq> [] \<and> list_all (\<lambda>c. \<not> is_space c) f) [address ep, scope ep, token ep]"
  shows "endpoint_parse (go_endpoint_string ep) = Inr ep \<and> go_endpoint_validate ep \<and>
    (let bad = \<lparr>address = ''h:1'', scope = [CHR ''a'', CHR 0x0B, CHR ''b''], token = ''t''\<rparr>
     in go_endpoint_validate bad \<and>
        endpoint_parse (go_endpoint_string bad) = Inl (ValueError ''invalid coordinator endpoint''))"
proof -
  have "split_ws (go_endpoint_string ep) = [''coldsnap-coord-v1'', address ep, scope ep, token ep]"
    unfolding go_endpoint_string_def using assms by (intro split_ws_endpoint) (simp add: is_space_def)
  moreover have "\<not> list_ex (\<lambda>f. f = [] \<or> list_ex is_space f) [address ep, scope ep, token ep]"
    using assms by (auto simp: list_ex_iff list_all_iff)
  ultimately have "endpoint_parse (go_endpoint_string ep) = Inr ep" by (simp add: endpoint_parse_def)
  moreover have "go_endpoint_validate ep"
    using assms by (auto simp: go_endpoint_validate_def list_all_iff is_space_def)
  moreover have "let bad = \<lparr>address = ''h:1'', scope = [CHR ''a'', CHR 0x0B, CHR ''b''], token = ''t''\<rparr>
     in go_endpoint_validate bad \<and>
        endpoint_parse (go_endpoint_string bad) = Inl (ValueError ''invalid coordinator endpoint'')"
    by code_simp
  ultimately show ?thesis by blast
qed

theorem endpoint_roundtrip_witness:
  "endpoint_parse (go_endpoint_string demo_endpoint) = Inr demo_endpoint"
  using endpoint_roundtrip [of demo_endpoint] by (simp add: demo_endpoint_def is_space_def)

end
