(* ===== verification/Cold_Topology.thy ===== *)
theory Cold_Topology
  imports Cold_Json
begin

text \<open>
  The execution graph of accelerator workers (\<^verbatim>\<open>coldsnap_core/topology.py\<close>): reading and
  checking the graph from the environment, and resolving the identity, the global rank and
  the world group of one worker from it. Graphs are the JSON values that
  \<^verbatim>\<open>execution_graph\<close> returns; \<^verbatim>\<open>graph["by_process_slot"]\<close> and \<^verbatim>\<open>graph["groups"]\<close> of a value
  that is no object are type errors.
\<close>

type_synonym environment = "(string, string) dict"

definition EXECUTION_GRAPH_ENV :: string where
  "EXECUTION_GRAPH_ENV = ''COLDSNAP_EXECUTION_GRAPH''"

section \<open>Identifiers\<close>

definition is_alnum :: "char \<Rightarrow> bool" where
  "is_alnum c = (is_digit c \<or> 65 \<le> code c \<and> code c \<le> 90 \<or> 97 \<le> code c \<and> code c \<le> 122)"

text \<open>A full match of \<^verbatim>\<open>^[A-Za-z0-9][A-Za-z0-9._-]{0,127}$\<close>.\<close>

definition id_match :: "string \<Rightarrow> bool" where
  "id_match s =
     (case s of
        [] \<Rightarrow> False
      | c # cs \<Rightarrow> is_alnum c \<and> length cs \<le> 127 \<and>
          list_all (\<lambda>d. is_alnum d \<or> d \<in> set ''._-'') cs)"

fun id_value :: "json \<Rightarrow> bool" where
  "id_value (JStr s) = id_match s"
| "id_value _ = False"

section \<open>The graph\<close>

definition is_world_group :: "json \<Rightarrow> bool" where
  "is_world_group g =
     (is_obj g \<and> (case jget g ''kind'' of Some (JStr k) \<Rightarrow> ends_with k '':world'' | _ \<Rightarrow> False) \<and>
      (case jget g ''ranks'' of Some r \<Rightarrow> is_obj r | None \<Rightarrow> False))"

fun obj_items :: "json \<Rightarrow> (string \<times> json) list res" where
  "obj_items (JObj kvs) = Inr kvs"
| "obj_items _ = Inl (TypeErr ''value is not a dictionary'')"

definition obj_field :: "json \<Rightarrow> string \<Rightarrow> (string \<times> json) list res" where
  "obj_field g k = bind_res (opt_res (KeyErr k) (jget g k)) obj_items"

definition execution_graph :: "pylib \<Rightarrow> environment \<Rightarrow> bool \<Rightarrow> json option res" where
  "execution_graph L env required =
     (case dict_get env EXECUTION_GRAPH_ENV of
        Some (c # cs) \<Rightarrow>
          bind_res (catch_res (json_loads L (c # cs))
             (\<lambda>e. if e = JSONDecodeError then Inl (RuntimeErr ''execution graph is invalid JSON'') else Inl e))
          (\<lambda>graph.
             if \<not> is_obj graph
                \<or> \<not> (case jget graph ''unit'' of Some u \<Rightarrow> id_value u | None \<Rightarrow> False)
                \<or> (case jget graph ''by_process_slot'' of Some (JObj slots) \<Rightarrow> slots = [] | _ \<Rightarrow> True)
                \<or> \<not> (case jget graph ''groups'' of Some g \<Rightarrow> is_obj g | None \<Rightarrow> False)
             then Inl (RuntimeErr ''execution graph has an invalid structure'')
             else bind_res (obj_field graph ''by_process_slot'') (\<lambda>slots.
               if \<not> list_all (\<lambda>(_, w). id_value w) slots
               then Inl (RuntimeErr ''execution graph contains an invalid worker'')
               else Inr (Some graph)))
      | _ \<Rightarrow> if required then Inl (RuntimeErr ''execution graph is required'') else Inr None)"

section \<open>Workers\<close>

fun worker_text :: "json \<Rightarrow> string res" where
  "worker_text (JStr s) = Inr s"
| "worker_text (JInt i) = Inr (str_int i)"
| "worker_text _ = Inl (TypeErr ''worker is not text'')"

text \<open>\<^verbatim>\<open>group.get("ranks", {}).get(rank)\<close> of a world group, with \<open>None\<close> for a missing or null entry.\<close>

definition rank_member :: "string \<Rightarrow> json \<Rightarrow> json option" where
  "rank_member rank g =
     (case jget g ''ranks'' of
        Some r \<Rightarrow> (case jget r rank of Some JNull \<Rightarrow> None | x \<Rightarrow> x)
      | None \<Rightarrow> None)"

fun hashable :: "json \<Rightarrow> bool" where
  "hashable (JList _) = False"
| "hashable (JObj _) = False"
| "hashable _ = True"

definition rank_matches :: "environment \<Rightarrow> (string \<times> json) list \<Rightarrow> json list" where
  "rank_matches env groups =
     (case dict_get env ''RANK'' of
        None \<Rightarrow> []
      | Some rank \<Rightarrow> List.map_filter (rank_member rank) (filter is_world_group (map snd groups)))"

definition worker_id :: "json \<Rightarrow> environment \<Rightarrow> string res" where
  "worker_id graph env =
     bind_res (obj_field graph ''by_process_slot'') (\<lambda>by_slot.
       case Option.bind (dict_get env ''LOCAL_RANK'') (dict_get by_slot) of
         Some w \<Rightarrow> worker_text w
       | None \<Rightarrow>
           if length by_slot = 1 then worker_text (snd (hd by_slot))
           else bind_res (obj_field graph ''groups'') (\<lambda>groups.
             let ms = rank_matches env groups in
             if \<not> list_all hashable ms then Inl (TypeErr ''unhashable type'')
             else case ms of
               [] \<Rightarrow> Inl (RuntimeErr ''cannot resolve ColdSnap worker from local or group rank'')
             | v # vs \<Rightarrow>
                 if \<not> list_all (py_eq v) vs
                 then Inl (RuntimeErr ''cannot resolve ColdSnap worker from local or group rank'')
                 else if \<not> id_value v then Inl (RuntimeErr ''ColdSnap worker identity is invalid'')
                 else worker_text v))"

definition resolve_worker :: "pylib \<Rightarrow> json option \<Rightarrow> environment \<Rightarrow> string res" where
  "resolve_worker L graph env =
     (case graph of
        Some g \<Rightarrow> worker_id g env
      | None \<Rightarrow> bind_res (execution_graph L env True) (\<lambda>g. bind_res (opt_res AssertionErr g) (\<lambda>g. worker_id g env)))"

section \<open>Ranks\<close>

fun explicit_rank :: "environment \<Rightarrow> string list \<Rightarrow> int option res" where
  "explicit_rank env [] = Inr None"
| "explicit_rank env (name # names) =
     (case dict_get env name of
        None \<Rightarrow> explicit_rank env names
      | Some raw \<Rightarrow>
          (case py_int raw of
             None \<Rightarrow> Inl (RuntimeErr ''environment is not a valid rank'')
           | Some rank \<Rightarrow> if rank < 0 then Inl (RuntimeErr ''environment is not a valid rank'') else Inr (Some rank)))"

definition RANK_NAMES :: "string list" where
  "RANK_NAMES = [''RANK'', ''COLDSNAP_RANK'', ''COLDSNAP_EXPECTED_RANK'']"

definition rank_entry :: "string \<Rightarrow> int list \<Rightarrow> string \<times> json \<Rightarrow> int list res" where
  "rank_entry worker matches entry =
     (case entry of (rank_text, member) \<Rightarrow>
        if \<not> py_eq member (JStr worker) then Inr matches
        else case py_int rank_text of
          None \<Rightarrow> Inl (RuntimeErr ''ColdSnap world group contains an invalid rank'')
        | Some rank \<Rightarrow>
            if rank < 0 \<or> str_int rank \<noteq> rank_text
            then Inl (RuntimeErr ''ColdSnap world group contains an invalid rank'')
            else Inr (if rank \<in> set matches then matches else matches @ [rank]))"

definition group_ranks :: "json \<Rightarrow> (string \<times> json) list" where
  "group_ranks g = (case jget g ''ranks'' of Some (JObj kvs) \<Rightarrow> kvs | _ \<Rightarrow> [])"

definition topology_rank :: "string \<Rightarrow> (string \<times> json) list \<Rightarrow> int option res" where
  "topology_rank worker groups =
     bind_res (fold_res (\<lambda>ms g. fold_res (rank_entry worker) ms (group_ranks g)) []
                 (filter is_world_group (map snd groups)))
       (\<lambda>matches. case matches of
          [] \<Rightarrow> Inr None
        | [r] \<Rightarrow> Inr (Some r)
        | _ \<Rightarrow> Inl (RuntimeErr ''ColdSnap worker has conflicting global ranks in world groups''))"

definition global_rank :: "pylib \<Rightarrow> json option \<Rightarrow> environment \<Rightarrow> bool \<Rightarrow> int option res" where
  "global_rank L graph env required =
     bind_res (explicit_rank env RANK_NAMES) (\<lambda>explicit.
     bind_res (case graph of Some g \<Rightarrow> Inr (Some g) | None \<Rightarrow> execution_graph L env False) (\<lambda>graph.
     bind_res
       (case graph of
          None \<Rightarrow> Inr None
        | Some g \<Rightarrow>
            bind_res (worker_id g env) (\<lambda>worker.
            bind_res (obj_field g ''groups'') (\<lambda>groups. topology_rank worker groups)))
       (\<lambda>topology.
     if explicit \<noteq> None \<and> topology \<noteq> None \<and> explicit \<noteq> topology
     then Inl (RuntimeErr ''explicit global rank disagrees with execution topology'')
     else if topology \<noteq> None then Inr topology
     else if explicit \<noteq> None then Inr explicit
     else if required then Inl (RuntimeErr ''cannot resolve ColdSnap global rank'')
     else Inr None)))"

definition world_group :: "pylib \<Rightarrow> environment \<Rightarrow> int \<Rightarrow> json option \<Rightarrow> (string \<times> json) res" where
  "world_group L env rank graph =
     bind_res (case graph of Some g \<Rightarrow> Inr g
               | None \<Rightarrow> bind_res (execution_graph L env True) (opt_res AssertionErr)) (\<lambda>g.
     bind_res (obj_field g ''groups'') (\<lambda>groups.
       case filter (\<lambda>(_, grp). is_world_group grp \<and>
              (case jget grp ''size'' of Some s \<Rightarrow> is_int s | None \<Rightarrow> False) \<and>
              str_int rank \<in> fst ` set (group_ranks grp)) groups of
         [m] \<Rightarrow> Inr m
       | _ \<Rightarrow> Inl (RuntimeErr ''runtime rank does not identify exactly one world group'')))"

section \<open>Identities are well formed\<close>

lemma execution_graph_Some:
  assumes "execution_graph L env r = Inr (Some g)"
  obtains slots groups where "obj_field g ''by_process_slot'' = Inr slots" "slots \<noteq> []"
    "\<forall>p \<in> set slots. id_value (snd p)" "obj_field g ''groups'' = Inr groups"
proof -
  have "\<exists>slots groups. obj_field g ''by_process_slot'' = Inr slots \<and> slots \<noteq> [] \<and>
      (\<forall>p \<in> set slots. id_value (snd p)) \<and> obj_field g ''groups'' = Inr groups"
  proof (cases "dict_get env EXECUTION_GRAPH_ENV")
    case None
    with assms show ?thesis by (simp add: execution_graph_def split: if_splits)
  next
    case (Some raw)
    with assms obtain slots where slots: "obj_field g ''by_process_slot'' = Inr slots"
        "list_all (\<lambda>(_, w). id_value w) slots"
        "\<not> (case jget g ''by_process_slot'' of Some (JObj slots) \<Rightarrow> slots = [] | _ \<Rightarrow> True)"
        "case jget g ''groups'' of Some g \<Rightarrow> is_obj g | None \<Rightarrow> False"
      by (cases raw) (auto simp: execution_graph_def split: if_splits)
    from slots(1,3) have "slots \<noteq> []"
      by (auto simp: obj_field_def elim!: obj_items.elims split: option.splits json.splits)
    moreover from slots(4) obtain kvs where "jget g ''groups'' = Some (JObj kvs)"
      by (auto split: option.splits elim: is_obj.elims)
    ultimately show ?thesis using slots(1,2) by (force simp: obj_field_def list_all_iff)
  qed
  with that show ?thesis by blast
qed

lemma id_value_text: "id_value v \<Longrightarrow> \<exists>s. v = JStr s \<and> id_match s"
  by (cases v) auto

text \<open>
  From a graph that was read and checked, a worker resolves to a well-formed identifier
  that the graph itself names: the one bound to the local rank if there is one, else the
  only slot, else the member of a world group under the global rank. It fails only with a
  runtime error, or a type error when a group binds the rank to a list or an object.
\<close>

theorem worker_id_well_formed:
  assumes "execution_graph L env r = Inr (Some g)"
  shows "(case worker_id g env of
      Inr w \<Rightarrow> id_match w \<and>
        (\<exists>slots groups. obj_field g ''by_process_slot'' = Inr slots \<and> obj_field g ''groups'' = Inr groups \<and>
           (JStr w \<in> snd ` set slots \<or>
            (\<exists>rank grp. dict_get env ''RANK'' = Some rank \<and> grp \<in> snd ` set groups \<and> is_world_group grp \<and>
               rank_member rank grp = Some (JStr w))))
    | Inl e \<Rightarrow> is_runtime_error e \<or> e = TypeErr ''unhashable type'')"
proof -
  from execution_graph_Some [OF assms] obtain slots groups where
    g: "obj_field g ''by_process_slot'' = Inr slots" "slots \<noteq> []" "\<forall>p \<in> set slots. id_value (snd p)"
      "obj_field g ''groups'' = Inr groups" by blast
  have slot: ?thesis if "worker_id g env = worker_text v" "v \<in> snd ` set slots" for v
  proof -
    from that(2) g(3) obtain s where "v = JStr s" "id_match s" using id_value_text by blast
    with that g show ?thesis by auto
  qed
  show ?thesis
  proof (cases "Option.bind (dict_get env ''LOCAL_RANK'') (dict_get slots)")
    case (Some v)
    then have "v \<in> snd ` set slots" by (auto simp: bind_eq_Some_conv dest!: map_of_SomeD intro: rev_image_eqI)
    with Some g(1) show ?thesis by (intro slot) (simp_all add: worker_id_def)
  next
    case None
    show ?thesis
    proof (cases "length slots = 1")
      case True
      with g(2) have "snd (hd slots) \<in> snd ` set slots" by simp
      with None True g(1) show ?thesis by (intro slot) (simp_all add: worker_id_def)
    next
      case False
      let ?ms = "rank_matches env groups"
      have run: "worker_id g env =
         (if \<not> list_all hashable ?ms then Inl (TypeErr ''unhashable type'')
          else case ?ms of
             [] \<Rightarrow> Inl (RuntimeErr ''cannot resolve ColdSnap worker from local or group rank'')
           | v # vs \<Rightarrow>
               if \<not> list_all (py_eq v) vs
               then Inl (RuntimeErr ''cannot resolve ColdSnap worker from local or group rank'')
               else if \<not> id_value v then Inl (RuntimeErr ''ColdSnap worker identity is invalid'')
               else worker_text v)"
        using None False g(1,4) by (simp add: worker_id_def Let_def)
      have member: "\<exists>rank grp. dict_get env ''RANK'' = Some rank \<and> grp \<in> snd ` set groups \<and> is_world_group grp \<and>
          rank_member rank grp = Some v" if "v \<in> set ?ms" for v
      proof (cases "dict_get env ''RANK''")
        case (Some rank)
        with that obtain p where "p \<in> set groups" "is_world_group (snd p)" "rank_member rank (snd p) = Some v"
          by (auto simp: rank_matches_def map_filter_def)
        with Some show ?thesis by blast
      qed (use that in \<open>simp add: rank_matches_def\<close>)
      show ?thesis
      proof (cases "\<exists>v vs. ?ms = v # vs \<and> list_all hashable ?ms \<and> list_all (py_eq v) vs \<and> id_value v")
        case True
        then obtain v vs s where v: "?ms = v # vs" "v = JStr s" "id_match s" "list_all hashable ?ms"
            "list_all (py_eq v) vs" using id_value_text by blast
        then have id: "worker_id g env = Inr s" by (simp add: run)
        have "v \<in> set ?ms" by (simp add: v(1))
        from member [OF this] v(2,3) g(1,4) show ?thesis by (auto simp: id)
      next
        case False
        then show ?thesis unfolding run by (auto split: list.splits)
      qed
    qed
  qed
qed

definition demo_graph :: json where
  "demo_graph =
     JObj [(''by_process_slot'', JObj [(''0'', JStr ''w0''), (''1'', JStr ''w1'')]),
           (''groups'', JObj [(''g'', JObj [(''kind'', JStr ''vllm:world''),
              (''ranks'', JObj [(''0'', JStr ''w0''), (''1'', JStr ''w1'')]), (''size'', JInt 2)])]),
           (''unit'', JStr ''u0'')]"

definition demo_environment :: environment where
  "demo_environment =
     [(EXECUTION_GRAPH_ENV, json_text plain_lib demo_graph), (''LOCAL_RANK'', ''1'')]"

lemma demo_graph_read: "execution_graph plain_lib demo_environment True = Inr (Some demo_graph)"
  by code_simp

theorem worker_id_well_formed_witness:
  "execution_graph plain_lib demo_environment True = Inr (Some demo_graph) \<and>
   worker_id demo_graph demo_environment = Inr ''w1'' \<and> id_match ''w1''"
proof -
  have "worker_id demo_graph demo_environment = Inr ''w1''" by code_simp
  with worker_id_well_formed [OF demo_graph_read] demo_graph_read show ?thesis by simp
qed

section \<open>Ranks agree with the graph\<close>

lemma fold_res_nested:
  "fold_res (\<lambda>s g. fold_res f s (h g)) s gs = fold_res f s (concat (map h gs))"
  by (induction gs arbitrary: s) (simp_all add: fold_res_append)

lemma rank_entry_Inr:
  assumes "rank_entry worker ms p = Inr ms'"
  shows "if snd p = JStr worker
    then \<exists>rank. 0 \<le> rank \<and> fst p = str_int rank \<and> set ms' = insert rank (set ms) \<and> (distinct ms \<longrightarrow> distinct ms')
    else ms' = ms"
proof (cases "snd p = JStr worker")
  case True
  with assms obtain rank where "py_int (fst p) = Some rank" "\<not> rank < 0" "str_int rank = fst p"
      "ms' = (if rank \<in> set ms then ms else ms @ [rank])"
    by (cases p) (auto simp: rank_entry_def split: if_splits option.splits)
  with True show ?thesis by (auto intro!: exI [of _ rank])
qed (use assms in \<open>cases p; auto simp: rank_entry_def py_eq_JStr\<close>)

text \<open>The entries of the world groups that bind the worker.\<close>

definition world_entries :: "string \<Rightarrow> (string \<times> json) list \<Rightarrow> string set" where
  "world_entries worker groups =
     {t. \<exists>g \<in> snd ` set groups. is_world_group g \<and> (t, JStr worker) \<in> set (group_ranks g)}"

lemma fold_rank_entries:
  assumes "fold_res (rank_entry worker) [] entries = Inr ms"
  shows "distinct ms \<and> (\<forall>r \<in> set ms. 0 \<le> r) \<and>
    {t. (t, JStr worker) \<in> set entries} = str_int ` set ms"
proof -
  have "distinct ms \<and> (\<forall>r \<in> set ms. 0 \<le> r) \<and> {t. (t, JStr worker) \<in> set entries} = str_int ` set ms"
    using assms
  proof (rule fold_res_prefix_invariant)
    fix ys x s t
    assume inv: "distinct s \<and> (\<forall>r \<in> set s. 0 \<le> r) \<and> {t. (t, JStr worker) \<in> set ys} = str_int ` set s"
      and step: "rank_entry worker s x = Inr t"
    obtain a b where x: "x = (a, b)" by force
    have split: "{t. (t, JStr worker) \<in> set (ys @ [x])} =
        {t. (t, JStr worker) \<in> set ys} \<union> (if b = JStr worker then {a} else {})" by (auto simp: x)
    from rank_entry_Inr [OF step] inv
    show "distinct t \<and> (\<forall>r \<in> set t. 0 \<le> r) \<and> {u. (u, JStr worker) \<in> set (ys @ [x])} = str_int ` set t"
      unfolding split by (auto simp: x split: if_splits)
  qed simp
  then show ?thesis .
qed

lemma topology_rank_exact:
  assumes "topology_rank worker groups = Inr r"
  shows "world_entries worker groups = str_int ` set_option r \<and> (\<forall>k \<in> set_option r. 0 \<le> k)"
proof -
  let ?es = "concat (map group_ranks (filter is_world_group (map snd groups)))"
  from assms obtain ms where ms: "fold_res (rank_entry worker) [] ?es = Inr ms"
      and r: "(case ms of [] \<Rightarrow> Inr None | [r] \<Rightarrow> Inr (Some r)
        | _ \<Rightarrow> Inl (RuntimeErr ''ColdSnap worker has conflicting global ranks in world groups'')) = Inr r"
    by (auto simp: topology_rank_def fold_res_nested)
  have "set ms = set_option r" using r by (auto split: list.splits)
  moreover have "{t. (t, JStr worker) \<in> set ?es} = world_entries worker groups"
    by (auto simp: world_entries_def)
  ultimately show ?thesis using fold_rank_entries [OF ms] by simp
qed

text \<open>
  C30: A global rank that resolves is not negative; every entry of a world group that names
  the worker names it under exactly this rank; and the first rank variable that is set in
  the environment holds this number. Without such an entry and such a variable there is no
  rank, and with both disagreeing the call raises.
\<close>

theorem global_rank_consistent:
  assumes "worker_id g env = Inr w" "obj_field g ''groups'' = Inr groups"
  shows "(case global_rank L (Some g) env required of
      Inr (Some r) \<Rightarrow> 0 \<le> r \<and> world_entries w groups \<subseteq> {str_int r} \<and>
        explicit_rank env RANK_NAMES \<in> {Inr None, Inr (Some r)} \<and>
        (world_entries w groups \<noteq> {} \<or> explicit_rank env RANK_NAMES = Inr (Some r))
    | Inr None \<Rightarrow> \<not> required \<and> world_entries w groups = {} \<and> explicit_rank env RANK_NAMES = Inr None
    | Inl e \<Rightarrow> is_runtime_error e)"
proof -
  have nonneg: "explicit_rank env ns = Inr (Some k) \<Longrightarrow> 0 \<le> k" for ns k
    by (induction ns) (auto split: option.splits if_splits)
  have err: "explicit_rank env ns = Inl e \<Longrightarrow> is_runtime_error e" for ns e
    by (induction ns) (auto split: option.splits if_splits)
  have terr: "topology_rank w groups = Inl e \<Longrightarrow> is_runtime_error e" for e
  proof -
    have entry: "raises_only is_runtime_error (rank_entry w s x)" for s x
      by (auto simp: raises_only_def rank_entry_def split: prod.splits option.splits if_splits)
    have "raises_only is_runtime_error (topology_rank w groups)"
      unfolding topology_rank_def fold_res_nested
      by (intro raises_only_bind raises_only_fold entry) (auto simp: raises_only_def split: list.splits)
    then show "topology_rank w groups = Inl e \<Longrightarrow> is_runtime_error e" by (simp add: raises_only_def)
  qed
  show ?thesis
  proof (cases "explicit_rank env RANK_NAMES")
    case (Inl e)
    then show ?thesis using err by (simp add: global_rank_def)
  next
    case (Inr ex)
    show ?thesis
    proof (cases "topology_rank w groups")
      case (Inl e)
      then show ?thesis using terr Inr assms by (simp add: global_rank_def)
    next
      case top: (Inr t)
      show ?thesis
        using topology_rank_exact [OF top] nonneg [of RANK_NAMES] Inr top assms
        by (cases t; cases ex) (auto simp: global_rank_def)
    qed
  qed
qed

theorem global_rank_consistent_witness:
  "worker_id demo_graph demo_environment = Inr ''w1'' \<and>
   global_rank plain_lib (Some demo_graph) demo_environment True = Inr (Some 1) \<and>
   (0 :: int) \<le> 1"
proof -
  have w: "worker_id demo_graph demo_environment = Inr ''w1''" by code_simp
  obtain groups where g: "obj_field demo_graph ''groups'' = Inr groups"
    by (simp add: obj_field_def demo_graph_def)
  have "global_rank plain_lib (Some demo_graph) demo_environment True = Inr (Some 1)" by code_simp
  with global_rank_consistent [OF w g, where L = plain_lib and required = True] w show ?thesis by simp
qed

end
