(* ===== verification/Cold_Layout.thy ===== *)
theory Cold_Layout
  imports Cold_Artifact
begin

text \<open>
  Semantic matching of captured weight allocations with those of a fresh process
  (\<^verbatim>\<open>coldsnap_layout.py\<close>): the tensors a model owns, with their owner paths, the allocation
  each lies in, the fingerprint of an allocation's references, and the replay map from saved
  to current allocations.

  Python objects are references into a heap, so that sharing and cycles are those of the
  process; tensors are those of \<open>Cold_Artifact\<close>.
\<close>

section \<open>Tensors of a model\<close>

datatype py_value = VTensor nat | VAtom | VRef nat

text \<open>
  What the walk distinguishes: dictionaries with the text and the representation of each key,
  sequences, dataclass instances, instances of engine classes with their attributes, and
  everything else.
\<close>

datatype py_object =
    ODict "(string \<times> string \<times> py_value) list"
  | OSeq "py_value list"
  | OData "(string \<times> py_value) list"
  | OEngine "(string \<times> py_value) list"
  | OOpaque

record walk =
  seen_tensors :: "nat list"
  seen_objects :: "nat list"
  found :: "(string \<times> string \<times> nat) list"

definition children :: "py_object \<Rightarrow> string \<Rightarrow> (string \<times> py_value) list" where
  "children ob path =
     (case ob of
        ODict kvs \<Rightarrow> map (\<lambda>(_, rep, v). (path @ ''['' @ rep @ '']'', v)) (sort_key fst kvs)
      | OSeq vs \<Rightarrow> map (\<lambda>(i, v). (path @ ''['' @ str_int (int i) @ '']'', v)) (enumerate 0 vs)
      | OData fs \<Rightarrow> map (\<lambda>(name, v). (path @ ''.'' @ name, v)) fs
      | OEngine fs \<Rightarrow> map (\<lambda>(name, v). (path @ ''.'' @ name, v)) (sort_key fst fs)
      | OOpaque \<Rightarrow> [])"

fun visit :: "(nat \<Rightarrow> py_object) \<Rightarrow> nat \<Rightarrow> py_value \<Rightarrow> string \<Rightarrow> walk \<Rightarrow> walk" where
  "visit heap depth (VTensor i) path s =
     (if i \<in> set (seen_tensors s) then s
      else s\<lparr>seen_tensors := i # seen_tensors s, found := found s @ [(path, ''object'', i)]\<rparr>)"
| "visit heap depth VAtom path s = s"
| "visit heap 0 (VRef r) path s = s"
| "visit heap (Suc depth) (VRef r) path s =
     (if r \<in> set (seen_objects s) then s
      else fold (\<lambda>(p, v) s. visit heap depth v p s) (children (heap r) path)
             (s\<lparr>seen_objects := r # seen_objects s\<rparr>))"

text \<open>
  A module with the prepared experts of its quantisation method, if any, and its attributes.
\<close>

record layout_module =
  mod_name :: string
  prepared_experts :: "py_value option"
  attributes :: "(string \<times> py_value) list"

record layout_model =
  named_parameters :: "(string \<times> nat) list"
  named_buffers :: "(string \<times> nat) list"
  named_modules :: "layout_module list"

definition module_prefix :: "layout_module \<Rightarrow> string" where
  "module_prefix m = (if mod_name m = [] then ''<root>'' else mod_name m)"

definition visit_experts :: "(nat \<Rightarrow> py_object) \<Rightarrow> layout_module \<Rightarrow> walk \<Rightarrow> walk" where
  "visit_experts heap m s =
     (case prepared_experts m of
        None \<Rightarrow> s
      | Some v \<Rightarrow>
          visit heap 16 v
            (module_prefix m @ ''.quant_method.moe_kernel.fused_experts._prepared_experts'') s)"

definition visit_attributes :: "(nat \<Rightarrow> py_object) \<Rightarrow> layout_module \<Rightarrow> walk \<Rightarrow> walk" where
  "visit_attributes heap m s =
     fold (\<lambda>(name, v) s.
             if name \<in> set [''_parameters'', ''_buffers'', ''_modules''] then s
             else visit heap 16 v (module_prefix m @ ''.'' @ name) s)
       (sort_key fst (attributes m)) s"

definition model_tensors :: "(nat \<Rightarrow> py_object) \<Rightarrow> layout_model \<Rightarrow> (string \<times> string \<times> nat) list" where
  "model_tensors heap m =
     (let named = map (\<lambda>(name, t). (name, ''parameter'', t)) (named_parameters m) @
                  map (\<lambda>(name, t). (name, ''buffer'', t)) (named_buffers m);
          s = \<lparr>seen_tensors = map (\<lambda>(_, _, t). t) named, seen_objects = [], found = named\<rparr>
      in found (fold (visit_attributes heap) (named_modules m)
                 (fold (visit_experts heap) (named_modules m) s)))"

section \<open>Allocations and references\<close>

definition tensor_nbytes :: "tensor \<Rightarrow> int" where
  "tensor_nbytes t = t_numel t * t_element_size t"

fun find_allocation_from :: "nat \<Rightarrow> int \<Rightarrow> int \<Rightarrow> (int \<times> int) list \<Rightarrow> nat option" where
  "find_allocation_from i ptr nbytes [] = None"
| "find_allocation_from i ptr nbytes ((base, len) # rest) =
     (if base \<le> ptr \<and> ptr + nbytes \<le> base + len then Some i
      else find_allocation_from (Suc i) ptr nbytes rest)"

definition find_allocation :: "int \<Rightarrow> int \<Rightarrow> (int \<times> int) list \<Rightarrow> nat option" where
  "find_allocation ptr nbytes allocations = find_allocation_from 0 ptr nbytes allocations"

record layout_ref =
  ref_owner :: string
  ref_kind :: string
  ref_shape :: "int list"
  ref_stride :: "int list"
  ref_dtype :: string
  ref_nbytes :: int
  ref_offset :: int

type_synonym fingerprint = "(string \<times> string \<times> int list \<times> int list \<times> string \<times> int \<times> int) list"

definition ref_key :: "layout_ref \<Rightarrow> string \<times> string \<times> int list \<times> int list \<times> string \<times> int \<times> int" where
  "ref_key r =
     (ref_owner r, ref_kind r, ref_shape r, ref_stride r, ref_dtype r, ref_nbytes r, ref_offset r)"

definition reference_fingerprint :: "layout_ref list \<Rightarrow> fingerprint" where
  "reference_fingerprint refs = sort (map ref_key refs)"

text \<open>The allocation a CUDA tensor is referred to: that of its elements, else that of its storage.\<close>

definition tensor_allocation :: "(int \<times> int) list \<Rightarrow> tensor \<Rightarrow> nat option" where
  "tensor_allocation current t =
     (case find_allocation (t_data_ptr t) (tensor_nbytes t) current of
        Some i \<Rightarrow> Some i
      | None \<Rightarrow> find_allocation (t_storage_ptr t) (t_storage_nbytes t) current)"

definition layout_reference :: "(int \<times> int) list \<Rightarrow> string \<Rightarrow> string \<Rightarrow> tensor \<Rightarrow> nat \<Rightarrow> layout_ref" where
  "layout_reference current name kind t i =
     \<lparr>ref_owner = name, ref_kind = kind, ref_shape = t_shape t, ref_stride = t_stride t, ref_dtype = t_dtype t,
      ref_nbytes = tensor_nbytes t, ref_offset = t_data_ptr t - fst (current ! i)\<rparr>"

definition add_reference ::
  "(nat \<Rightarrow> tensor) \<Rightarrow> (int \<times> int) list \<Rightarrow> layout_ref list list \<Rightarrow> string \<times> string \<times> nat \<Rightarrow> layout_ref list list" where
  "add_reference tensors current refs entry =
     (case entry of (name, kind, tid) \<Rightarrow>
        let t = tensors tid in
        if t_device_type t \<noteq> ''cuda'' \<or> t_numel t = 0 then refs
        else case tensor_allocation current t of
          None \<Rightarrow> refs
        | Some i \<Rightarrow> refs[i := refs ! i @ [layout_reference current name kind t i]])"

definition current_references ::
  "(nat \<Rightarrow> tensor) \<Rightarrow> (int \<times> int) list \<Rightarrow> (string \<times> string \<times> nat) list \<Rightarrow> layout_ref list list" where
  "current_references tensors current owned =
     foldl (add_reference tensors current) (map (\<lambda>_. []) current) owned"

section \<open>The replay map\<close>

record saved_entry =
  saved_size :: int
  saved_refs :: "layout_ref list"

definition GIB :: int where
  "GIB = 1024 ^ 3"

text \<open>\<^verbatim>\<open>by_fingerprint.setdefault(fingerprint, []).append(index)\<close> for every non-empty fingerprint.\<close>

definition by_fingerprint :: "layout_ref list list \<Rightarrow> (fingerprint, nat list) dict" where
  "by_fingerprint refs =
     foldl (\<lambda>d (i, rs).
        let f = reference_fingerprint rs in
        if f = [] then d
        else dict_put f ((case dict_get d f of None \<Rightarrow> [] | Some is \<Rightarrow> is) @ [i]) d) [] (enumerate 0 refs)"

definition place_source ::
  "saved_entry list \<Rightarrow> (int \<times> int) list \<Rightarrow> (fingerprint, nat list) dict \<Rightarrow>
   (nat, nat) dict \<Rightarrow> fingerprint \<times> nat list \<Rightarrow> (nat, nat) dict res" where
  "place_source saved current targets mapping src =
     (case src of (f, sources) \<Rightarrow>
        case (case dict_get targets f of None \<Rightarrow> [] | Some is \<Rightarrow> is) of
          [c] \<Rightarrow>
            (case sources of
               s # _ \<Rightarrow>
                 if saved_size (saved ! s) \<noteq> snd (current ! c)
                 then Inl (RuntimeErr ''semantic allocation size mismatch'')
                 else Inr (dict_put s c mapping)
             | [] \<Rightarrow> Inl IndexErr)
        | _ \<Rightarrow> Inl (RuntimeErr ''semantic replay cannot place source allocation''))"

definition replay_entry ::
  "(int \<times> int) list \<Rightarrow> (nat, nat) dict \<Rightarrow> nat \<times> saved_entry \<Rightarrow> (nat \<times> int \<times> saved_entry) res" where
  "replay_entry current mapping ie =
     (case dict_get mapping (fst ie) of
        None \<Rightarrow> Inl (KeyErr ''allocation index'')
      | Some c \<Rightarrow> Inr (c, fst (current ! c), snd ie))"

definition semantic_replay_map ::
  "(nat \<Rightarrow> py_object) \<Rightarrow> (nat \<Rightarrow> tensor) \<Rightarrow> saved_entry list \<Rightarrow> (int \<times> int) list \<Rightarrow> layout_model \<Rightarrow>
   ((nat \<times> int \<times> saved_entry) list \<times> nat list \<times> int) res" where
  "semantic_replay_map heap tensors saved current model =
     (let refs = current_references tensors current (model_tensors heap model);
          sources = by_fingerprint (map saved_refs saved);
          targets = by_fingerprint refs in
      if list_ex (\<lambda>(_, is). length is \<noteq> 1) sources \<or> list_ex (\<lambda>(_, is). length is \<noteq> 1) targets
      then Inl (RuntimeErr ''semantic replay contains ambiguous allocation fingerprints'')
      else bind_res (fold_res (place_source saved current targets) [] sources) (\<lambda>mapping.
        let used = map snd mapping in
        if list_ex (\<lambda>(i, rs). rs \<noteq> [] \<and> i \<notin> set used) (enumerate 0 refs)
        then Inl (RuntimeErr ''fresh model has unmatched referenced allocations'')
        else bind_res (traverse (replay_entry current mapping) (enumerate 0 saved)) (\<lambda>replay.
          let extras = filter (\<lambda>i. i \<notin> set used) [0..<length current];
              extra_bytes = sum_list (map (\<lambda>i. snd (current ! i)) extras) in
          if length extras > 16 \<or> extra_bytes > GIB
          then Inl (RuntimeErr ''semantic replay extras exceed safety bound'')
          else Inr (replay, extras, int (length sources)))))"

section \<open>Grouping by fingerprint\<close>

definition indices_of :: "layout_ref list list \<Rightarrow> fingerprint \<Rightarrow> nat list" where
  "indices_of rss f = filter (\<lambda>i. reference_fingerprint (rss ! i) = f) [0..<length rss]"

lemma indices_of_snoc:
  "indices_of (rss @ [rs]) f =
     indices_of rss f @ (if reference_fingerprint rs = f then [length rss] else [])"
  by (auto simp: indices_of_def nth_append intro!: filter_cong)

lemma enumerate_snoc: "enumerate 0 (xs @ [x]) = enumerate 0 xs @ [(length xs, x)]"
  by (simp add: enumerate_eq_zip)

lemma by_fingerprint_get:
  "dict_get (by_fingerprint rss) f =
     (if f = [] \<or> indices_of rss f = [] then None else Some (indices_of rss f))"
proof (induction rss arbitrary: f rule: rev_induct)
  case Nil
  then show ?case by (simp add: by_fingerprint_def indices_of_def)
next
  case (snoc rs rss)
  have step: "by_fingerprint (rss @ [rs]) =
      (let g = reference_fingerprint rs; d = by_fingerprint rss in
       if g = [] then d
       else dict_put g ((case dict_get d g of None \<Rightarrow> [] | Some is \<Rightarrow> is) @ [length rss]) d)"
    by (simp add: by_fingerprint_def enumerate_snoc Let_def)
  show ?case by (auto simp: step Let_def snoc.IH indices_of_snoc)
qed

lemma foldl_invariant: "P s \<Longrightarrow> (\<And>s x. P s \<Longrightarrow> P (f s x)) \<Longrightarrow> P (foldl f s xs)"
  by (induction xs arbitrary: s) simp_all

lemma by_fingerprint_ok: "dict_ok (by_fingerprint rss)"
  unfolding by_fingerprint_def
  by (rule foldl_invariant [where P = dict_ok]) (auto simp: Let_def)

lemma by_fingerprint_mem:
  "(f, is) \<in> set (by_fingerprint rss) \<longleftrightarrow> f \<noteq> [] \<and> is \<noteq> [] \<and> is = indices_of rss f"
  using dict_get_iff [OF by_fingerprint_ok, of rss f "is"] by (auto simp: by_fingerprint_get split: if_splits)

lemma length_current_references [simp]: "length (current_references tensors current owned) = length current"
proof -
  have "length (foldl (add_reference tensors current) refs owned) = length refs" for refs
    by (induction owned arbitrary: refs)
      (auto simp: add_reference_def Let_def split: prod.splits option.splits)
  then show ?thesis by (simp add: current_references_def)
qed

section \<open>The map is an embedding\<close>

text \<open>What placing the sources establishes: every placed pair has one fingerprint and one size.\<close>

definition placed ::
  "saved_entry list \<Rightarrow> (int \<times> int) list \<Rightarrow> (fingerprint, nat list) dict \<Rightarrow> (fingerprint \<times> nat list) set \<Rightarrow> nat \<Rightarrow> nat \<Rightarrow> bool" where
  "placed saved current targets done s c =
     (\<exists>f rest. (f, s # rest) \<in> done \<and> dict_get targets f = Some [c] \<and> saved_size (saved ! s) = snd (current ! c))"

lemma place_source_Inr:
  assumes "place_source saved current targets m (f, srcs) = Inr m'"
  shows "\<exists>s rest c. srcs = s # rest \<and> dict_get targets f = Some [c] \<and>
    saved_size (saved ! s) = snd (current ! c) \<and> m' = dict_put s c m"
  using assms
  by (cases "dict_get targets f"; cases srcs)
    (auto simp: place_source_def split: list.splits if_splits)

lemma place_sources:
  assumes "fold_res (place_source saved current targets) [] srcs = Inr m"
  shows "dict_ok m \<and> (\<forall>s c. dict_get m s = Some c \<longrightarrow> placed saved current targets (set srcs) s c) \<and>
    (\<forall>f s rest. (f, s # rest) \<in> set srcs \<longrightarrow> dict_get m s \<noteq> None)"
  using assms
proof (rule fold_res_prefix_invariant)
  fix ys x m m'
  assume inv: "dict_ok m \<and> (\<forall>s c. dict_get m s = Some c \<longrightarrow> placed saved current targets (set ys) s c) \<and>
      (\<forall>f s rest. (f, s # rest) \<in> set ys \<longrightarrow> dict_get m s \<noteq> None)"
    and step: "place_source saved current targets m x = Inr m'"
  obtain f srcs' where x: "x = (f, srcs')" by force
  from place_source_Inr [OF step [unfolded x]] obtain s rest c where
    p: "srcs' = s # rest" "dict_get targets f = Some [c]" "saved_size (saved ! s) = snd (current ! c)" "m' = dict_put s c m"
    by blast
  have "placed saved current targets (set (ys @ [x])) s c" using p by (auto simp: placed_def x)
  moreover have "placed saved current targets (set ys) a b \<Longrightarrow> placed saved current targets (set (ys @ [x])) a b" for a b
    by (auto simp: placed_def)
  ultimately show "dict_ok m' \<and> (\<forall>s c. dict_get m' s = Some c \<longrightarrow> placed saved current targets (set (ys @ [x])) s c) \<and>
      (\<forall>f s rest. (f, s # rest) \<in> set (ys @ [x]) \<longrightarrow> dict_get m' s \<noteq> None)"
    using inv p by (auto simp: x)
qed simp

lemma indices_of_nth: "i \<in> set (indices_of rss f) \<longleftrightarrow> i < length rss \<and> reference_fingerprint (rss ! i) = f"
  by (auto simp: indices_of_def)

lemma replay_entries:
  assumes "traverse (replay_entry current m) (enumerate 0 saved) = Inr replay" "i < length saved"
  shows "\<exists>c. dict_get m i = Some c \<and> replay ! i = (c, fst (current ! c), saved ! i)"
proof -
  from assms(1) have all2: "list_all2 (\<lambda>x y. replay_entry current m x = Inr y) (enumerate 0 saved) replay"
    by (simp add: traverse_eq_Inr)
  then have "replay_entry current m (enumerate 0 saved ! i) = Inr (replay ! i)"
    using assms(2) by (auto simp: list_all2_conv_all_nth)
  with assms(2) show ?thesis by (auto simp: replay_entry_def nth_enumerate_eq split: option.splits)
qed

lemma replay_map_Inr:
  assumes "semantic_replay_map heap tensors saved current model = Inr (replay, extras, n)"
  defines "refs \<equiv> current_references tensors current (model_tensors heap model)"
  obtains m where "dict_ok m"
    "\<And>s c. dict_get m s = Some c \<Longrightarrow>
       placed saved current (by_fingerprint refs) (set (by_fingerprint (map saved_refs saved))) s c"
    "traverse (replay_entry current m) (enumerate 0 saved) = Inr replay"
    "\<And>i. i < length current \<Longrightarrow> refs ! i \<noteq> [] \<Longrightarrow> i \<in> snd ` set m"
    "extras = filter (\<lambda>i. i \<notin> snd ` set m) [0..<length current]"
    "length extras \<le> 16" "sum_list (map (\<lambda>i. snd (current ! i)) extras) \<le> GIB"
    "\<And>f is. (f, is) \<in> set (by_fingerprint (map saved_refs saved)) \<Longrightarrow> length is = 1"
proof -
  let ?src = "by_fingerprint (map saved_refs saved)"
  from assms(1) obtain m where fold: "fold_res (place_source saved current (by_fingerprint refs)) [] ?src = Inr m"
    and dup: "\<not> list_ex (\<lambda>(_, is). length is \<noteq> 1) ?src"
    and unmatched: "\<not> list_ex (\<lambda>(i, rs). rs \<noteq> [] \<and> i \<notin> set (map snd m)) (enumerate 0 refs)"
    and rest: "traverse (replay_entry current m) (enumerate 0 saved) = Inr replay"
      "extras = filter (\<lambda>i. i \<notin> set (map snd m)) [0..<length current]"
      "length extras \<le> 16" "sum_list (map (\<lambda>i. snd (current ! i)) extras) \<le> GIB"
    unfolding semantic_replay_map_def Let_def refs_def [symmetric] by (auto split: if_splits)
  have "i \<in> snd ` set m" if "i < length current" "refs ! i \<noteq> []" for i
  proof -
    have "(i, refs ! i) \<in> set (enumerate 0 refs)"
      using that(1) by (auto simp: refs_def in_set_enumerate_eq)
    with unmatched that(2) show ?thesis by (auto simp: list_ex_iff)
  qed
  moreover have "length is = 1" if "(f, is) \<in> set ?src" for f "is"
    using dup that by (auto simp: list_ex_iff)
  ultimately show ?thesis
    using that place_sources [OF fold] rest by auto
qed

text \<open>
  C26: When the replay map is returned, every saved allocation is placed, in order, on a
  current allocation of the same size whose references have the same owners, shapes,
  strides, types and offsets; no two saved allocations share a target; the current
  allocations left over carry no reference of the model and stay within the safety bound.
\<close>

theorem semantic_replay_sound:
  assumes "semantic_replay_map heap tensors saved current model = Inr (replay, extras, n)"
  shows "\<exists>target. (\<forall>i < length saved. target i < length current \<and>
      replay ! i = (target i, fst (current ! target i), saved ! i) \<and>
      saved_size (saved ! i) = snd (current ! target i) \<and> saved_refs (saved ! i) \<noteq> [] \<and>
      reference_fingerprint (saved_refs (saved ! i)) =
        reference_fingerprint (current_references tensors current (model_tensors heap model) ! target i)) \<and>
    inj_on target {..<length saved} \<and> length replay = length saved \<and>
    set extras = {..<length current} - target ` {..<length saved} \<and>
    (\<forall>c \<in> set extras. current_references tensors current (model_tensors heap model) ! c = []) \<and>
    length extras \<le> 16 \<and> sum_list (map (\<lambda>i. snd (current ! i)) extras) \<le> GIB"
proof -
  let ?refs = "current_references tensors current (model_tensors heap model)"
  let ?fp = "\<lambda>i. reference_fingerprint (saved_refs (saved ! i))"
  from replay_map_Inr [OF assms] obtain m where m: "dict_ok m"
    "\<And>s c. dict_get m s = Some c \<Longrightarrow>
       placed saved current (by_fingerprint ?refs) (set (by_fingerprint (map saved_refs saved))) s c"
    "traverse (replay_entry current m) (enumerate 0 saved) = Inr replay"
    "\<And>i. i < length current \<Longrightarrow> ?refs ! i \<noteq> [] \<Longrightarrow> i \<in> snd ` set m"
    "extras = filter (\<lambda>i. i \<notin> snd ` set m) [0..<length current]"
    "length extras \<le> 16" "sum_list (map (\<lambda>i. snd (current ! i)) extras) \<le> GIB"
    "\<And>f is. (f, is) \<in> set (by_fingerprint (map saved_refs saved)) \<Longrightarrow> length is = 1" by metis
  define target where "target i = the (dict_get m i)" for i
  have get: "dict_get m i = Some (target i) \<and> replay ! i = (target i, fst (current ! target i), saved ! i)"
    if "i < length saved" for i
    using replay_entries [OF m(3) that] by (auto simp: target_def)
  have place: "i < length saved \<and> c < length current \<and> saved_size (saved ! i) = snd (current ! c) \<and>
      ?fp i \<noteq> [] \<and> ?fp i = reference_fingerprint (?refs ! c) \<and> indices_of (map saved_refs saved) (?fp i) = [i]"
    if "dict_get m i = Some c" for i c
  proof -
    from m(2) [OF that] obtain f rest where
      f: "(f, i # rest) \<in> set (by_fingerprint (map saved_refs saved))" "dict_get (by_fingerprint ?refs) f = Some [c]"
        "saved_size (saved ! i) = snd (current ! c)" by (auto simp: placed_def)
    have "rest = []" using m(8) [OF f(1)] by simp
    then have src: "f \<noteq> []" "indices_of (map saved_refs saved) f = [i]" using f(1) by (simp_all add: by_fingerprint_mem)
    have tgt: "indices_of ?refs f = [c]" using f(2) by (simp add: by_fingerprint_get split: if_splits)
    have "i < length saved" "?fp i = f"
      using indices_of_nth [of i "map saved_refs saved" f] src(2) by auto
    moreover have "c < length current" "reference_fingerprint (?refs ! c) = f"
      using indices_of_nth [of c ?refs f] tgt by auto
    ultimately show ?thesis using src f(3) by simp
  qed
  have inj: "inj_on target {..<length saved}"
  proof (rule inj_onI)
    fix i j assume ij: "i \<in> {..<length saved}" "j \<in> {..<length saved}" "target i = target j"
    then have i: "dict_get m i = Some (target i)" and j: "dict_get m j = Some (target i)" using get by auto
    have "[i] = indices_of (map saved_refs saved) (?fp i)" using place [OF i] by metis
    also have "?fp i = ?fp j" using place [OF i] place [OF j] by metis
    also have "indices_of (map saved_refs saved) (?fp j) = [j]" using place [OF j] by metis
    finally show "i = j" by simp
  qed
  have used: "snd ` set m = target ` {..<length saved}"
  proof -
    have "(i, c) \<in> set m \<longleftrightarrow> i < length saved \<and> c = target i" for i c
      using dict_get_iff [OF m(1), of i c] place [of i c] get [of i] by auto
    then show ?thesis by force
  qed
  have "length replay = length saved" using traverse_length [OF m(3)] by simp
  moreover have "saved_refs (saved ! i) \<noteq> []" if "?fp i \<noteq> []" for i
    using that by (auto simp: reference_fingerprint_def)
  moreover have "\<forall>i < length saved. target i < length current \<and>
      replay ! i = (target i, fst (current ! target i), saved ! i) \<and>
      saved_size (saved ! i) = snd (current ! target i) \<and> saved_refs (saved ! i) \<noteq> [] \<and>
      ?fp i = reference_fingerprint (?refs ! target i)"
    using get place calculation(2) by blast
  moreover have "set extras = {..<length current} - target ` {..<length saved}"
    unfolding m(5) used by auto
  moreover have "\<forall>c \<in> set extras. ?refs ! c = []" using m(4) unfolding m(5) by auto
  ultimately show ?thesis using inj m(6,7) by blast
qed

definition demo_tensor :: tensor where
  "demo_tensor =
     \<lparr>t_dtype = ''torch.uint8'', t_shape = [4], t_stride = [1], t_data_ptr = 1000, t_numel = 4, t_element_size = 1,
      t_device_type = ''cuda'', t_device_index = Some 0, t_storage_ptr = 1000, t_storage_nbytes = 4\<rparr>"

definition demo_layout_model :: layout_model where
  "demo_layout_model = \<lparr>named_parameters = [(''w'', 0)], named_buffers = [], named_modules = []\<rparr>"

definition demo_saved :: saved_entry where
  "demo_saved =
     \<lparr>saved_size = 8, saved_refs = [\<lparr>ref_owner = ''w'', ref_kind = ''parameter'', ref_shape = [4], ref_stride = [1],
        ref_dtype = ''torch.uint8'', ref_nbytes = 4, ref_offset = 0\<rparr>]\<rparr>"

lemma demo_replay:
  "semantic_replay_map (\<lambda>_. OOpaque) (\<lambda>_. demo_tensor) [demo_saved] [(5000, 16), (1000, 8)] demo_layout_model =
     Inr ([(1, 1000, demo_saved)], [0], 1)"
  by code_simp

theorem semantic_replay_sound_witness:
  "semantic_replay_map (\<lambda>_. OOpaque) (\<lambda>_. demo_tensor) [demo_saved] [(5000, 16), (1000, 8)] demo_layout_model =
     Inr ([(1, 1000, demo_saved)], [0], 1) \<and> length [(1 :: nat, 1000 :: int, demo_saved)] = length [demo_saved]"
  using semantic_replay_sound [OF demo_replay] demo_replay by blast

text \<open>
  A saved allocation without references is never placed: if everything else about the
  capture fits, the call ends with a \<^verbatim>\<open>KeyError\<close> for its index, not with one of the
  \<^verbatim>\<open>RuntimeError\<close>s that name the mismatch.
\<close>

theorem semantic_replay_key_error:
  "semantic_replay_map (\<lambda>_. OOpaque) (\<lambda>_. demo_tensor) [demo_saved, \<lparr>saved_size = 16, saved_refs = []\<rparr>]
     [(5000, 16), (1000, 8)] demo_layout_model = Inl (KeyErr ''allocation index'')"
  by code_simp

end
