(* ===== verification/Cold_Providers.thy ===== *)
theory Cold_Providers
  imports Cold_Memory
begin

text \<open>
  The allocation providers behind the memory contracts: the native CUDA graph controller
  (\<^verbatim>\<open>coldsnap_graph_memory.py\<close>), vLLM's tagged allocation pool (\<^verbatim>\<open>coldsnap_vllm_memory.py\<close>, with
  the allocator view of \<^verbatim>\<open>coldsnap_vllm.py\<close>), the KV payload inventory
  (\<^verbatim>\<open>coldsnap_vllm_kv_payload.py\<close>) and the KV capacity guard (\<^verbatim>\<open>coldsnap_vllm_kv_capacity.py\<close>).
  The native graph library and vLLM's allocator are parameters.

  The locale \<open>lifecycle_provider\<close> is what users of either provider rely on: valid statistics
  and a revision that tells lifecycle changes apart.
\<close>

definition MIB2 :: int where
  "MIB2 = 2 * 1024 * 1024"

section \<open>The CUDA graph controller\<close>

record graph_region_stats =
  gs_allocation_count :: nat
  gs_raw_bytes :: nat
  gs_mapped_bytes :: nat
  gs_paused_count :: nat

record graph_allocation =
  ga_address :: nat
  ga_raw_bytes :: nat
  ga_mapped_bytes :: nat
  ga_device :: int
  ga_pool_id :: nat
  ga_state :: int

text \<open>The native library: each call returns its status; sizes are unsigned numbers.\<close>

record 'n graph_native =
  gn_push :: "int \<Rightarrow> int \<Rightarrow> 'n \<Rightarrow> 'n \<times> int"
  gn_pop :: "'n \<Rightarrow> 'n \<times> int"
  gn_pause :: "'n \<Rightarrow> 'n \<times> int"
  gn_resume :: "'n \<Rightarrow> 'n \<times> int"
  gn_stats :: "'n \<Rightarrow> int \<times> graph_region_stats"
  gn_allocation_at :: "'n \<Rightarrow> nat \<Rightarrow> int \<times> graph_allocation"

record 'n graph_controller =
  gc_native :: 'n
  gc_revision :: int

definition graph_capabilities :: provider_capabilities where
  "graph_capabilities = noop_capabilities
     \<lparr>pc_provider := ''coldsnap_cuda_vmm_graph'', pc_tagged_regions := True, pc_stable_virtual_addresses := True,
      pc_scoped_interception := True, pc_allocation_enumeration := True, pc_graph_regions := True,
      pc_per_device_synchronization := True, pc_native_backing_stores := [''discard''],
      pc_exact_address_reservation := True, pc_page_granular_mapping := True,
      pc_release_backing_retain_va := True, pc_mapping_recipe_replay := True\<rparr>"

definition resolve_graph_regions :: "region_ref list option \<Rightarrow> memory_region list res" where
  "resolve_graph_regions regions =
     (case regions of
        None \<Rightarrow> Inr [CUDA_GRAPH]
      | Some rs \<Rightarrow>
          bind_res (resolve_regions (Some rs)) (\<lambda>resolved.
            if list_ex (\<lambda>r. rg_name r \<noteq> rg_name CUDA_GRAPH) resolved
            then Inl (GraphMemoryError ''native CUDA graph controller only manages cuda_graph'')
            else Inr resolved))"

text \<open>\<^verbatim>\<open>with controller.capture_region(...): body\<close>; a failing pop replaces what the body raised.\<close>

definition capture_region ::
  "'n graph_native \<Rightarrow> int \<Rightarrow> int option \<Rightarrow> ('n graph_controller \<Rightarrow> 'n graph_controller \<times> 'a res) \<Rightarrow>
   'n graph_controller \<Rightarrow> 'n graph_controller \<times> 'a res" where
  "capture_region N pool_id device body s =
     (case gn_push N (case device of None \<Rightarrow> -1 | Some d \<Rightarrow> d) pool_id (gc_native s) of
        (n, st) \<Rightarrow>
          if st \<noteq> 0 then (s\<lparr>gc_native := n\<rparr>, Inl (GraphMemoryError ''native CUDA graph region push failed''))
          else (case body (s\<lparr>gc_native := n\<rparr>) of
            (s1, x) \<Rightarrow>
              (case gn_pop N (gc_native s1) of
                 (n1, st1) \<Rightarrow>
                   (s1\<lparr>gc_native := n1\<rparr>,
                    if st1 \<noteq> 0 then Inl (GraphMemoryError ''native CUDA graph region pop failed'') else x))))"

definition graph_transition ::
  "('n \<Rightarrow> 'n \<times> int) \<Rightarrow> string \<Rightarrow> region_ref list option \<Rightarrow> 'n graph_controller \<Rightarrow> 'n graph_controller \<times> unit res" where
  "graph_transition native operation regions s =
     (case resolve_graph_regions regions of
        Inl e \<Rightarrow> (s, Inl e)
      | Inr _ \<Rightarrow>
          (case native (gc_native s) of
             (n, st) \<Rightarrow>
               if st \<noteq> 0 then (s\<lparr>gc_native := n\<rparr>, Inl (GraphMemoryError (''native CUDA graph failed: '' @ operation)))
               else (s\<lparr>gc_native := n, gc_revision := gc_revision s + 1\<rparr>, Inr ())))"

definition graph_release where
  "graph_release N regions s = graph_transition (gn_pause N) ''pause'' regions s"

definition graph_restore where
  "graph_restore N regions s = graph_transition (gn_resume N) ''resume'' regions s"

definition graph_stats :: "'n graph_native \<Rightarrow> 'n graph_controller \<Rightarrow> graph_region_stats res" where
  "graph_stats N s =
     (case gn_stats N (gc_native s) of
        (st, v) \<Rightarrow> if st \<noteq> 0 then Inl (GraphMemoryError ''native CUDA graph stats failed'') else Inr v)"

definition graph_allocations :: "'n graph_native \<Rightarrow> 'n graph_controller \<Rightarrow> graph_allocation list res" where
  "graph_allocations N s =
     bind_res (graph_stats N s) (\<lambda>stats.
       traverse (\<lambda>i. case gn_allocation_at N (gc_native s) i of
           (st, a) \<Rightarrow>
             if st \<noteq> 0 then Inl (GraphMemoryError ''native CUDA graph allocation enumeration failed'') else Inr a)
         [0..<gs_allocation_count stats])"

definition graph_group :: "graph_allocation \<Rightarrow> string" where
  "graph_group a = ''device-'' @ str_int (ga_device a) @ '':pool-'' @ str_int (int (ga_pool_id a))"

definition graph_extension :: "graph_allocation list \<Rightarrow> (string \<times> json) list" where
  "graph_extension vs =
     [(''allocations'', JList (map (\<lambda>a. JObj
        [(''address'', JInt (int (ga_address a))), (''raw_bytes'', JInt (int (ga_raw_bytes a))),
         (''mapped_bytes'', JInt (int (ga_mapped_bytes a))), (''device'', JInt (ga_device a)),
         (''pool_id'', JInt (int (ga_pool_id a)))]) vs))]"

definition graph_describe_layout ::
  "pylib \<Rightarrow> 'n graph_native \<Rightarrow> region_ref \<Rightarrow> 'n graph_controller \<Rightarrow> memory_layout res" where
  "graph_describe_layout L N region s =
     bind_res (resolve_graph_regions (Some [region])) (\<lambda>_.
     bind_res (graph_allocations N s) (\<lambda>found.
     bind_res (graph_stats N s) (\<lambda>stats.
       let vs = sort_key ga_address found in
       layout_create L
         \<lparr>ml_format = 1, ml_provider = pc_provider graph_capabilities, ml_provider_abi = 1, ml_region = CUDA_GRAPH,
          ml_device = ''cuda:all'',
          ml_base_address = (if vs = [] then None else Some (int (Min (ga_address ` set vs)))),
          ml_logical_bytes = int (gs_raw_bytes stats), ml_allocation_granularity = MIB2,
          ml_mapping_granularity = MIB2, ml_layout_kind = OPAQUE, ml_groups = sorted_set (map graph_group vs),
          ml_extent_count = int (length vs), ml_transport_registration_mode = ''none'', ml_extension_json = [],
          ml_layout_digest = []\<rparr>
         (Some (graph_extension vs)))))"

definition graph_residency :: "'n graph_native \<Rightarrow> region_ref \<Rightarrow> 'n graph_controller \<Rightarrow> residency_stats res" where
  "graph_residency N region s =
     bind_res (resolve_graph_regions (Some [region])) (\<lambda>_.
     bind_res (graph_stats N s) (\<lambda>stats.
       let result =
         \<lparr>rs_format = 1, rs_provider = pc_provider graph_capabilities, rs_region = rg_name CUDA_GRAPH,
          rs_logical_bytes = int (gs_raw_bytes stats), rs_mapped_physical_bytes = int (gs_mapped_bytes stats),
          rs_reserved_physical_bytes = 0, rs_preserved_bytes = 0, rs_discardable_bytes = 0,
          rs_externally_hydrated_bytes = 0, rs_allocation_count = int (gs_allocation_count stats),
          rs_page_count = (int (gs_mapped_bytes stats) + MIB2 - 1) div MIB2,
          rs_released_mapping_count = int (gs_paused_count stats), rs_lifecycle_revision = gc_revision s,
          rs_lifecycle_epoch = ''cuda-graph-vmm-'' @ str_int (gc_revision s)\<rparr>
       in bind_res (stats_validate result) (\<lambda>_. Inr result)))"

text \<open>
  Opening the controller: the library file must exist and own the interposition.
  \<^verbatim>\<open>graph_controller_from_env\<close> gives the disabled controller when no library is named.
\<close>

definition graph_open :: "bool \<Rightarrow> int \<Rightarrow> 'n \<Rightarrow> 'n graph_controller res" where
  "graph_open is_file interposition n =
     (if \<not> is_file then Inl (GraphMemoryError ''native CUDA graph library does not exist'')
      else if interposition \<noteq> 1
        then Inl (GraphMemoryError ''library is loaded but does not own cudaMalloc interposition'')
      else Inr \<lparr>gc_native = n, gc_revision = 0\<rparr>)"

definition graph_controller_from_env ::
  "string option \<Rightarrow> bool \<Rightarrow> (string \<Rightarrow> 'n graph_controller res) \<Rightarrow> 'n graph_controller option res" where
  "graph_controller_from_env setting required open_library =
     (case setting of
        Some (c # cs) \<Rightarrow> bind_res (open_library (c # cs)) (\<lambda>g. Inr (Some g))
      | _ \<Rightarrow> if required then Inl (GraphMemoryError ''COLDSNAP_GRAPH_NATIVE_LIBRARY is required'') else Inr None)"

section \<open>vLLM's tagged allocation pool\<close>

text \<open>
  An entry of \<^verbatim>\<open>pointer_to_data\<close>: the integer value of the pointer if it has one, and the
  attributes of the data object, each \<open>None\<close> when missing (for the three sizes also when the
  value does not convert).
\<close>

record cumem_entry =
  ce_pointer :: "int option"
  ce_tag :: "string option"
  ce_handle :: bool
  ce_handle_size :: "int option"
  ce_size :: "int option"
  ce_nbytes :: "int option"
  ce_asleep :: "bool option"

record allocation =
  al_pointer :: int
  al_size :: int
  al_tag :: string
  al_released :: bool

definition contract_error :: "string \<Rightarrow> exn" where
  "contract_error message = VllmContractError (''unsupported vLLM contract: '' @ message)"

definition allocation_size :: "cumem_entry \<Rightarrow> int res" where
  "allocation_size d =
     (case (if ce_handle_size d \<noteq> None then ce_handle_size d
            else if ce_size d \<noteq> None then ce_size d else ce_nbytes d) of
        None \<Rightarrow> Inl (contract_error ''allocation size is absent from handle[1], size, and nbytes'')
      | Some n \<Rightarrow> if n \<le> 0 then Inl (contract_error ''allocation has invalid size'') else Inr n)"

definition allocation_step :: "string option \<Rightarrow> allocation list \<Rightarrow> cumem_entry \<Rightarrow> allocation list res" where
  "allocation_step wanted result d =
     (case (ce_tag d, ce_asleep d) of
        (Some t, Some asleep) \<Rightarrow>
          if \<not> ce_handle d then Inl (contract_error ''allocation data must expose tag, handle, and is_asleep'')
          else if wanted \<noteq> None \<and> Some t \<noteq> wanted then Inr result
          else (case ce_pointer d of
             None \<Rightarrow> Inl (contract_error ''allocation pointer is invalid'')
           | Some p \<Rightarrow>
               bind_res (allocation_size d) (\<lambda>n.
                 Inr (result @ [\<lparr>al_pointer = p, al_size = n, al_tag = t, al_released = asleep\<rparr>])))
      | _ \<Rightarrow> Inl (contract_error ''allocation data must expose tag, handle, and is_asleep''))"

definition vllm_allocations :: "cumem_entry list option \<Rightarrow> string option \<Rightarrow> allocation list res" where
  "vllm_allocations pool wanted =
     (case pool of
        None \<Rightarrow> Inl (contract_error ''CuMem allocator has no pointer_to_data mapping'')
      | Some entries \<Rightarrow> fold_res (allocation_step wanted) [] entries)"

definition vllm_capabilities :: provider_capabilities where
  "vllm_capabilities = noop_capabilities
     \<lparr>pc_provider := ''vllm_cumem'', pc_tagged_regions := True, pc_stable_virtual_addresses := True,
      pc_allocation_enumeration := True, pc_external_snapshot_store := True,
      pc_per_device_synchronization := True, pc_native_backing_stores := [''discard''],
      pc_exact_address_reservation := True, pc_page_granular_mapping := True,
      pc_release_backing_retain_va := True, pc_mapping_recipe_replay := True\<rparr>"

text \<open>
  The provider: vLLM's pool and the revision. The driver calls that unmap and map an
  allocation are parameters that may raise.
\<close>

record vllm_provider =
  vp_pool :: "cumem_entry list option"
  vp_revision :: int

definition mark_released :: "int \<Rightarrow> cumem_entry list \<Rightarrow> cumem_entry list" where
  "mark_released ptr entries =
     map (\<lambda>d. if ce_pointer d = Some ptr then d\<lparr>ce_asleep := Some True\<rparr> else d) entries"

text \<open>\<^verbatim>\<open>release\<close> marks the allocation and counts even when the driver call raises.\<close>

definition vllm_release :: "(allocation \<Rightarrow> unit res) \<Rightarrow> allocation \<Rightarrow> vllm_provider \<Rightarrow> vllm_provider \<times> unit res" where
  "vllm_release unmap a s =
     (s\<lparr>vp_pool := map_option (mark_released (al_pointer a)) (vp_pool s), vp_revision := vp_revision s + 1\<rparr>, unmap a)"

definition vllm_remap :: "(allocation \<Rightarrow> unit res) \<Rightarrow> allocation \<Rightarrow> vllm_provider \<Rightarrow> vllm_provider \<times> unit res" where
  "vllm_remap map_op a s =
     (case map_op a of
        Inl e \<Rightarrow> (s, Inl e)
      | Inr _ \<Rightarrow> (s\<lparr>vp_revision := vp_revision s + 1\<rparr>, Inr ()))"

definition vllm_region :: "region_ref \<Rightarrow> memory_region res" where
  "vllm_region region = bind_res (resolve_regions (Some [region])) (\<lambda>rs. Inr (hd rs))"

definition vllm_describe_layout :: "pylib \<Rightarrow> region_ref \<Rightarrow> vllm_provider \<Rightarrow> memory_layout res" where
  "vllm_describe_layout L region s =
     bind_res (vllm_region region) (\<lambda>resolved.
     bind_res (vllm_allocations (vp_pool s) (Some (rg_name resolved))) (\<lambda>found.
       let vs = sort_key al_pointer found in
       if vs = [] then Inl (MemoryCapabilityError ''vLLM CuMem has no allocations for region'')
       else let base = al_pointer (hd vs) in
         layout_create L
           \<lparr>ml_format = 1, ml_provider = pc_provider vllm_capabilities, ml_provider_abi = 1, ml_region = resolved,
            ml_device = ''cuda:current'', ml_base_address = Some base,
            ml_logical_bytes = sum_list (map al_size vs), ml_allocation_granularity = MIB2,
            ml_mapping_granularity = MIB2, ml_layout_kind = CONTIGUOUS, ml_groups = [],
            ml_extent_count = int (length vs), ml_transport_registration_mode = ''none'', ml_extension_json = [],
            ml_layout_digest = []\<rparr>
           (Some [(''extents'', JList (map (\<lambda>a. JObj
              [(''offset'', JInt (al_pointer a - base)), (''bytes'', JInt (al_size a))]) vs))])))"

definition vllm_residency :: "region_ref \<Rightarrow> vllm_provider \<Rightarrow> residency_stats res" where
  "vllm_residency region s =
     bind_res (vllm_region region) (\<lambda>resolved.
     bind_res (vllm_allocations (vp_pool s) (Some (rg_name resolved))) (\<lambda>vs.
       let mapped = sum_list (map al_size (filter (\<lambda>a. \<not> al_released a) vs));
           result =
             \<lparr>rs_format = 1, rs_provider = pc_provider vllm_capabilities, rs_region = rg_name resolved,
              rs_logical_bytes = sum_list (map al_size vs), rs_mapped_physical_bytes = mapped,
              rs_reserved_physical_bytes = 0,
              rs_preserved_bytes = (if rg_policy resolved = PRESERVE then mapped else 0),
              rs_discardable_bytes = (if rg_policy resolved = DISCARD then mapped else 0),
              rs_externally_hydrated_bytes = 0, rs_allocation_count = int (length vs),
              rs_page_count = sum_list (map (\<lambda>a. (al_size a + MIB2 - 1) div MIB2) vs),
              rs_released_mapping_count = int (length (filter al_released vs)),
              rs_lifecycle_revision = vp_revision s,
              rs_lifecycle_epoch = ''vllm-cumem-'' @ str_int (vp_revision s)\<rparr>
       in bind_res (stats_validate result) (\<lambda>_. Inr result)))"

definition validate_copy :: "int \<Rightarrow> int \<Rightarrow> unit res" where
  "validate_copy stage_length n =
     (if n \<le> 0 \<or> n > stage_length then Inl (ValueError ''copy size exceeds host stage capacity'') else Inr ())"

definition check_fill :: "int \<Rightarrow> unit res" where
  "check_fill n = (if n \<le> 0 then Inl (ValueError ''fill size must be positive'') else Inr ())"

section \<open>The KV payload inventory\<close>

text \<open>
  \<^verbatim>\<open>model_runner.kv_caches\<close>: nested dictionaries and sequences of values; a leaf with an
  \<^verbatim>\<open>untyped_storage\<close> method gives the address and the size of its storage, or raises.
\<close>

datatype kv_value =
    KvDict "(string \<times> kv_value) list"
  | KvSeq "kv_value list"
  | KvTensor "(int \<times> int) res"
  | KvOther

fun tensor_values :: "kv_value \<Rightarrow> (int \<times> int) res list" where
  "tensor_values (KvDict kvs) = concat (map (\<lambda>(_, v). tensor_values v) kvs)"
| "tensor_values (KvSeq vs) = concat (map tensor_values vs)"
| "tensor_values (KvTensor s) = [s]"
| "tensor_values KvOther = []"

fun is_storage_error :: "exn \<Rightarrow> bool" where
  "is_storage_error (AttributeErr _) = True"
| "is_storage_error (TypeErr _) = True"
| "is_storage_error e = (is_runtime_error e \<or> is_value_error e)"

definition storage_extent :: "(int \<times> int) res \<Rightarrow> (int \<times> int) res" where
  "storage_extent s =
     (case s of
        Inl e \<Rightarrow>
          if is_storage_error e
          then Inl (VllmContractError ''vLLM KV tensor storage must expose data_ptr() and nbytes()'') else Inl e
      | Inr (p, n) \<Rightarrow>
          if p \<le> 0 \<or> n \<le> 0 then Inl (VllmContractError ''vLLM KV tensor storage has invalid extent'')
          else Inr (p, n))"

text \<open>\<open>record_kv_payload old caches\<close>: the inventory after the call, and the result of the call.\<close>

definition record_kv_payload ::
  "(int \<times> int) list \<Rightarrow> kv_value option \<Rightarrow> (int \<times> int) list \<times> (int \<times> int) list res" where
  "record_kv_payload old caches =
     (case caches of
        None \<Rightarrow> (old, Inl (VllmContractError ''vLLM model runner did not publish kv_caches after initialization''))
      | Some v \<Rightarrow>
          (case traverse storage_extent (tensor_values v) of
             Inl e \<Rightarrow> (old, Inl e)
           | Inr es \<Rightarrow>
               let extents = sorted_set es in
               if extents = []
               then (old, Inl (VllmContractError ''vLLM model runner published no tensor storage in kv_caches''))
               else (extents, Inr extents)))"

definition contains_extent :: "allocation \<Rightarrow> int \<times> int \<Rightarrow> bool" where
  "contains_extent a e = (al_pointer a \<le> fst e \<and> fst e + snd e \<le> al_pointer a + al_size a)"

definition select_step ::
  "allocation list \<Rightarrow> (int, allocation) dict \<Rightarrow> int \<times> int \<Rightarrow> (int, allocation) dict res" where
  "select_step allocated selected e =
     (case filter (\<lambda>a. contains_extent a e) allocated of
        [a] \<Rightarrow> Inr (dict_put (al_pointer a) a selected)
      | _ \<Rightarrow> Inl (RuntimeErr ''vLLM KV payload extent must resolve to exactly one tagged allocation''))"

definition select_allocations ::
  "vllm_provider \<Rightarrow> (int \<times> int) list \<Rightarrow> string \<Rightarrow> string \<Rightarrow> allocation list res" where
  "select_allocations s extents region purpose =
     (if region \<noteq> ''kv_cache'' \<or> purpose \<noteq> ''payload'' then Inl (ValueError ''vLLM provider cannot select purpose'')
      else if extents = [] then Inl (RuntimeErr ''vLLM KV payload inventory is empty; refusing heuristic discard'')
      else bind_res (vllm_allocations (vp_pool s) (Some region)) (\<lambda>allocated.
        bind_res (fold_res (select_step allocated) [] extents) (\<lambda>selected.
          Inr (map snd (sort_key fst selected)))))"

section \<open>The KV capacity guard\<close>

definition guard_boolean :: "string option \<Rightarrow> bool res" where
  "guard_boolean setting =
     (let normalized = (case setting of None \<Rightarrow> ''0'' | Some v \<Rightarrow> py_lower (py_strip v)) in
      if normalized \<in> set [''0'', ''false'', ''no'', ''off'', '''' ] then Inr False
      else if normalized \<in> set [''1'', ''true'', ''yes'', ''on''] then Inr True
      else Inl (VllmContractError ''setting must be a boolean''))"

text \<open>
  What the guard reads of a worker. A capacity input is any Python value or missing; the
  configurations are there or not.
\<close>

record kv_worker =
  kw_cache_config :: "json option option"
  kw_requested_memory :: "json option"
  kw_total_consumed :: "json option"
  kw_peak_activation_memory :: "json option"
  kw_configs :: bool
  kw_available :: "int option"
  kw_clamped :: "bool option"

text \<open>\<^verbatim>\<open>type(value) in {int, float}\<close> and not negative, truncated to an integer.\<close>

fun capacity_input :: "json option \<Rightarrow> int res" where
  "capacity_input (Some (JInt i)) =
     (if i < 0 then Inl (VllmContractError ''GPU worker lacks a nonnegative numeric capacity input'') else Inr i)"
| "capacity_input (Some (JFloat (FFinite q))) =
     (if q < 0 then Inl (VllmContractError ''GPU worker lacks a nonnegative numeric capacity input'')
      else Inr (trunc_rat q))"
| "capacity_input (Some (JFloat FNegInf)) =
     Inl (VllmContractError ''GPU worker lacks a nonnegative numeric capacity input'')"
| "capacity_input (Some (JFloat f)) = json_int (JFloat f)"
| "capacity_input _ = Inl (VllmContractError ''GPU worker lacks a nonnegative numeric capacity input'')"

text \<open>
  \<open>reserve\<close> is vLLM's reservation for multimodal IPC. The worker after the call carries the
  published capacity and whether the estimate was clamped.
\<close>

definition guard_automatic_capacity ::
  "(int \<Rightarrow> int res) \<Rightarrow> kv_worker \<Rightarrow> json \<Rightarrow> kv_worker \<times> int res" where
  "guard_automatic_capacity reserve w reported_value =
     (case reported_value of
        JInt reported \<Rightarrow>
          if reported \<le> 0
          then (w, Inl (VllmContractError ''vLLM determine_available_memory must return positive integer bytes''))
          else (case kw_cache_config w of
             None \<Rightarrow> (w, Inl (VllmContractError ''GPU worker lacks cache_config''))
           | Some (Some _) \<Rightarrow> (w, Inr reported)
           | Some None \<Rightarrow>
               (case bind_res (capacity_input (kw_requested_memory w)) (\<lambda>requested.
                     bind_res (capacity_input (kw_total_consumed w)) (\<lambda>consumed.
                     bind_res (capacity_input (kw_peak_activation_memory w)) (\<lambda>peak.
                       let limit = requested - consumed - peak in
                       if limit \<le> 0
                       then Inl (VllmContractError ''measured non-KV memory exceeds the requested-memory envelope'')
                       else if \<not> kw_configs w
                       then Inl (VllmContractError ''GPU worker lacks model or parallel config for KV reservation'')
                       else bind_res (reserve limit) (\<lambda>guarded.
                         if guarded \<le> 0
                         then Inl (VllmContractError ''KV capacity guard left no memory for the cache'')
                         else Inr (limit, guarded))))) of
                  Inl e \<Rightarrow> (w, Inl e)
                | Inr (limit, guarded) \<Rightarrow>
                    let selected = min reported guarded; clamped = (selected < reported) in
                    (w\<lparr>kw_clamped := Some clamped,
                       kw_available := (if clamped then Some limit else kw_available w)\<rparr>, Inr selected)))
      | _ \<Rightarrow> (w, Inl (VllmContractError ''vLLM determine_available_memory must return positive integer bytes'')))"

section \<open>Lifecycle epochs\<close>

text \<open>Running operations, with the number of those that succeeded.\<close>

fun run_ops :: "('o \<Rightarrow> 's \<Rightarrow> 's \<times> unit res) \<Rightarrow> 'o list \<Rightarrow> 's \<Rightarrow> 's \<times> nat" where
  "run_ops step [] s = (s, 0)"
| "run_ops step (p # ps) s =
     (case step p s of (s1, x) \<Rightarrow>
        case run_ops step ps s1 of (s2, n) \<Rightarrow> (s2, (case x of Inr _ \<Rightarrow> Suc n | Inl _ \<Rightarrow> n)))"

locale lifecycle_provider =
  fixes step :: "'o \<Rightarrow> 's \<Rightarrow> 's \<times> unit res"
    and stats :: "'s \<Rightarrow> residency_stats res"
    and revision :: "'s \<Rightarrow> int"
    and prefix_text :: string
  assumes counted: "step p s = (s', Inr u) \<Longrightarrow> revision s' = revision s + 1"
    and kept: "step p s = (s', Inl e) \<Longrightarrow> revision s \<le> revision s'"
    and stats_sound: "stats s = Inr st \<Longrightarrow>
      stats_validate st = Inr () \<and> rs_lifecycle_revision st = revision s \<and>
      rs_lifecycle_epoch st = prefix_text @ str_int (revision s)"
begin

lemma run_ops_revision: "run_ops step ps s = (s', n) \<Longrightarrow> revision s + int n \<le> revision s'"
proof (induction ps arbitrary: s n)
  case (Cons p ps)
  obtain s1 x where one: "step p s = (s1, x)" by fastforce
  obtain s2 k where rest: "run_ops step ps s1 = (s2, k)" by fastforce
  have eqs: "run_ops step ps s1 = (s', k)" "n = (case x of Inr _ \<Rightarrow> Suc k | Inl _ \<Rightarrow> k)"
    using Cons.prems one rest by simp_all
  show ?case
  proof (cases x)
    case (Inl e)
    with Cons.IH [OF eqs(1)] kept [OF one [unfolded Inl]] eqs show ?thesis by simp
  next
    case (Inr u)
    with Cons.IH [OF eqs(1)] counted [OF one [unfolded Inr]] eqs show ?thesis by simp
  qed
qed simp

lemma epoch_detects:
  assumes "stats s = Inr before" "run_ops step ps s = (s', n)" "stats s' = Inr after"
    and "rs_lifecycle_epoch after = rs_lifecycle_epoch before"
  shows "n = 0"
proof -
  have "revision s' = revision s"
    using stats_sound [OF assms(1)] stats_sound [OF assms(3)] assms(4) by (auto dest: str_int_inj)
  with run_ops_revision [OF assms(2)] show ?thesis by simp
qed

end

datatype graph_op = GraphRelease "region_ref list option" | GraphRestore "region_ref list option"

fun graph_op_step :: "'n graph_native \<Rightarrow> graph_op \<Rightarrow> 'n graph_controller \<Rightarrow> 'n graph_controller \<times> unit res" where
  "graph_op_step N (GraphRelease regions) s = graph_release N regions s"
| "graph_op_step N (GraphRestore regions) s = graph_restore N regions s"

datatype vllm_op = VllmRelease allocation | VllmRemap allocation

fun vllm_op_step ::
  "(allocation \<Rightarrow> unit res) \<Rightarrow> (allocation \<Rightarrow> unit res) \<Rightarrow> vllm_op \<Rightarrow> vllm_provider \<Rightarrow> vllm_provider \<times> unit res" where
  "vllm_op_step unmap map_op (VllmRelease a) s = vllm_release unmap a s"
| "vllm_op_step unmap map_op (VllmRemap a) s = vllm_remap map_op a s"

lemma graph_transition_revision:
  "graph_transition f t regions s = (s', x) \<Longrightarrow>
   gc_revision s' = gc_revision s + (case x of Inr _ \<Rightarrow> 1 | Inl _ \<Rightarrow> 0)"
  by (auto simp: graph_transition_def split: sum.splits prod.splits if_splits)

lemma graph_op_revision:
  "graph_op_step N p s = (s', x) \<Longrightarrow> gc_revision s' = gc_revision s + (case x of Inr _ \<Rightarrow> 1 | Inl _ \<Rightarrow> 0)"
  by (cases p) (auto simp: graph_release_def graph_restore_def dest!: graph_transition_revision)

lemma vllm_op_revision:
  assumes "vllm_op_step unmap map_op p s = (s', x)"
  shows "vp_revision s \<le> vp_revision s'" "x = Inr u \<Longrightarrow> vp_revision s' = vp_revision s + 1"
  using assms by (cases p; auto simp: vllm_release_def vllm_remap_def split: sum.splits)+

interpretation graph_epochs: lifecycle_provider "graph_op_step N" "graph_residency N region" gc_revision "''cuda-graph-vmm-''"
  for N :: "'n graph_native" and region
proof
  fix p and s s' :: "'n graph_controller" and u e st
  show "graph_op_step N p s = (s', Inr u) \<Longrightarrow> gc_revision s' = gc_revision s + 1"
    using graph_op_revision [of N p s s' "Inr u"] by simp
  show "graph_op_step N p s = (s', Inl e) \<Longrightarrow> gc_revision s \<le> gc_revision s'"
    using graph_op_revision [of N p s s' "Inl e"] by simp
  show "graph_residency N region s = Inr st \<Longrightarrow>
      stats_validate st = Inr () \<and> rs_lifecycle_revision st = gc_revision s \<and>
      rs_lifecycle_epoch st = ''cuda-graph-vmm-'' @ str_int (gc_revision s)"
    by (auto simp: graph_residency_def Let_def)
qed

interpretation vllm_epochs: lifecycle_provider "vllm_op_step unmap map_op" "vllm_residency region" vp_revision "''vllm-cumem-''"
  for unmap map_op :: "allocation \<Rightarrow> unit res" and region
proof
  fix p s s' u e st
  show "vllm_op_step unmap map_op p s = (s', Inr u) \<Longrightarrow> vp_revision s' = vp_revision s + 1"
    using vllm_op_revision(2) [of unmap map_op p s s' "Inr u" u] by simp
  show "vllm_op_step unmap map_op p s = (s', Inl e) \<Longrightarrow> vp_revision s \<le> vp_revision s'"
    using vllm_op_revision(1) [of unmap map_op p s s' "Inl e"] by simp
  show "vllm_residency region s = Inr st \<Longrightarrow>
      stats_validate st = Inr () \<and> rs_lifecycle_revision st = vp_revision s \<and>
      rs_lifecycle_epoch st = ''vllm-cumem-'' @ str_int (vp_revision s)"
    by (auto simp: vllm_residency_def Let_def)
qed

section \<open>vLLM statistics are always valid\<close>

lemma vllm_allocations_sound:
  assumes "vllm_allocations pool wanted = Inr vs"
  shows "\<forall>a \<in> set vs. 0 < al_size a \<and> (\<forall>t. wanted = Some t \<longrightarrow> al_tag a = t)"
proof -
  from assms obtain entries where fold: "fold_res (allocation_step wanted) [] entries = Inr vs"
    by (auto simp: vllm_allocations_def split: option.splits)
  show ?thesis
    using fold
  proof (rule fold_res_invariant)
    fix s x t
    assume "\<forall>a \<in> set s. 0 < al_size a \<and> (\<forall>t. wanted = Some t \<longrightarrow> al_tag a = t)"
      and "allocation_step wanted s x = Inr t"
    then show "\<forall>a \<in> set t. 0 < al_size a \<and> (\<forall>u. wanted = Some u \<longrightarrow> al_tag a = u)"
      by (auto simp: allocation_step_def allocation_size_def split: option.splits if_splits)
  qed simp
qed

lemma sum_filter_le: "(\<And>x. x \<in> set xs \<Longrightarrow> 0 \<le> (f x :: int)) \<Longrightarrow> sum_list (map f (filter P xs)) \<le> sum_list (map f xs)"
  by (induction xs) (auto intro: add_increasing)

text \<open>
  The statistics of vLLM's pool always pass their own validation, for every region and
  every pool the allocator view accepts, as long as operations have only counted up: the
  mapped bytes are those of the allocations not released, never more than the logical bytes,
  and at most the page count allows.
\<close>

theorem vllm_residency_valid:
  assumes "vllm_region region = Inr r" "rg_name r \<noteq> []"
    and "vllm_allocations (vp_pool s) (Some (rg_name r)) = Inr vs" "0 \<le> vp_revision s"
  shows "\<exists>st. vllm_residency region s = Inr st \<and> stats_validate st = Inr () \<and>
    rs_mapped_physical_bytes st = sum_list (map al_size (filter (\<lambda>a. \<not> al_released a) vs)) \<and>
    rs_mapped_physical_bytes st \<le> rs_logical_bytes st \<and>
    rs_logical_bytes st \<le> rs_page_count st * MIB2 \<and>
    (\<forall>a \<in> set vs. al_tag a = rg_name r)"
proof -
  have pos: "\<forall>a \<in> set vs. 0 < al_size a" and tag: "\<forall>a \<in> set vs. al_tag a = rg_name r"
    using vllm_allocations_sound [OF assms(3)] by auto
  let ?mapped = "sum_list (map al_size (filter (\<lambda>a. \<not> al_released a) vs))"
  let ?logical = "sum_list (map al_size vs)"
  let ?pages = "sum_list (map (\<lambda>a. (al_size a + MIB2 - 1) div MIB2) vs)"
  have nonneg: "0 \<le> ?mapped" using pos by (intro sum_list_nonneg) auto
  have le: "?mapped \<le> ?logical" using pos by (intro sum_filter_le) auto
  have m: "0 < MIB2" by (simp add: MIB2_def)
  have page: "n \<le> (n + MIB2 - 1) div MIB2 * MIB2" for n
    using align_up_ge [OF m, of n] by (simp add: align_up_def)
  have pages: "?logical \<le> ?pages * MIB2"
  proof (induction vs)
    case (Cons a vs)
    with page [of "al_size a"] show ?case by (simp add: distrib_right)
  qed simp
  have count: "\<not> length vs < length (filter al_released vs)" by (simp add: not_less)
  have "0 \<le> ?pages" using pos m by (intro sum_list_nonneg) (auto simp: pos_imp_zdiv_nonneg_iff)
  then show ?thesis
    using assms nonneg le pages tag count
    by (auto simp: vllm_residency_def Let_def stats_validate_def vllm_capabilities_def)
qed

definition demo_entry :: "int \<Rightarrow> int \<Rightarrow> bool \<Rightarrow> cumem_entry" where
  "demo_entry p n asleep =
     \<lparr>ce_pointer = Some p, ce_tag = Some ''kv_cache'', ce_handle = True, ce_handle_size = Some n, ce_size = None,
      ce_nbytes = None, ce_asleep = Some asleep\<rparr>"

definition demo_provider :: vllm_provider where
  "demo_provider = \<lparr>vp_pool = Some [demo_entry 8192 4096 True, demo_entry 4096 4096 False], vp_revision = 0\<rparr>"

lemma demo_region: "vllm_region (RegionName ''kv_cache'') = Inr KV_CACHE"
  by code_simp

lemma demo_allocations:
  "vllm_allocations (vp_pool demo_provider) (Some ''kv_cache'') =
     Inr [\<lparr>al_pointer = 8192, al_size = 4096, al_tag = ''kv_cache'', al_released = True\<rparr>,
          \<lparr>al_pointer = 4096, al_size = 4096, al_tag = ''kv_cache'', al_released = False\<rparr>]"
  by code_simp

theorem vllm_residency_valid_witness:
  "\<exists>st. vllm_residency (RegionName ''kv_cache'') demo_provider = Inr st \<and> rs_mapped_physical_bytes st = 4096"
proof -
  have "rg_name KV_CACHE = ''kv_cache''" by code_simp
  then show ?thesis
    using vllm_residency_valid [OF demo_region, of demo_provider] demo_allocations
    by (simp add: demo_provider_def) blast
qed

text \<open>
  C28: The epoch text of a provider tells lifecycle changes apart: if two statistics of the
  same CUDA graph controller, or of the same vLLM pool, carry the same epoch, then none of
  the releases, restores and remaps between them succeeded.
\<close>

theorem provider_epochs_detect:
  "(graph_residency N region s = Inr a \<longrightarrow> run_ops (graph_op_step N) ps s = (s', n) \<longrightarrow>
      graph_residency N region s' = Inr b \<longrightarrow> rs_lifecycle_epoch b = rs_lifecycle_epoch a \<longrightarrow> n = 0) \<and>
   (vllm_residency region t = Inr c \<longrightarrow> run_ops (vllm_op_step unmap map_op) qs t = (t', k) \<longrightarrow>
      vllm_residency region t' = Inr d \<longrightarrow> rs_lifecycle_epoch d = rs_lifecycle_epoch c \<longrightarrow> k = 0)"
  using graph_epochs.epoch_detects [of N region s a ps s' n b]
    vllm_epochs.epoch_detects [of region t c unmap map_op qs t' k d] by blast

definition demo_graph_native :: "unit graph_native" where
  "demo_graph_native =
     \<lparr>gn_push = (\<lambda>_ _ n. (n, 0)), gn_pop = (\<lambda>n. (n, 0)), gn_pause = (\<lambda>n. (n, 1)), gn_resume = (\<lambda>n. (n, 0)),
      gn_stats = (\<lambda>_. (0, \<lparr>gs_allocation_count = 0, gs_raw_bytes = 0, gs_mapped_bytes = 0, gs_paused_count = 0\<rparr>)),
      gn_allocation_at = (\<lambda>_ _. (1, \<lparr>ga_address = 0, ga_raw_bytes = 0, ga_mapped_bytes = 0, ga_device = 0,
        ga_pool_id = 0, ga_state = 0\<rparr>))\<rparr>"

lemma demo_graph_residency:
  "\<exists>a. graph_residency demo_graph_native (RegionName ''cuda_graph'') \<lparr>gc_native = (), gc_revision = 0\<rparr> = Inr a"
proof -
  have "resolve_graph_regions (Some [RegionName ''cuda_graph'']) = Inr [CUDA_GRAPH]" by code_simp
  then show ?thesis
    by (simp add: graph_residency_def graph_stats_def demo_graph_native_def stats_validate_def Let_def
        graph_capabilities_def MIB2_def CUDA_GRAPH_def)
qed

theorem provider_epochs_detect_witness:
  "\<exists>n. run_ops (graph_op_step demo_graph_native) [GraphRelease None] \<lparr>gc_native = (), gc_revision = 0\<rparr> =
     (\<lparr>gc_native = (), gc_revision = 0\<rparr>, n) \<and> n = 0"
proof -
  let ?s = "\<lparr>gc_native = (), gc_revision = 0\<rparr>"
  have "fst (run_ops (graph_op_step demo_graph_native) [GraphRelease None] ?s) = ?s"
    by (simp add: graph_release_def graph_transition_def resolve_graph_regions_def demo_graph_native_def)
  then obtain n where run: "run_ops (graph_op_step demo_graph_native) [GraphRelease None] ?s = (?s, n)"
    by (metis prod.collapse)
  obtain a where a: "graph_residency demo_graph_native (RegionName ''cuda_graph'') ?s = Inr a"
    using demo_graph_residency by blast
  from provider_epochs_detect [of demo_graph_native "RegionName ''cuda_graph''" ?s a "[GraphRelease None]" ?s n a] run a
  show ?thesis by blast
qed

section \<open>Payload selection is exact\<close>

lemma set_dict_put_subset: "set (dict_put k v d) \<subseteq> insert (k, v) (set d)"
proof (induction d)
  case (Cons p d)
  then show ?case by (cases p) (auto split: if_splits)
qed simp

lemma select_fold:
  assumes "fold_res (select_step allocated) [] extents = Inr sel"
  shows "dict_ok sel \<and> (\<forall>p a. dict_get sel p = Some a \<longrightarrow> p = al_pointer a) \<and>
    snd ` set sel \<subseteq> {a \<in> set allocated. \<exists>e \<in> set extents. contains_extent a e} \<and>
    (\<forall>e \<in> set extents. \<exists>a. filter (\<lambda>a. contains_extent a e) allocated = [a] \<and> al_pointer a \<in> fst ` set sel)"
  using assms
proof (rule fold_res_prefix_invariant)
  fix ys x s t
  assume inv: "dict_ok s \<and> (\<forall>p a. dict_get s p = Some a \<longrightarrow> p = al_pointer a) \<and>
      snd ` set s \<subseteq> {a \<in> set allocated. \<exists>e \<in> set ys. contains_extent a e} \<and>
      (\<forall>e \<in> set ys. \<exists>a. filter (\<lambda>a. contains_extent a e) allocated = [a] \<and> al_pointer a \<in> fst ` set s)"
    and step: "select_step allocated s x = Inr t"
  from step obtain a where a: "filter (\<lambda>a. contains_extent a x) allocated = [a]" "t = dict_put (al_pointer a) a s"
    by (auto simp: select_step_def split: list.splits)
  have "a \<in> set (filter (\<lambda>a. contains_extent a x) allocated)" by (simp add: a(1))
  then have "a \<in> set allocated" "contains_extent a x" by simp_all
  then have vals: "insert a (snd ` set s) \<subseteq> {a \<in> set allocated. \<exists>e \<in> set (ys @ [x]). contains_extent a e}"
    using inv by fastforce
  have "snd ` set t \<subseteq> insert a (snd ` set s)"
    using set_dict_put_subset [of "al_pointer a" a s] unfolding a(2) by force
  also note vals
  finally have sub: "snd ` set t \<subseteq> {a \<in> set allocated. \<exists>e \<in> set (ys @ [x]). contains_extent a e}" .
  have keys: "fst ` set t = insert (al_pointer a) (fst ` set s)" by (simp add: a(2))
  have cover: "\<exists>b. filter (\<lambda>a. contains_extent a e) allocated = [b] \<and> al_pointer b \<in> fst ` set t"
    if "e \<in> set (ys @ [x])" for e
  proof (cases "e = x")
    case True
    with a(1) show ?thesis by (simp add: keys)
  next
    case False
    with that have "e \<in> set ys" by simp
    with inv have "\<exists>b. filter (\<lambda>a. contains_extent a e) allocated = [b] \<and> al_pointer b \<in> fst ` set s" by blast
    then show ?thesis unfolding keys by blast
  qed
  show "dict_ok t \<and> (\<forall>p a. dict_get t p = Some a \<longrightarrow> p = al_pointer a) \<and>
      snd ` set t \<subseteq> {a \<in> set allocated. \<exists>e \<in> set (ys @ [x]). contains_extent a e} \<and>
      (\<forall>e \<in> set (ys @ [x]). \<exists>a. filter (\<lambda>a. contains_extent a e) allocated = [a] \<and> al_pointer a \<in> fst ` set t)"
    using inv sub cover by (intro conjI ballI) (auto simp: a(2) split: if_splits)
qed simp

text \<open>
  C27: The allocations selected for discarding are exactly those that hold recorded KV
  payload: each lies in the requested region and contains a recorded extent, every recorded
  extent lies in exactly one tagged allocation and that one is selected, and they come in
  address order without repetition. Any other region or purpose, and an empty inventory, are
  refused.
\<close>

theorem select_allocations_exact:
  assumes "select_allocations s extents region purpose = Inr sel"
  shows "region = ''kv_cache'' \<and> purpose = ''payload'' \<and> extents \<noteq> [] \<and>
    (\<exists>vs. vllm_allocations (vp_pool s) (Some region) = Inr vs \<and>
       set sel \<subseteq> {a \<in> set vs. \<exists>e \<in> set extents. contains_extent a e} \<and>
       (\<forall>e \<in> set extents. \<exists>a. filter (\<lambda>a. contains_extent a e) vs = [a] \<and> al_pointer a \<in> al_pointer ` set sel) \<and>
       sorted (map al_pointer sel) \<and> distinct (map al_pointer sel))"
proof -
  from assms obtain vs d where r: "region = ''kv_cache''" "purpose = ''payload''" "extents \<noteq> []"
      "vllm_allocations (vp_pool s) (Some region) = Inr vs" "fold_res (select_step vs) [] extents = Inr d"
      "sel = map snd (sort_key fst d)"
    by (auto simp: select_allocations_def split: if_splits)
  note inv = select_fold [OF r(5)]
  have key: "fst p = al_pointer (snd p)" if "p \<in> set d" for p
    using inv that by (auto simp: dict_ok_def dict_keys_def)
  have ptrs: "map al_pointer sel = map fst (sort_key fst d)"
    unfolding r(6) map_map by (rule map_cong) (simp_all add: key)
  have "mset (map fst (sort_key fst d)) = mset (map fst d)" by simp
  then have "distinct (map al_pointer sel)"
    using inv unfolding ptrs by (metis dict_keys_def dict_ok_def mset_eq_imp_distinct_iff)
  moreover have "al_pointer ` set sel = fst ` set d"
    using ptrs by (metis list.set_map set_sort)
  moreover have "set sel = snd ` set d" by (simp add: r(6))
  moreover have "sorted (map al_pointer sel)" unfolding ptrs by simp
  ultimately show ?thesis using inv r(1-4) by auto
qed

theorem select_allocations_exact_witness:
  "\<exists>sel. select_allocations demo_provider [(8192, 64), (4100, 8)] ''kv_cache'' ''payload'' = Inr sel \<and>
     sorted (map al_pointer sel)"
proof -
  have "\<exists>sel. select_allocations demo_provider [(8192, 64), (4100, 8)] ''kv_cache'' ''payload'' = Inr sel"
    using demo_allocations by (simp add: select_allocations_def select_step_def contains_extent_def)
  then obtain sel where sel: "select_allocations demo_provider [(8192, 64), (4100, 8)] ''kv_cache'' ''payload'' = Inr sel"
    by blast
  from select_allocations_exact [OF sel] sel show ?thesis by blast
qed

section \<open>The guard never raises capacity\<close>

text \<open>
  C29: The capacity guard returns at most what vLLM reported. For an automatic estimate it
  also returns at most what the reservation leaves of requested minus consumed minus peak
  memory; an explicit setting is returned as it is. When it clamps, the capacity it publishes
  on the worker is the limit before the reservation, which can exceed what it returns.
\<close>

theorem capacity_guard_bounds:
  assumes "guard_automatic_capacity reserve w (JInt reported) = (w', Inr selected)"
    and "\<And>limit g. reserve limit = Inr g \<Longrightarrow> g \<le> limit"
  shows "0 < selected \<and> selected \<le> reported \<and>
    (kw_cache_config w = Some None \<longrightarrow>
      (\<exists>requested consumed peak. capacity_input (kw_requested_memory w) = Inr requested \<and>
         capacity_input (kw_total_consumed w) = Inr consumed \<and>
         capacity_input (kw_peak_activation_memory w) = Inr peak \<and>
         selected \<le> requested - consumed - peak \<and>
         (selected < reported \<longrightarrow>
            kw_available w' = Some (requested - consumed - peak) \<and>
            reserve (requested - consumed - peak) = Inr selected))) \<and>
    (kw_cache_config w \<noteq> Some None \<longrightarrow> selected = reported \<and> w' = w)"
  using assms(1) assms(2)
  by (fastforce simp: guard_automatic_capacity_def Let_def min_def split: if_splits option.splits sum.splits)

definition demo_worker :: kv_worker where
  "demo_worker =
     \<lparr>kw_cache_config = Some None, kw_requested_memory = Some (JInt 100), kw_total_consumed = Some (JInt 20),
      kw_peak_activation_memory = Some (JInt 10), kw_configs = True, kw_available = None, kw_clamped = None\<rparr>"

theorem capacity_guard_bounds_witness:
  "\<exists>w'. guard_automatic_capacity (\<lambda>limit. Inr (limit - 10)) demo_worker (JInt 90) = (w', Inr 60) \<and>
     kw_available w' = Some 70 \<and> (60 :: int) \<le> 90"
proof -
  obtain w' where run: "guard_automatic_capacity (\<lambda>limit. Inr (limit - 10)) demo_worker (JInt 90) = (w', Inr 60)"
    by (simp add: guard_automatic_capacity_def demo_worker_def)
  from capacity_guard_bounds [OF run] run show ?thesis
    by (auto simp: demo_worker_def)
qed

end
