(* ===== verification/Cold_Safetensors.thy ===== *)
theory Cold_Safetensors
  imports Cold_Hydration Cold_Device
begin

text \<open>
  Model of the checkpoint reader of \<^verbatim>\<open>integrations/vllm/coldsnap_recovery_loader.py\<close>: the header of
  a safetensors file, the descriptors of the tensors that are selected from it, and the checks
  of their ranges, shapes and dtypes.

  A file is the list of its bytes, the same for every read of one call. The size of the
  elements of a dtype comes from torch and is a parameter.
\<close>

section \<open>JSON bytes\<close>

text \<open>
  \<^verbatim>\<open>json.loads\<close> of bytes guesses their encoding from the first ones. As everywhere in the
  development, a character above U+00FF counts as undecodable.
\<close>

fun decode_units :: "nat \<Rightarrow> (byte list \<Rightarrow> byte list) \<Rightarrow> byte list \<Rightarrow> string res" where
  "decode_units n f [] = Inr []"
| "decode_units n f (b # bs) =
     (let u = f (take n (b # bs)) in
      if n = 0 \<or> length u \<noteq> n \<or> list_ex (\<lambda>x. x \<noteq> 0) (butlast u) then Inl UnicodeDecodeErr
      else bind_res (decode_units n f (drop n (b # bs))) (\<lambda>s. Inr (char_of (unat (last u)) # s)))"

definition decode_json_bytes :: "byte list \<Rightarrow> string res" where
  "decode_json_bytes bs =
     (let z = (\<lambda>i. bs ! i = 0) in
      if take 4 bs = [0, 0, 0xFE, 0xFF] then decode_units 4 id (drop 4 bs)
      else if take 4 bs = [0xFF, 0xFE, 0, 0] then decode_units 4 rev (drop 4 bs)
      else if take 2 bs = [0xFE, 0xFF] then decode_units 2 id (drop 2 bs)
      else if take 2 bs = [0xFF, 0xFE] then decode_units 2 rev (drop 2 bs)
      else if take 3 bs = [0xEF, 0xBB, 0xBF] then utf8_decode (drop 3 bs)
      else if length bs \<ge> 4 \<and> z 0 then (if z 1 then decode_units 4 id bs else decode_units 2 id bs)
      else if length bs \<ge> 4 \<and> z 1 then
        (if z 2 \<and> z 3 then decode_units 4 rev bs else decode_units 2 rev bs)
      else if length bs = 2 \<and> z 0 then decode_units 2 id bs
      else if length bs = 2 \<and> z 1 then decode_units 2 rev bs
      else utf8_decode bs)"

definition json_loads_bytes :: "pylib \<Rightarrow> byte list \<Rightarrow> json res" where
  "json_loads_bytes L bs = bind_res (decode_json_bytes bs) (json_loads L)"

section \<open>The header\<close>

definition MAX_HEADER_BYTES :: int where
  "MAX_HEADER_BYTES = 256 * 1024 ^ 2"

definition MAX_INT64 :: int where
  "MAX_INT64 = 2 ^ 63 - 1"

definition DTYPE_ATTRIBUTES :: "(string, string) dict" where
  "DTYPE_ATTRIBUTES =
     [(''BOOL'', ''bool''), (''U8'', ''uint8''), (''I8'', ''int8''), (''I16'', ''int16''),
      (''U16'', ''uint16''), (''I32'', ''int32''), (''U32'', ''uint32''), (''I64'', ''int64''),
      (''U64'', ''uint64''), (''F16'', ''float16''), (''BF16'', ''bfloat16''), (''F32'', ''float32''),
      (''F64'', ''float64''), (''F8_E4M3'', ''float8_e4m3fn''), (''F8_E5M2'', ''float8_e5m2''),
      (''F8_E8M0'', ''float8_e8m0fnu'')]"

record descriptor =
  ds_name :: string
  ds_dtype :: string
  ds_shape :: "int list"
  ds_file_offset :: int
  ds_length :: int

fun plain_int :: "json \<Rightarrow> int option" where
  "plain_int (JInt i) = Some i"
| "plain_int _ = None"

definition plain_ints :: "json list \<Rightarrow> int list option" where
  "plain_ints vs = those (map plain_int vs)"

definition elements_step :: "int \<Rightarrow> int \<Rightarrow> int res" where
  "elements_step elements dimension =
     (if dimension < 0 then Inl (RuntimeErr ''negative safetensors dimension'')
      else if dimension \<noteq> 0 \<and> elements > MAX_INT64 div dimension
      then Inl (RuntimeErr ''safetensors shape overflows'')
      else Inr (elements * dimension))"

definition checked_elements :: "int list \<Rightarrow> int res" where
  "checked_elements shape = fold_res elements_step 1 shape"

definition from_le :: "byte list \<Rightarrow> int" where
  "from_le bs = foldr (\<lambda>b n. uint b + 256 * n) bs 0"

definition read_safetensors_header :: "pylib \<Rightarrow> byte list \<Rightarrow> (int \<times> (string, json) dict) res" where
  "read_safetensors_header L file =
     (let raw_size = take 8 file in
      if length raw_size \<noteq> 8 then Inl (RuntimeErr ''invalid safetensors header'')
      else let n = from_le raw_size in
        if n \<le> 0 \<or> n > MAX_HEADER_BYTES then Inl (RuntimeErr ''invalid safetensors header size'')
        else let payload = take (nat n) (drop 8 file) in
          if int (length payload) \<noteq> n then Inl (RuntimeErr ''short safetensors header'')
          else bind_res
            (catch_res (json_loads_bytes L payload) (\<lambda>e.
               if e = UnicodeDecodeErr \<or> e = JSONDecodeError
               then Inl (RuntimeErr ''invalid safetensors JSON header'') else Inl e)) (\<lambda>header.
            case header of
              JObj kvs \<Rightarrow>
                (case dict_get kvs ''__metadata__'' of
                   Some v \<Rightarrow> if v \<noteq> JNull \<and> \<not> is_obj v then Inl (RuntimeErr ''invalid safetensors metadata'')
                             else Inr (8 + n, filter (\<lambda>(k, _). k \<noteq> ''__metadata__'') kvs)
                 | None \<Rightarrow> Inr (8 + n, kvs))
            | _ \<Rightarrow> Inl (RuntimeErr ''safetensors header is not an object'')))"

section \<open>Descriptors\<close>

definition matches_prefix :: "string \<Rightarrow> string list option \<Rightarrow> bool" where
  "matches_prefix name prefixes =
     (case prefixes of None \<Rightarrow> True | Some ps \<Rightarrow> ps = [] \<or> list_ex (starts_with name) ps)"

text \<open>One entry of the header: its range relative to the data section, and its descriptor.\<close>

definition header_entry :: "int \<Rightarrow> int \<Rightarrow> string \<times> json \<Rightarrow> ((int \<times> int) \<times> descriptor) res" where
  "header_entry data_offset file_bytes item =
     (case item of (name, raw) \<Rightarrow>
      if name = [] \<or> \<not> is_obj raw then Inl (RuntimeErr ''invalid tensor entry'')
      else case (jget_none raw ''dtype'', jget_none raw ''shape'', jget_none raw ''data_offsets'') of
        (JStr dtype_name, JList shape_value, JList offsets) \<Rightarrow>
          (case (dict_get DTYPE_ATTRIBUTES dtype_name, plain_ints shape_value, plain_ints offsets) of
             (Some _, Some shape, Some [start, stop]) \<Rightarrow>
               if start < 0 \<or> stop < start \<or> data_offset + stop > file_bytes
               then Inl (RuntimeErr ''invalid safetensors range'')
               else Inr ((start, stop), \<lparr>ds_name = name, ds_dtype = dtype_name, ds_shape = shape,
                           ds_file_offset = data_offset + start, ds_length = stop - start\<rparr>)
           | _ \<Rightarrow> Inl (RuntimeErr ''invalid safetensors metadata''))
      | _ \<Rightarrow> Inl (RuntimeErr ''invalid safetensors metadata''))"

definition selects ::
  "string \<Rightarrow> (string, string) dict option \<Rightarrow> string list option \<Rightarrow> string \<Rightarrow> bool" where
  "selects absolute_path indexed prefixes name =
     ((case indexed of None \<Rightarrow> True | Some ix \<Rightarrow> dict_get ix name = Some absolute_path) \<and>
      matches_prefix name prefixes)"

text \<open>The names in the tuples of \<open>occupied\<close> decide only the text of the error; they are left out.\<close>

definition overlap_step :: "int \<Rightarrow> int \<times> int \<Rightarrow> int res" where
  "overlap_step previous_end r =
     (if fst r < previous_end then Inl (RuntimeErr ''overlapping safetensors range'') else Inr (snd r))"

text \<open>The position of a name among the items of the index; a selected name is always there.\<close>

definition index_position :: "(string, string) dict \<Rightarrow> string \<Rightarrow> nat" where
  "index_position ix name = length (takeWhile (\<lambda>k. k \<noteq> name) (dict_keys ix))"

definition descriptors ::
  "pylib \<Rightarrow> byte list \<Rightarrow> string \<Rightarrow> (string, string) dict option \<Rightarrow> string list option \<Rightarrow> descriptor list res" where
  "descriptors L file absolute_path indexed prefixes =
     bind_res (read_safetensors_header L file) (\<lambda>(data_offset, header).
     bind_res (traverse (header_entry data_offset (int (length file))) header) (\<lambda>entries.
     let result = filter (\<lambda>d. selects absolute_path indexed prefixes (ds_name d)) (map snd entries) in
     bind_res (fold_res overlap_step 0 (sort (map fst entries))) (\<lambda>_.
     Inr (case indexed of
            None \<Rightarrow> sort_key ds_file_offset result
          | Some ix \<Rightarrow> sort_key (\<lambda>d. index_position ix (ds_name d)) result))))"

text \<open>
  The index of the checkpoint, \<open>None\<close> when the folder has none. \<open>content\<close> are the bytes of the
  index file.
\<close>

definition path_join :: "string \<Rightarrow> string \<Rightarrow> string" where
  "path_join a b =
     (if starts_with b ''/'' then b else if a = [] \<or> ends_with a ''/'' then a @ b else a @ ''/'' @ b)"

definition index_map ::
  "pylib \<Rightarrow> string \<Rightarrow> string \<Rightarrow> byte list option \<Rightarrow> (string, string) dict option res" where
  "index_map L cwd folder content =
     (case content of
        None \<Rightarrow> Inr None
      | Some bs \<Rightarrow>
          bind_res (utf8_decode bs) (\<lambda>t.
          bind_res (json_loads L t) (\<lambda>value.
          case (if is_obj value then jget_none value ''weight_map'' else JNull) of
            JObj kvs \<Rightarrow>
              if \<not> list_all (\<lambda>(_, v). is_str v) kvs then Inl (RuntimeErr ''invalid safetensors weight map'')
              else Inr (Some (map (\<lambda>(name, v).
                (name, abspath cwd (path_join folder (case v of JStr f \<Rightarrow> f | _ \<Rightarrow> [])))) kvs))
          | _ \<Rightarrow> Inl (RuntimeErr ''invalid safetensors weight map''))))"

text \<open>
  \<open>element_size\<close> is the size of the elements of a torch dtype, by its attribute name, with
  \<open>None\<close> for one the installed torch lacks.
\<close>

definition validate_descriptor_size :: "(string \<Rightarrow> int option) \<Rightarrow> descriptor \<Rightarrow> string res" where
  "validate_descriptor_size element_size d =
     bind_res (opt_res (KeyErr (ds_dtype d)) (dict_get DTYPE_ATTRIBUTES (ds_dtype d))) (\<lambda>attribute.
     bind_res (opt_res (RuntimeErr ''installed torch lacks safetensors dtype'') (element_size attribute)) (\<lambda>n.
     bind_res (checked_elements (ds_shape d)) (\<lambda>elements.
     if elements * n \<noteq> ds_length d then Inl (RuntimeErr ''safetensors byte length mismatch'')
     else Inr attribute)))"

section \<open>Shapes\<close>

lemma elements_step_Inr:
  assumes "elements_step n d = Inr m" and "0 \<le> n"
  shows "m = n * d \<and> 0 \<le> d \<and> (d \<noteq> 0 \<longrightarrow> m \<le> MAX_INT64)"
proof -
  from assms(1) have d: "0 \<le> d" "m = n * d" "d \<noteq> 0 \<Longrightarrow> n \<le> MAX_INT64 div d"
    by (auto simp: elements_step_def split: if_splits)
  have "m \<le> MAX_INT64" if "d \<noteq> 0"
  proof -
    have "n * d \<le> MAX_INT64 div d * d" using d that by (intro mult_right_mono) auto
    also have "\<dots> \<le> MAX_INT64" using d(1) that by (simp add: minus_mod_eq_div_mult [symmetric])
    finally show ?thesis using d(2) by simp
  qed
  with d show ?thesis by auto
qed

lemma checked_elements_bounds:
  assumes "checked_elements shape = Inr n"
  shows "n = prod_list shape \<and> 0 \<le> n \<and> n \<le> MAX_INT64"
proof -
  have "n = prod_list shape \<and> 0 \<le> n \<and> n \<le> MAX_INT64"
    by (rule fold_res_prefix_invariant [OF assms [unfolded checked_elements_def],
          where I = "\<lambda>ys n. n = prod_list ys \<and> 0 \<le> n \<and> n \<le> MAX_INT64"])
      (auto simp: MAX_INT64_def dest!: elements_step_Inr split: if_splits)
  then show ?thesis .
qed

section \<open>Ranges\<close>

abbreviation spans :: "int \<Rightarrow> int \<times> int \<Rightarrow> bool" where
  "spans b r \<equiv> fst r \<le> b \<and> b < snd r"

lemma overlap_step_Inr [simp]: "overlap_step p r = Inr q \<longleftrightarrow> p \<le> fst r \<and> q = snd r"
  by (auto simp: overlap_step_def)

lemma overlap_starts:
  "fold_res overlap_step p xs = Inr q \<Longrightarrow> \<forall>r \<in> set xs. fst r \<le> snd r \<Longrightarrow> \<forall>r \<in> set xs. p \<le> fst r"
proof (induction xs arbitrary: p)
  case (Cons x xs)
  then have "p \<le> fst x" "fold_res overlap_step (snd x) xs = Inr q"
    by auto
  moreover from Cons.IH [OF this(2)] Cons.prems(2) have "\<forall>r \<in> set xs. snd x \<le> fst r" by simp
  ultimately show ?case using Cons.prems(2) by force
qed simp

lemma overlap_unique:
  "fold_res overlap_step p xs = Inr q \<Longrightarrow> \<forall>r \<in> set xs. fst r \<le> snd r \<Longrightarrow>
   length (filter (spans b) xs) \<le> 1"
proof (induction xs arbitrary: p)
  case (Cons x xs)
  then have rest: "fold_res overlap_step (snd x) xs = Inr q" by auto
  have "filter (spans b) xs = []" if "b < snd x"
    using overlap_starts [OF rest] Cons.prems(2) that by (fastforce simp: filter_empty_conv)
  with Cons.IH [OF rest] Cons.prems(2) show ?case by auto
qed simp

lemma length_filter_mset: "mset xs = mset ys \<Longrightarrow> length (filter P xs) = length (filter P ys)"
  by (metis mset_filter size_mset)

lemma length_filter_filter: "length (filter P (filter Q xs)) \<le> length (filter P xs)"
  by (induction xs) auto

lemma read_header_Inr:
  assumes "read_safetensors_header L file = Inr (data_offset, header)"
  shows "8 < data_offset \<and> data_offset \<le> int (length file) \<and> dict_ok header"
proof -
  define n where "n = from_le (take 8 file)"
  from assms have size: "8 \<le> length file" "0 < n" "n \<le> int (length file) - 8"
    by (auto simp: read_safetensors_header_def Let_def n_def split: if_splits)
  from assms obtain v where v: "json_loads_bytes L (take (nat n) (drop 8 file)) = Inr v"
    "case v of JObj kvs \<Rightarrow>
       (case dict_get kvs ''__metadata__'' of
          Some w \<Rightarrow> data_offset = 8 + n \<and> header = filter (\<lambda>(k, _). k \<noteq> ''__metadata__'') kvs
        | None \<Rightarrow> data_offset = 8 + n \<and> header = kvs)
     | _ \<Rightarrow> False"
    by (auto simp: read_safetensors_header_def Let_def n_def catch_res_def
        split: if_splits sum.splits json.splits option.splits)
  from v(1) have "json_ok v" by (auto simp: json_loads_bytes_def dest: json_loads_ok)
  with v(2) have "data_offset = 8 + n \<and> dict_ok header"
    by (auto simp: dict_ok_def dict_keys_def distinct_map_filter split: json.splits option.splits)
  with size show ?thesis by auto
qed

lemma header_entry_Inr:
  assumes "header_entry data_offset file_bytes (name, raw) = Inr (r, d)"
  shows "ds_name d = name \<and> ds_file_offset d = data_offset + fst r \<and> ds_length d = snd r - fst r
    \<and> 0 \<le> fst r \<and> fst r \<le> snd r \<and> data_offset + snd r \<le> file_bytes
    \<and> dict_get DTYPE_ATTRIBUTES (ds_dtype d) \<noteq> None"
  using assms
  by (auto simp: header_entry_def split: json.splits option.splits list.splits if_splits)

abbreviation in_range :: "int \<Rightarrow> descriptor \<Rightarrow> bool" where
  "in_range b d \<equiv> ds_file_offset d \<le> b \<and> b < ds_file_offset d + ds_length d"

lemma descriptors_facts:
  assumes "descriptors L file path indexed prefixes = Inr ds"
  shows "\<exists>data_offset header.
    read_safetensors_header L file = Inr (data_offset, header)
    \<and> distinct (map ds_name ds)
    \<and> set (map ds_name ds) = {name \<in> set (dict_keys header). selects path indexed prefixes name}
    \<and> (\<forall>d \<in> set ds. data_offset \<le> ds_file_offset d \<and> 0 \<le> ds_length d
         \<and> ds_file_offset d + ds_length d \<le> int (length file)
         \<and> dict_get DTYPE_ATTRIBUTES (ds_dtype d) \<noteq> None)
    \<and> (\<forall>b. length (filter (in_range b) ds) \<le> 1)
    \<and> (indexed = None \<longrightarrow> sorted (map ds_file_offset ds))"
proof -
  from assms obtain data_offset header entries q where
    header: "read_safetensors_header L file = Inr (data_offset, header)" and
    entries: "traverse (header_entry data_offset (int (length file))) header = Inr entries" and
    overlap: "fold_res overlap_step 0 (sort (map fst entries)) = Inr q" and
    ds: "ds = (case indexed of
          None \<Rightarrow> sort_key ds_file_offset (filter (\<lambda>d. selects path indexed prefixes (ds_name d)) (map snd entries))
        | Some ix \<Rightarrow> sort_key (\<lambda>d. index_position ix (ds_name d))
            (filter (\<lambda>d. selects path indexed prefixes (ds_name d)) (map snd entries)))"
    by (auto simp: descriptors_def Let_def split: prod.splits)
  let ?sel = "filter (\<lambda>d. selects path indexed prefixes (ds_name d)) (map snd entries)"
  have all2: "list_all2 (\<lambda>x y. header_entry data_offset (int (length file)) x = Inr y) header entries"
    using entries by (simp add: traverse_eq_Inr)
  have entry: "ds_file_offset (snd e) = data_offset + fst (fst e) \<and> ds_length (snd e) = snd (fst e) - fst (fst e)
      \<and> 0 \<le> fst (fst e) \<and> fst (fst e) \<le> snd (fst e) \<and> data_offset + snd (fst e) \<le> int (length file)
      \<and> dict_get DTYPE_ATTRIBUTES (ds_dtype (snd e)) \<noteq> None" if "e \<in> set entries" for e
  proof -
    from that obtain i where "i < length entries" "entries ! i = e" by (auto simp: in_set_conv_nth)
    with all2 have "header_entry data_offset (int (length file)) (header ! i) = Inr e"
      by (auto simp: list_all2_conv_all_nth)
    then show ?thesis
      using header_entry_Inr [of _ _ "fst (header ! i)" "snd (header ! i)" "fst e" "snd e"] by simp
  qed
  have names: "map ds_name (map snd entries) = dict_keys header"
    using all2 unfolding dict_keys_def
    by (induction rule: list_all2_induct) (auto dest!: header_entry_Inr)
  have mset: "mset ds = mset ?sel" and set: "set ds = set ?sel"
    unfolding ds by (auto split: option.splits)
  have "distinct (map ds_name (map snd entries))"
    using read_header_Inr [OF header] names by (simp add: dict_ok_def)
  then have "distinct (map ds_name ?sel)" by (rule distinct_map_filter)
  then have dist: "distinct (map ds_name ds)" using mset by (metis mset_eq_imp_distinct_iff mset_map)
  have "set (map ds_name ds) = {name \<in> ds_name ` set (map snd entries). selects path indexed prefixes name}"
    using set by auto
  also have "ds_name ` set (map snd entries) = set (dict_keys header)" using names by (metis set_map)
  finally have sel: "set (map ds_name ds) = {name \<in> set (dict_keys header). selects path indexed prefixes name}" .
  have unique: "length (filter (in_range b) ds) \<le> 1" for b
  proof -
    have "length (filter (in_range b) ds) = length (filter (in_range b) ?sel)"
      by (rule length_filter_mset [OF mset])
    also have "\<dots> \<le> length (filter (in_range b) (map snd entries))"
      by (rule length_filter_filter)
    also have "\<dots> = length (filter (\<lambda>e. in_range b (snd e)) entries)" by (simp add: filter_map o_def)
    also have "filter (\<lambda>e. in_range b (snd e)) entries = filter (\<lambda>e. spans (b - data_offset) (fst e)) entries"
      by (rule filter_cong [OF refl]) (drule entry, auto)
    also have "length \<dots> = length (filter (spans (b - data_offset)) (map fst entries))"
      by (simp add: filter_map o_def)
    also have "\<dots> = length (filter (spans (b - data_offset)) (sort (map fst entries)))"
      by (rule length_filter_mset) simp
    also have "\<dots> \<le> 1" by (rule overlap_unique [OF overlap]) (auto dest: entry)
    finally show ?thesis .
  qed
  have each: "\<forall>d \<in> set ds. data_offset \<le> ds_file_offset d \<and> 0 \<le> ds_length d
      \<and> ds_file_offset d + ds_length d \<le> int (length file) \<and> dict_get DTYPE_ATTRIBUTES (ds_dtype d) \<noteq> None"
    using entry unfolding set by auto
  have order: "indexed = None \<longrightarrow> sorted (map ds_file_offset ds)" using ds by simp
  show ?thesis using header dist sel each unique order by blast
qed



definition demo_header :: string where
  "demo_header = json_text plain_lib (JObj
     [(''a'', JObj [(''data_offsets'', JList [JInt 0, JInt 2]), (''dtype'', JStr ''U8''), (''shape'', JList [JInt 2])]),
      (''b'', JObj [(''data_offsets'', JList [JInt 2, JInt 5]), (''dtype'', JStr ''U8''), (''shape'', JList [JInt 3])])])"

definition demo_shard :: "byte list" where
  "demo_shard = [of_nat (length demo_header), 0, 0, 0, 0, 0, 0, 0] @ ascii_bytes demo_header @ [1, 2, 3, 4, 5]"

definition demo_descriptors :: "descriptor list" where
  "demo_descriptors = [\<lparr>ds_name = ''a'', ds_dtype = ''U8'', ds_shape = [2], ds_file_offset = 113, ds_length = 2\<rparr>,
   \<lparr>ds_name = ''b'', ds_dtype = ''U8'', ds_shape = [3], ds_file_offset = 115, ds_length = 3\<rparr>]"

lemma demo_shard_descriptors: "descriptors plain_lib demo_shard ''/m'' None None = Inr demo_descriptors"
  by code_simp


end
