(* ===== verification/Cold_Recovery.thy ===== *)
theory Cold_Recovery
  imports Cold_Safetensors
begin

text \<open>
  Model of the distributed transport of \<^verbatim>\<open>integrations/vllm/coldsnap_recovery_loader.py\<close>: how the
  tensors of a safetensors file are divided among the ranks of a tensor-parallel group and into
  bounded batches, which byte ranges each rank reads into its staging slab, how the slab regions
  are broadcast, and the iterator that hands every tensor to the model loader.

  The ranks of the group are numbered from 0; rank \<open>r\<close> owns device \<open>r\<close> of the device memory, so
  that one memory holds the slabs of all ranks. The native reader, the safetensors library and
  the collectives of torch are fields of \<open>transport\<close>.
\<close>

section \<open>Floating point\<close>

text \<open>
  A Python float is the rational it denotes. \<open>fl\<close> rounds to the nearest double, ties to even,
  with an unbounded exponent: byte counts and their quotients stay far inside the range of a
  double. Division of two Python integers is correctly rounded, and an integer is rounded before
  a float is subtracted from it.
\<close>

fun bit_count :: "nat \<Rightarrow> nat" where
  "bit_count n = (if n = 0 then 0 else Suc (bit_count (n div 2)))"

declare bit_count.simps [simp del]

definition pow2 :: "int \<Rightarrow> rat" where
  "pow2 e = (if 0 \<le> e then 2 ^ nat e else 1 / 2 ^ nat (- e))"

definition round_half_even :: "rat \<Rightarrow> int" where
  "round_half_even q =
     (let f = \<lfloor>q\<rfloor>; d = q - of_int f in
      if d < 1 / 2 \<or> d = 1 / 2 \<and> even f then f else f + 1)"

definition fl :: "rat \<Rightarrow> rat" where
  "fl x =
     (if x = 0 then 0
      else let (a, b) = quotient_of \<bar>x\<bar>;
               e0 = int (bit_count (nat a)) - int (bit_count (nat b));
               e = (if \<bar>x\<bar> < pow2 e0 then e0 - 1 else e0);
               u = pow2 (e - 52)
           in of_int (round_half_even (x / u)) * u)"

section \<open>Ownership\<close>

definition owner_order :: "bool \<Rightarrow> descriptor list \<Rightarrow> nat list" where
  "owner_order physical_order ds =
     (if physical_order then sort_key (\<lambda>i. ds_file_offset (ds ! i)) [0..<length ds] else [0..<length ds])"

definition prefix_sums :: "descriptor list \<Rightarrow> int list" where
  "prefix_sums ds = foldl (\<lambda>p d. p @ [last p + ds_length d]) [0] ds"

text \<open>\<^verbatim>\<open>min(range(lower, len(prefix)), key=lambda i: (abs(prefix[i] - target), i))\<close>\<close>

definition closest :: "int list \<Rightarrow> rat \<Rightarrow> nat \<Rightarrow> nat" where
  "closest prefix target lower =
     arg_min_list (\<lambda>i. \<bar>fl (fl (of_int (prefix ! i)) - target)\<bar>) [lower..<length prefix]"

definition boundary_step :: "int list \<Rightarrow> nat list \<times> nat \<Rightarrow> rat \<Rightarrow> nat list \<times> nat" where
  "boundary_step prefix s target =
     (let boundary = closest prefix target (snd s) in (fst s @ [boundary], boundary))"

definition boundaries :: "int list \<Rightarrow> rat list \<Rightarrow> nat \<Rightarrow> nat list" where
  "boundaries prefix targets n = fst (foldl (boundary_step prefix) ([0], 0) targets) @ [n]"

definition slice_fill :: "nat \<Rightarrow> nat \<Rightarrow> 'a \<Rightarrow> 'a list \<Rightarrow> 'a list" where
  "slice_fill start stop v xs = take start xs @ replicate (stop - start) v @ drop stop xs"

definition fill_slices :: "'a list \<Rightarrow> nat list \<Rightarrow> 'a list \<Rightarrow> 'a list" where
  "fill_slices vs bs xs =
     foldl (\<lambda>r (v, start, stop). slice_fill start stop v r) xs (zip vs (zip bs (tl bs)))"

definition scatter :: "nat list \<Rightarrow> 'a list \<Rightarrow> 'a list \<Rightarrow> 'a list" where
  "scatter order ys xs = foldl (\<lambda>r (k, i). r[i := ys ! k]) xs (enumerate 0 order)"

definition owners :: "descriptor list \<Rightarrow> int \<Rightarrow> int \<Rightarrow> bool \<Rightarrow> int list res" where
  "owners ds world_size rotation physical_order =
     (if world_size \<le> 0 then Inl (ValueError ''recovery loader world size must be positive'')
      else if ds = [] then Inr []
      else
        let order = owner_order physical_order ds;
            ordered = map ((!) ds) order;
            total = sum_list (map ds_length ordered);
            targets = map (\<lambda>p. fl (of_int (total * p) / of_int world_size)) [1..world_size - 1];
            bs = boundaries (prefix_sums ordered) targets (length ds);
            vs = map (\<lambda>p. (p + rotation) mod world_size) [0..world_size - 1];
            ordered_result = fill_slices vs bs (replicate (length ordered) 0)
        in Inr (scatter order ordered_result (replicate (length ds) 0)))"

definition owner_step :: "int \<Rightarrow> int list \<times> int list \<Rightarrow> descriptor \<times> int \<Rightarrow> (int list \<times> int list) res" where
  "owner_step world_size s item =
     (case (s, item) of ((sizes, offsets), (d, owner)) \<Rightarrow>
        if owner < 0 \<or> owner \<ge> world_size then Inl (ValueError ''recovery tensor owner is outside the TP group'')
        else Inr (sizes[nat owner := sizes ! nat owner + ds_length d], offsets @ [sizes ! nat owner]))"

definition owner_layout :: "descriptor list \<Rightarrow> int list \<Rightarrow> int \<Rightarrow> (int list \<times> int list) res" where
  "owner_layout ds os world_size =
     (if length ds \<noteq> length os then Inl (ValueError ''recovery owner layout length mismatch'')
      else fold_res (owner_step world_size) (replicate (nat world_size) 0, []) (zip ds os))"

section \<open>Batches\<close>

record batch_state =
  bt_done :: "(nat \<times> nat) list"
  bt_start :: nat
  bt_bytes :: int

definition batch_step :: "int \<Rightarrow> (string \<Rightarrow> bool) \<Rightarrow> batch_state \<Rightarrow> nat \<times> descriptor \<Rightarrow> batch_state" where
  "batch_step max_bytes file_names s item =
     (case item of (index, d) \<Rightarrow>
        if file_names (ds_name d) then
          \<lparr>bt_done = bt_done s @ (if bt_start s < index then [(bt_start s, index)] else []) @ [(index, index + 1)],
           bt_start = index + 1, bt_bytes = 0\<rparr>
        else let s1 = (if index > bt_start s \<and> bt_bytes s + ds_length d > max_bytes
                       then \<lparr>bt_done = bt_done s @ [(bt_start s, index)], bt_start = index, bt_bytes = 0\<rparr>
                       else s)
             in s1\<lparr>bt_bytes := bt_bytes s1 + ds_length d\<rparr>)"

definition descriptor_batches :: "descriptor list \<Rightarrow> int \<Rightarrow> (string \<Rightarrow> bool) \<Rightarrow> (nat \<times> nat) list res" where
  "descriptor_batches ds max_bytes file_names =
     (if max_bytes \<le> 0 then Inl (ValueError ''recovery staging bytes must be positive'')
      else let s = foldl (batch_step max_bytes file_names)
                     \<lparr>bt_done = [], bt_start = 0, bt_bytes = 0\<rparr> (enumerate 0 ds)
           in Inr (bt_done s @ (if bt_start s < length ds then [(bt_start s, length ds)] else [])))"

section \<open>Views and extents\<close>

text \<open>The views of the slab, by their offsets in it; a view has the length of its descriptor.\<close>

definition view_step :: "descriptor list \<Rightarrow> int \<times> int list \<Rightarrow> nat \<Rightarrow> int \<times> int list" where
  "view_step ds s index = (fst s + ds_length (ds ! index), (snd s)[index := fst s])"

definition storage_views :: "int \<Rightarrow> descriptor list \<Rightarrow> bool \<Rightarrow> int list res" where
  "storage_views numel ds physical_order =
     (if numel \<noteq> sum_list (map ds_length ds) then Inl (ValueError ''recovery staging slab has the wrong size'')
      else Inr (snd (foldl (view_step ds) (0, replicate (length ds) 0) (owner_order physical_order ds))))"

abbreviation plain_extent :: "int \<Rightarrow> int \<Rightarrow> int \<Rightarrow> hydration_extent" where
  "plain_extent off dest n \<equiv> \<lparr>he_file_offset = off, he_destination = dest, he_length = n,
     he_crc32 = None, he_sha256 = None\<rparr>"

definition coalesce_step ::
  "bool \<Rightarrow> hydration_extent list \<Rightarrow> descriptor \<times> int \<Rightarrow> hydration_extent list res" where
  "coalesce_step coalesce_adjacent extents item =
     (case item of (d, destination) \<Rightarrow>
        if coalesce_adjacent \<and> extents \<noteq> []
           \<and> he_file_offset (last extents) + he_length (last extents) = ds_file_offset d
           \<and> he_destination (last extents) + he_length (last extents) = destination
        then bind_res (hydration_extent_init (plain_extent (he_file_offset (last extents))
                 (he_destination (last extents)) (he_length (last extents) + ds_length d)))
               (\<lambda>e. Inr (butlast extents @ [e]))
        else bind_res (hydration_extent_init (plain_extent (ds_file_offset d) destination (ds_length d)))
               (\<lambda>e. Inr (extents @ [e])))"

definition coalesced_extents ::
  "descriptor list \<Rightarrow> int list \<Rightarrow> int list \<Rightarrow> int \<Rightarrow> bool \<Rightarrow> hydration_extent list res" where
  "coalesced_extents ds pointers os rank coalesce_adjacent =
     (if length pointers \<noteq> length ds \<or> length os \<noteq> length ds
      then Inl (ValueError ''zip() arguments have different lengths'')
      else let selected = map (\<lambda>(d, p, _). (d, p))
                 (filter (\<lambda>(d, _, owner). owner = rank \<and> ds_length d > 0) (zip ds (zip pointers os)))
           in fold_res (coalesce_step coalesce_adjacent) []
                (if coalesce_adjacent then sort_key (\<lambda>(d, _). ds_file_offset d) selected else selected))"

unbundle bit_operations_syntax

definition split_step ::
  "int \<Rightarrow> hydration_extent list \<times> hydration_extent list \<Rightarrow> hydration_extent \<Rightarrow>
   (hydration_extent list \<times> hydration_extent list) res" where
  "split_step alignment s e =
     (let start = he_file_offset e; stop = start + he_length e;
          aligned_start = (start + alignment - 1) AND (- alignment);
          aligned_stop = stop AND (- alignment) in
      if aligned_start \<ge> aligned_stop then Inr (fst s, snd s @ [e])
      else
        bind_res (if start < aligned_start
                  then bind_res (hydration_extent_init (plain_extent start (he_destination e) (aligned_start - start)))
                         (\<lambda>x. Inr [x]) else Inr []) (\<lambda>head_edge.
        bind_res (hydration_extent_init (plain_extent aligned_start (he_destination e + aligned_start - start)
                    (aligned_stop - aligned_start))) (\<lambda>inner.
        bind_res (if aligned_stop < stop
                  then bind_res (hydration_extent_init (plain_extent aligned_stop
                         (he_destination e + aligned_stop - start) (stop - aligned_stop))) (\<lambda>x. Inr [x])
                  else Inr []) (\<lambda>tail_edge.
        Inr (fst s @ [inner], snd s @ head_edge @ tail_edge)))))"

definition split_direct_extents ::
  "hydration_extent list \<Rightarrow> int \<Rightarrow> (hydration_extent list \<times> hydration_extent list) res" where
  "split_direct_extents extents alignment =
     (if alignment \<le> 0 \<or> alignment AND (alignment - 1) \<noteq> 0
      then Inl (ValueError ''recovery direct alignment must be a power of two'')
      else fold_res (split_step alignment) ([], []) extents)"

section \<open>The file system of a shard\<close>

record filesystem =
  fs_type :: string
  fs_source :: string
  fs_mountpoint :: string
  fs_device :: string

definition unescape_mountinfo :: "string \<Rightarrow> string" where
  "unescape_mountinfo value =
     foldl (\<lambda>v (escaped, decoded). py_replace escaped decoded v) value
       [([CHR 0x5C] @ ''040'', '' ''), ([CHR 0x5C] @ ''011'', [CHR 0x09]),
        ([CHR 0x5C] @ ''012'', [CHR 0x0A]), ([CHR 0x5C] @ ''134'', [CHR 0x5C])]"

text \<open>One line of \<^verbatim>\<open>/proc/self/mountinfo\<close>: the candidate it contributes, if any.\<close>

definition mount_candidate :: "string \<Rightarrow> string \<Rightarrow> string \<Rightarrow> filesystem option res" where
  "mount_candidate resolved device line =
     (let fields = split_ws line; separator = length (takeWhile (\<lambda>f. f \<noteq> ''-'') fields) in
      if separator = length fields then Inr None
      else if length fields \<le> separator + 2 \<or> fields ! 2 \<noteq> device then Inr None
      else if length fields \<le> 4 then Inl IndexErr
      else let mountpoint = unescape_mountinfo (fields ! 4) in
        if resolved \<noteq> mountpoint \<and> \<not> starts_with resolved (rstrip_char CHR ''/'' mountpoint @ ''/'')
        then Inr None
        else Inr (Some \<lparr>fs_type = fields ! (separator + 1),
                        fs_source = unescape_mountinfo (fields ! (separator + 2)),
                        fs_mountpoint = mountpoint, fs_device = device\<rparr>))"

definition filesystem_for_open_file :: "string \<Rightarrow> string \<Rightarrow> string list \<Rightarrow> filesystem res" where
  "filesystem_for_open_file resolved device lines =
     bind_res (traverse (mount_candidate resolved device) lines) (\<lambda>found.
     let candidates = List.map_filter id found in
     Inr (if candidates = []
          then \<lparr>fs_type = ''unknown'', fs_source = ''unknown'', fs_mountpoint = ''unknown'', fs_device = device\<rparr>
          else arg_min_list (\<lambda>f. - int (length (fs_mountpoint f))) candidates))"

definition REMOTE_FILESYSTEMS :: "string list" where
  "REMOTE_FILESYSTEMS = [''9p'', ''afs'', ''ceph'', ''cifs'', ''fuse.sshfs'', ''glusterfs'', ''lustre'',
     ''nfs'', ''nfs4'', ''smb2'', ''smb3'']"

definition LOCAL_DIRECT_FILESYSTEMS :: "string list" where
  "LOCAL_DIRECT_FILESYSTEMS = [''btrfs'', ''ext2'', ''ext3'', ''ext4'', ''xfs'']"

text \<open>\<open>ob_fallback\<close> is the error of a direct read that the automatic policy repeated buffered.\<close>

record observation =
  ob_requested :: string
  ob_effective :: string
  ob_reason :: string
  ob_filesystem :: filesystem
  ob_fallback :: "exn option"

type_synonym policy = "(string, observation) dict"

text \<open>
  \<open>mounts path\<close> is what the operating system says of a path: its resolved name, its device
  number and the mount table.
\<close>

type_synonym mounts = "string \<Rightarrow> (string \<times> string \<times> string list) res"

definition select_recovery_io :: "mounts \<Rightarrow> string \<Rightarrow> string \<Rightarrow> policy \<Rightarrow> (observation \<times> policy) res" where
  "select_recovery_io mounts path requested observations =
     bind_res (mounts path) (\<lambda>(resolved, device, lines).
     bind_res (filesystem_for_open_file resolved device lines) (\<lambda>fs.
     let t = py_lower (fs_type fs);
         (effective, reason) =
           (if requested \<noteq> ''auto'' then (requested, ''explicit-policy'')
            else if t \<in> set REMOTE_FILESYSTEMS \<or> starts_with t ''fuse.''
            then (''buffered'', ''remote-filesystem-prefers-page-cache'')
            else if t \<in> set LOCAL_DIRECT_FILESYSTEMS then (''direct'', ''qualified-local-filesystem'')
            else (''buffered'', ''unknown-filesystem-safe-default''));
         ob = \<lparr>ob_requested = requested, ob_effective = effective, ob_reason = reason,
               ob_filesystem = fs, ob_fallback = None\<rparr>
     in Inr (ob, dict_put path ob observations)))"

section \<open>Reading one batch\<close>

text \<open>
  What the transport uses of other code. \<open>tp_library\<close> is the native library, absent when torch
  reads the file; \<open>tp_transfer path extents backend dev\<close> is the device memory after a call of its
  \<^verbatim>\<open>hydrate\<close>; \<open>tp_get_tensor path name\<close> are the bytes of a tensor that safetensors loads;
  \<open>tp_typed_view dtype shape offset n\<close> is torch's answer to viewing \<open>n\<close> bytes at an offset of the
  slab as a tensor; \<open>tp_group\<close> are the global ranks of the group; \<open>tp_all_reduce\<close> reduces one
  integer of each rank; \<open>tp_broadcast src ranges\<close> is the memory after a broadcast from a global
  rank, where each rank passes a range of its own device.
\<close>

record transport =
  tp_library :: "native_library option"
  tp_backend :: string
  tp_chunk_bytes :: int
  tp_queue_depth :: int
  tp_staging_bytes :: int
  tp_collective_bytes :: int
  tp_verify_bytes :: int
  tp_mounts :: mounts
  tp_transfer :: "string \<Rightarrow> hydration_extent list \<Rightarrow> string \<Rightarrow> int \<Rightarrow> device_memory \<Rightarrow> device_memory"
  tp_get_tensor :: "string \<Rightarrow> string \<Rightarrow> byte list res"
  tp_element_size :: "string \<Rightarrow> int option"
  tp_typed_view :: "string \<Rightarrow> int list \<Rightarrow> int \<Rightarrow> int \<Rightarrow> unit res"
  tp_group :: "int list option"
  tp_all_reduce :: "int list \<Rightarrow> int"
  tp_broadcast :: "int \<Rightarrow> (int \<times> nat) list \<Rightarrow> device_memory \<Rightarrow> device_memory"

definition world :: "transport \<Rightarrow> nat" where
  "world T = (case tp_group T of None \<Rightarrow> 1 | Some g \<Rightarrow> length g)"

definition hydrate_args :: "transport \<Rightarrow> string \<Rightarrow> int \<Rightarrow> hydrate_call" where
  "hydrate_args T backend dev =
     \<lparr>hc_backend = backend, hc_chunk_bytes = tp_chunk_bytes T, hc_queue_depth = tp_queue_depth T,
      hc_cuda_device = dev, hc_preverified = False, hc_register_device_buffers = False\<rparr>"

text \<open>The second half of \<^verbatim>\<open>_native_hydrate_owned\<close>: the buffered ranges and the result.\<close>

definition hydrate_buffered ::
  "transport \<Rightarrow> native_library \<Rightarrow> string \<Rightarrow> int \<Rightarrow> hydration_extent list \<Rightarrow> hydration_extent list \<Rightarrow>
   device_memory \<Rightarrow> device_memory \<times> (int \<times> string) res" where
  "hydrate_buffered T lib path dev direct buffered mem =
     (let r = Inr (int (length direct + length buffered),
                if direct \<noteq> [] \<and> buffered \<noteq> [] then ''direct+buffered-edges''
                else if direct \<noteq> [] then ''direct'' else ''buffered'') in
      if buffered = [] then (mem, r)
      else (tp_transfer T path buffered ''buffered'' dev mem,
            bind_res (hydrate lib path buffered (hydrate_args T ''buffered'' dev)) (\<lambda>_. r)))"

definition native_hydrate_owned ::
  "transport \<Rightarrow> native_library \<Rightarrow> string \<Rightarrow> hydration_extent list \<Rightarrow> int \<Rightarrow> device_memory \<times> policy \<Rightarrow>
   (device_memory \<times> policy) \<times> (int \<times> string) res" where
  "native_hydrate_owned T lib path extents dev s =
     (case s of (mem, observations) \<Rightarrow>
      case select_recovery_io (tp_mounts T) path (tp_backend T) observations of
        Inl e \<Rightarrow> (s, Inl e)
      | Inr (ob, obs) \<Rightarrow>
      (case bind_res (if ob_effective ob = ''direct'' then available lib ''direct'' else Inr False) (\<lambda>direct_available.
            if ob_effective ob = ''direct'' \<and> \<not> direct_available
            then Inl (RuntimeErr ''recovery loader direct hydration is unavailable'')
            else if direct_available then split_direct_extents extents 4096
            else Inr ([], extents)) of
         Inl e \<Rightarrow> ((mem, obs), Inl e)
       | Inr (direct, buffered) \<Rightarrow>
           if direct = [] then
             (case hydrate_buffered T lib path dev [] buffered mem of (mem1, r) \<Rightarrow> ((mem1, obs), r))
           else let mem1 = tp_transfer T path direct ''direct'' dev mem in
             (case hydrate lib path direct (hydrate_args T ''direct'' dev) of
                Inr _ \<Rightarrow>
                  (case hydrate_buffered T lib path dev direct buffered mem1 of (mem2, r) \<Rightarrow> ((mem2, obs), r))
              | Inl e \<Rightarrow>
                  if (is_os_error e \<or> is_runtime_error e) \<and> tp_backend T = ''auto'' then
                    let ob' = ob\<lparr>ob_effective := ''buffered'', ob_reason := ''direct-open-fallback'',
                                 ob_fallback := Some e\<rparr>
                    in (case hydrate_buffered T lib path dev [] extents mem1 of
                          (mem2, r) \<Rightarrow> ((mem2, dict_put path ob' obs), r))
                  else ((mem1, obs), Inl e))))"

definition torch_load_step ::
  "transport \<Rightarrow> string \<Rightarrow> int \<Rightarrow> device_memory \<times> unit res \<Rightarrow> string \<times> int \<times> int \<Rightarrow> device_memory \<times> unit res" where
  "torch_load_step T path dev s item =
     (case (s, item) of ((mem, r), (name, pointer, n)) \<Rightarrow>
        case r of
          Inl e \<Rightarrow> (mem, Inl e)
        | Inr _ \<Rightarrow>
            (case tp_get_tensor T path name of
               Inl e \<Rightarrow> (mem, Inl e)
             | Inr bs \<Rightarrow>
                 if int (length bs) \<noteq> n then (mem, Inl (RuntimeErr ''shape mismatch in copy_''))
                 else (write_mem mem dev pointer bs, Inr ())))"

definition torch_load_owned ::
  "transport \<Rightarrow> string \<Rightarrow> descriptor list \<Rightarrow> int list \<Rightarrow> int list \<Rightarrow> int \<Rightarrow> device_memory \<Rightarrow>
   device_memory \<times> unit res" where
  "torch_load_owned T path ds pointers os rank mem =
     foldl (torch_load_step T path rank) (mem, Inr ())
       (dict_of (map (\<lambda>(d, p, _). (ds_name d, p, ds_length d))
          (filter (\<lambda>(_, _, owner). owner = rank) (zip ds (zip pointers os)))))"

section \<open>Broadcasting the slab\<close>

definition region_step ::
  "int \<Rightarrow> int \<Rightarrow> (int \<times> int \<times> int) list \<Rightarrow> int \<times> int \<times> int \<Rightarrow> (int \<times> int \<times> int) list res" where
  "region_step base limit regions row =
     (case row of (pointer, n, owner) \<Rightarrow>
        if pointer < base \<or> pointer + n > limit
        then Inl (ValueError ''recovery tensor storage lies outside staging slab'')
        else if regions \<noteq> [] \<and> snd (snd (last regions)) = owner
                \<and> fst (last regions) + fst (snd (last regions)) = pointer
        then Inr (butlast regions @ [(fst (last regions), fst (snd (last regions)) + n, owner)])
        else Inr (regions @ [(pointer, n, owner)]))"

text \<open>The chunks of a region; the size of a chunk is positive where the loop is reached.\<close>

function chunk_ranges :: "int \<Rightarrow> int \<Rightarrow> int \<Rightarrow> (int \<times> int) list" where
  "chunk_ranges max_chunk_bytes offset region_end =
     (if offset < region_end \<and> 0 < max_chunk_bytes
      then let chunk_end = min (offset + max_chunk_bytes) region_end
           in (offset, chunk_end) # chunk_ranges max_chunk_bytes chunk_end region_end
      else [])"
  by pat_completeness auto
termination by (relation "measure (\<lambda>(_, offset, region_end). nat (region_end - offset))") auto

declare chunk_ranges.simps [simp del]

definition broadcast_slab_regions ::
  "int \<Rightarrow> int \<Rightarrow> (int \<times> int) list \<Rightarrow> int list \<Rightarrow> int \<Rightarrow> (int \<times> int \<times> int) list res" where
  "broadcast_slab_regions base numel storages os max_chunk_bytes =
     (if length storages \<noteq> length os then Inl (ValueError ''recovery broadcast layout length mismatch'')
      else if max_chunk_bytes \<le> 0 then Inl (ValueError ''recovery broadcast chunk size must be positive'')
      else bind_res (fold_res (region_step base (base + numel)) []
             (sort (map (\<lambda>((p, n), owner). (p, n, owner)) (filter (\<lambda>((_, n), _). n > 0) (zip storages os)))))
        (\<lambda>regions. Inr (concat (map (\<lambda>(pointer, n, owner).
            map (\<lambda>(a, b). (owner, a, b)) (chunk_ranges max_chunk_bytes (pointer - base) (pointer - base + n)))
          regions))))"

text \<open>
  The calls of every rank: \<open>(owner, a, b)\<close> broadcasts the bytes \<open>a\<close> to \<open>b\<close> of the slab from the
  rank \<open>owner\<close>. The ranks make the same calls, since only the base of their slabs differs
  (lemma \<open>broadcast_calls_agree\<close>); the model computes them from the slab of rank 0.
\<close>

definition broadcast_call :: "transport \<Rightarrow> int list \<Rightarrow> int list \<Rightarrow> device_memory \<Rightarrow> int \<times> int \<times> int \<Rightarrow> device_memory" where
  "broadcast_call T members bases mem call =
     (case call of (owner, a, b) \<Rightarrow>
        tp_broadcast T (members ! nat owner) (map (\<lambda>base. (base + a, nat (b - a))) bases) mem)"

section \<open>Sample verification\<close>

definition sample_segments :: "int \<Rightarrow> descriptor \<Rightarrow> (int \<times> int) list" where
  "sample_segments sample_bytes d =
     (let h = min sample_bytes (ds_length d); t = min sample_bytes (ds_length d - h) in
      (if h \<noteq> 0 then [(0, h)] else []) @ (if t \<noteq> 0 then [(ds_length d - t, t)] else []))"

definition verify_tensor_samples ::
  "byte list \<Rightarrow> descriptor list \<Rightarrow> int list \<Rightarrow> int \<Rightarrow> int \<Rightarrow> device_memory \<Rightarrow> int res" where
  "verify_tensor_samples file ds pointers sample_bytes dev mem =
     (if sample_bytes \<le> 0 then Inr 0
      else if length ds \<noteq> length pointers then Inl (ValueError ''recovery verification layout length mismatch'')
      else let segments = concat (map (\<lambda>(d, p). map (\<lambda>(a, n). (ds_file_offset d + a, p + a, nat n))
                            (sample_segments sample_bytes d)) (zip ds pointers));
               expected = concat (map (\<lambda>(off, _, n). read_at file (nat off) n) segments);
               actual = concat (map (\<lambda>(_, p, n). read_mem mem dev p n) segments)
           in if actual = expected then Inr (int (length expected))
              else if length actual \<noteq> length expected
              then Inl (ValueError ''zip() arguments have different lengths'')
              else Inl (RuntimeErr ''recovery tensor sample mismatch''))"

section \<open>The iterator\<close>

text \<open>
  What the group sees of an operation: a result, or what each rank raised, where \<open>None\<close> is a
  rank that went on.
\<close>

type_synonym 'a group_res = "exn option list + 'a"

definition lift_group :: "transport \<Rightarrow> 'a res \<Rightarrow> 'a group_res" where
  "lift_group T r = (case r of Inl e \<Rightarrow> Inl (replicate (world T) (Some e)) | Inr x \<Rightarrow> Inr x)"

definition bind_group :: "'a group_res \<Rightarrow> ('a \<Rightarrow> 'b group_res) \<Rightarrow> 'b group_res" where
  "bind_group r f = (case r of Inl es \<Rightarrow> Inl es | Inr x \<Rightarrow> f x)"

text \<open>The device memory of all ranks, the policy table of each, and the number of slabs used.\<close>

record group_state =
  gs_memory :: device_memory
  gs_policies :: "policy list"
  gs_slabs :: nat

definition load_owned ::
  "transport \<Rightarrow> string \<Rightarrow> descriptor list \<Rightarrow> int list \<Rightarrow> int list \<Rightarrow> int \<Rightarrow> device_memory \<times> policy \<Rightarrow>
   (device_memory \<times> policy) \<times> unit res" where
  "load_owned T path ds pointers os rank s =
     (case coalesced_extents ds pointers os rank True of
        Inl e \<Rightarrow> (s, Inl e)
      | Inr extents \<Rightarrow>
          if \<not> list_ex (\<lambda>(d, owner). owner = rank \<and> ds_length d > 0) (zip ds os) then (s, Inr ())
          else (case tp_library T of
             Some lib \<Rightarrow>
               (case native_hydrate_owned T lib path extents rank s of (s1, r) \<Rightarrow> (s1, bind_res r (\<lambda>_. Inr ())))
           | None \<Rightarrow>
               (case torch_load_owned T path ds pointers os rank (fst s) of (mem, r) \<Rightarrow> ((mem, snd s), r))))"

definition rank_step ::
  "transport \<Rightarrow> string \<Rightarrow> descriptor list \<Rightarrow> int list \<Rightarrow> int list \<Rightarrow>
   device_memory \<times> policy list \<times> unit res list \<Rightarrow> int \<times> int \<times> policy \<Rightarrow>
   device_memory \<times> policy list \<times> unit res list" where
  "rank_step T path ds views os s item =
     (case (s, item) of ((mem, policies, results), (rank, base, policy)) \<Rightarrow>
        case load_owned T path ds (map ((+) base) views) os rank (mem, policy) of
          ((mem1, policy1), r) \<Rightarrow> (mem1, policies @ [policy1], results @ [r]))"

definition load_error :: "'a res \<Rightarrow> exn option" where
  "load_error r = (case r of Inl e \<Rightarrow> Some e | Inr _ \<Rightarrow> None)"

text \<open>
  The status reduction that follows every transfer: each rank says whether it failed, and if one
  did all of them raise, the failed ones their own error.
\<close>

definition error_fence :: "transport \<Rightarrow> string \<Rightarrow> exn option list \<Rightarrow> unit group_res" where
  "error_fence T message errors =
     (let status = (case tp_group T of
                      Some _ \<Rightarrow> tp_all_reduce T (map (\<lambda>e. if e \<noteq> None then 1 else 0) errors)
                    | None \<Rightarrow> if errors = [None] then 0 else 1)
      in if status \<noteq> 0 then Inl (map (\<lambda>e. if e \<noteq> None then e else Some (RuntimeErr message)) errors)
         else Inr ())"

text \<open>
  One batch on every rank: the views of the slab, the reads of each rank, the error fence, the
  broadcasts, the sample check, and the tensors that are handed out.
\<close>

definition read_batch ::
  "transport \<Rightarrow> string \<Rightarrow> descriptor list \<Rightarrow> int list \<Rightarrow> int list \<Rightarrow> int list \<Rightarrow> group_state \<Rightarrow>
   group_state \<times> unit group_res" where
  "read_batch T path ds os views bases s =
     (case foldl (rank_step T path ds views os) (gs_memory s, [], [])
             (zip [0..int (world T) - 1] (zip bases (gs_policies s))) of
        (mem, policies, results) \<Rightarrow>
          (s\<lparr>gs_memory := mem, gs_policies := policies\<rparr>,
           error_fence T ''a peer failed while reading recovery safetensors'' (map load_error results)))"

definition share_batch ::
  "transport \<Rightarrow> descriptor list \<Rightarrow> int list \<Rightarrow> int list \<Rightarrow> int list \<Rightarrow> group_state \<Rightarrow> group_state group_res" where
  "share_batch T ds os views bases s =
     (case tp_group T of
        None \<Rightarrow> Inr s
      | Some g \<Rightarrow>
          lift_group T (bind_res
            (broadcast_slab_regions (hd bases) (sum_list (map ds_length ds))
               (zip (map ((+) (hd bases)) views) (map ds_length ds)) os (tp_collective_bytes T))
            (\<lambda>calls. Inr (s\<lparr>gs_memory := foldl (broadcast_call T g bases) (gs_memory s) calls\<rparr>))))"

definition verify_batch ::
  "transport \<Rightarrow> byte list \<Rightarrow> descriptor list \<Rightarrow> int list \<Rightarrow> int list \<Rightarrow> group_state \<Rightarrow> unit group_res" where
  "verify_batch T file ds views bases s =
     (let rs = map (\<lambda>(rank, base). verify_tensor_samples file ds (map ((+) base) views) (tp_verify_bytes T)
                 rank (gs_memory s)) (zip [0..int (world T) - 1] bases)
      in if list_all (\<lambda>r. \<not> isl r) rs then Inr ()
         else Inl (map (\<lambda>r. case r of Inl e \<Rightarrow> Some e | Inr _ \<Rightarrow> None) rs))"

text \<open>What the model loader is given: a file range, or a tensor with its bytes on each rank.\<close>

datatype item = FileSource string string descriptor | Tensor string "byte list list"

definition move_batch ::
  "transport \<Rightarrow> string \<Rightarrow> byte list \<Rightarrow> descriptor list \<Rightarrow> int list \<Rightarrow> int list \<Rightarrow> int list \<Rightarrow> group_state \<Rightarrow>
   group_state group_res" where
  "move_batch T path file ds os views bases s =
     (case read_batch T path ds os views bases s of (s1, r) \<Rightarrow>
      bind_group r (\<lambda>_.
      bind_group (share_batch T ds os views bases s1) (\<lambda>s2.
      bind_group (verify_batch T file ds views bases s2) (\<lambda>_. Inr s2))))"

definition load_batch ::
  "transport \<Rightarrow> (nat \<Rightarrow> int list) \<Rightarrow> string \<Rightarrow> byte list \<Rightarrow> string \<Rightarrow> descriptor list \<Rightarrow> int list \<Rightarrow> group_state \<Rightarrow>
   (group_state \<times> item list) group_res" where
  "load_batch T slabs path file prefix ds os s =
     (let bases = slabs (gs_slabs s) in
      bind_group (lift_group T
        (bind_res (storage_views (sum_list (map ds_length ds)) ds True) (\<lambda>views.
         bind_res (each_res (\<lambda>(d, v). bind_res (validate_descriptor_size (tp_element_size T) d)
            (\<lambda>dtype. tp_typed_view T dtype (ds_shape d) v (ds_length d))) (zip ds views)) (\<lambda>_. Inr views)))) (\<lambda>views.
      bind_group (move_batch T path file ds os views bases (s\<lparr>gs_slabs := Suc (gs_slabs s)\<rparr>)) (\<lambda>s2.
      Inr (s2, map (\<lambda>(d, v). Tensor (prefix @ ds_name d)
             (map (\<lambda>(rank, base). read_mem (gs_memory s2) rank (base + v) (nat (ds_length d)))
                (zip [0..int (world T) - 1] bases))) (zip ds views)))))"

definition batch_item_step ::
  "transport \<Rightarrow> (nat \<Rightarrow> int list) \<Rightarrow> string \<Rightarrow> byte list \<Rightarrow> string \<Rightarrow> (string \<Rightarrow> bool) \<Rightarrow> descriptor list \<Rightarrow> int list \<Rightarrow>
   (group_state \<times> item list) group_res \<Rightarrow> nat \<times> nat \<Rightarrow> (group_state \<times> item list) group_res" where
  "batch_item_step T slabs path file prefix file_names ds os r bounds =
     bind_group r (\<lambda>(s, items).
       case bounds of (start, stop) \<Rightarrow>
       let batch = take (stop - start) (drop start ds) in
       if file_names (ds_name (hd batch)) then
         bind_group (lift_group T (validate_descriptor_size (tp_element_size T) (hd batch))) (\<lambda>_.
           Inr (s, items @ [FileSource (prefix @ ds_name (hd batch)) path (hd batch)]))
       else bind_group (load_batch T slabs path file prefix batch (take (stop - start) (drop start os)) s)
              (\<lambda>(s1, new). Inr (s1, items @ new)))"

text \<open>The owner of a tensor that is handed out as a file range is \<^verbatim>\<open>-1\<close>.\<close>

definition file_owners :: "(string \<Rightarrow> bool) \<Rightarrow> descriptor list \<Rightarrow> int \<Rightarrow> int \<Rightarrow> int list res" where
  "file_owners file_names ds world_size rotation =
     (let ordinary = filter (\<lambda>d. \<not> file_names (ds_name d)) ds in
      bind_res (owners ordinary world_size rotation True) (\<lambda>os.
      let owner_by_name = dict_of (zip (map ds_name ordinary) os) in
      Inr (map (\<lambda>d. case dict_get owner_by_name (ds_name d) of Some o' \<Rightarrow> o' | None \<Rightarrow> - 1) ds)))"

definition load_file ::
  "transport \<Rightarrow> (nat \<Rightarrow> int list) \<Rightarrow> string \<Rightarrow> byte list \<Rightarrow> string \<Rightarrow> (string \<Rightarrow> bool) \<Rightarrow> descriptor list \<Rightarrow> int \<Rightarrow>
   group_state \<Rightarrow> (group_state \<times> item list) group_res" where
  "load_file T slabs path file prefix file_names ds file_number s =
     bind_group (lift_group T (file_owners file_names ds (int (world T)) (file_number mod int (world T)))) (\<lambda>os.
     bind_group (lift_group T (descriptor_batches ds (tp_staging_bytes T) file_names)) (\<lambda>ranges.
     foldl (batch_item_step T slabs path file prefix file_names ds os) (Inr (s, [])) ranges))"

text \<open>
  One file of the iteration: the selected descriptors in physical order, the check for names that
  an earlier file supplied, and the batches. \<open>skips\<close> stands for vLLM's filter and the names that a
  replay has already restored.
\<close>

record selection =
  sl_directory :: string
  sl_index :: "(string, string) dict option"
  sl_prefixes :: "string list option"
  sl_prefix :: string
  sl_skips :: "string \<Rightarrow> bool"
  sl_file_filter :: "(string \<Rightarrow> bool) option"

definition file_backed :: "selection \<Rightarrow> string \<Rightarrow> bool" where
  "file_backed S name = (case sl_file_filter S of None \<Rightarrow> False | Some f \<Rightarrow> f name)"

definition selected_descriptors :: "pylib \<Rightarrow> selection \<Rightarrow> string \<Rightarrow> byte list \<Rightarrow> descriptor list res" where
  "selected_descriptors L S path file =
     bind_res (descriptors L file (abspath (sl_directory S) path) (sl_index S) (sl_prefixes S)) (\<lambda>ds.
     Inr (sort_key ds_file_offset (filter (\<lambda>d. \<not> sl_skips S (ds_name d)) ds)))"

definition file_step ::
  "pylib \<Rightarrow> transport \<Rightarrow> (nat \<Rightarrow> int list) \<Rightarrow> selection \<Rightarrow>
   (group_state \<times> item list \<times> string list) group_res \<Rightarrow> int \<times> string \<times> byte list \<Rightarrow>
   (group_state \<times> item list \<times> string list) group_res" where
  "file_step L T slabs S r f =
     bind_group r (\<lambda>(s, items, seen).
       case f of (file_number, path, file) \<Rightarrow>
       bind_group (lift_group T (selected_descriptors L S path file)) (\<lambda>ds.
       if list_ex (\<lambda>d. ds_name d \<in> set seen) ds
       then lift_group T (Inl (RuntimeErr ''duplicate selected safetensors tensor''))
       else bind_group (load_file T slabs path file (sl_prefix S) (file_backed S) ds file_number s)
              (\<lambda>(s1, new). Inr (s1, items @ new, seen @ map ds_name ds))))"

definition recovery_weights_iterator ::
  "pylib \<Rightarrow> transport \<Rightarrow> (nat \<Rightarrow> int list) \<Rightarrow> selection \<Rightarrow> (string \<times> byte list) list \<Rightarrow> group_state \<Rightarrow>
   (group_state \<times> item list) group_res" where
  "recovery_weights_iterator L T slabs S files s =
     (let ordered = sort_key fst files in
      bind_group (foldl (file_step L T slabs S) (Inr (s\<lparr>gs_policies := replicate (world T) []\<rparr>, [], []))
        (zip [0..int (length ordered) - 1] ordered))
      (\<lambda>(s1, items, _). Inr (s1, items)))"

section \<open>Settings\<close>

definition env_int :: "environ \<Rightarrow> string \<Rightarrow> int \<Rightarrow> int res" where
  "env_int env name missing =
     (case env name of None \<Rightarrow> Inr missing
      | Some s \<Rightarrow> opt_res (ValueError ''invalid literal for int() with base 10'') (py_int s))"

text \<open>The backend and native library, \<^verbatim>\<open>_native_hydrator\<close>.\<close>

definition recovery_hydrator ::
  "pylib \<Rightarrow> (string \<Rightarrow> native_library option) \<Rightarrow> environ \<Rightarrow> (native_library option \<times> string) res" where
  "recovery_hydrator L installed env =
     (let requested = (case env ''COLDSNAP_RECOVERY_LOADER_BACKEND'' of None \<Rightarrow> ''direct'' | Some b \<Rightarrow> b);
          library = (case env HYDRATION_LIBRARY_ENV of None \<Rightarrow> [] | Some p \<Rightarrow> p) in
      if requested \<notin> {''auto'', ''buffered'', ''direct'', ''mmap'', ''torch''}
      then Inl (ValueError ''COLDSNAP_RECOVERY_LOADER_BACKEND must be auto, buffered, direct, mmap, or torch'')
      else if requested = ''mmap'' then Inr (None, ''mmap'')
      else if requested = ''torch'' \<or> requested = ''auto'' \<and> library = [] then Inr (None, ''torch'')
      else if library = [] then Inl (RuntimeErr ''COLDSNAP_RECOVERY_LOADER_BACKEND requires the native hydrator'')
      else bind_res (native_hydrator_init installed library) (\<lambda>lib.
        let expected = (case env HYDRATION_LIBRARY_SHA256_ENV of None \<Rightarrow> [] | Some h \<Rightarrow> h) in
        if expected \<noteq> [] \<and> hydrator_sha256 L lib \<noteq> expected
        then Inl (RuntimeErr ''recovery loader native hydration library SHA-256 mismatch'')
        else Inr (Some lib, requested)))"

definition verify_setting :: "environ \<Rightarrow> int res" where
  "verify_setting env =
     bind_res (env_int env ''COLDSNAP_RECOVERY_LOADER_VERIFY_BYTES'' 0) (\<lambda>verify_bytes.
     if verify_bytes < 0 \<or> verify_bytes > 4096
     then Inl (ValueError ''COLDSNAP_RECOVERY_LOADER_VERIFY_BYTES must be between 0 and 4096'')
     else Inr verify_bytes)"

definition transfer_settings :: "environ \<Rightarrow> (int \<times> int \<times> int \<times> int) res" where
  "transfer_settings env =
     bind_res (env_int env ''COLDSNAP_RECOVERY_LOADER_CHUNK_BYTES'' (64 * 1024 ^ 2)) (\<lambda>chunk_bytes.
     bind_res (env_int env ''COLDSNAP_RECOVERY_LOADER_QUEUE_DEPTH'' 4) (\<lambda>queue_depth.
     bind_res (env_int env ''COLDSNAP_RECOVERY_LOADER_COLLECTIVE_BYTES'' (64 * 1024 ^ 2)) (\<lambda>collective.
     bind_res (env_int env ''COLDSNAP_RECOVERY_LOADER_STAGING_BYTES'' (256 * 1024 ^ 2)) (\<lambda>staging.
     if chunk_bytes \<le> 0 \<or> chunk_bytes mod 4096 \<noteq> 0
     then Inl (ValueError ''COLDSNAP_RECOVERY_LOADER_CHUNK_BYTES must be 4096-byte aligned'')
     else if \<not> (1 \<le> queue_depth \<and> queue_depth \<le> 64)
     then Inl (ValueError ''COLDSNAP_RECOVERY_LOADER_QUEUE_DEPTH must be between 1 and 64'')
     else if collective \<le> 0 \<or> collective mod 4096 \<noteq> 0
     then Inl (ValueError ''COLDSNAP_RECOVERY_LOADER_COLLECTIVE_BYTES must be 4096-byte aligned'')
     else if staging \<le> 0 then Inl (ValueError ''COLDSNAP_RECOVERY_LOADER_STAGING_BYTES must be positive'')
     else Inr (chunk_bytes, queue_depth, collective, staging)))))"

section \<open>Placing values by an order\<close>

lemma foldl_update_nth:
  assumes "distinct order" "\<forall>i \<in> set order. i < length xs"
  shows "length (foldl (\<lambda>r (k, i). r[i := ys ! k]) xs (enumerate m order)) = length xs
    \<and> (\<forall>i. i \<notin> set order \<longrightarrow> foldl (\<lambda>r (k, i). r[i := ys ! k]) xs (enumerate m order) ! i = xs ! i)
    \<and> (\<forall>k < length order. foldl (\<lambda>r (k, i). r[i := ys ! k]) xs (enumerate m order) ! (order ! k) = ys ! (m + k))"
  using assms
proof (induction order arbitrary: xs m)
  case (Cons i order)
  let ?r = "foldl (\<lambda>r (k, i). r[i := ys ! k]) (xs[i := ys ! m]) (enumerate (Suc m) order)"
  have r: "length ?r = length xs" "\<And>j. j \<notin> set order \<Longrightarrow> ?r ! j = xs[i := ys ! m] ! j"
    "\<And>k. k < length order \<Longrightarrow> ?r ! (order ! k) = ys ! (Suc m + k)"
    using Cons.IH [of "xs[i := ys ! m]" "Suc m"] Cons.prems by auto
  have "?r ! ((i # order) ! k) = ys ! (m + k)" if "k < length (i # order)" for k
    using r(2) [of i] r(3) [of "k - 1"] Cons.prems that by (cases k) auto
  with r show ?case using Cons.prems by simp
qed simp

definition is_order :: "nat list \<Rightarrow> nat \<Rightarrow> bool" where
  "is_order order n \<longleftrightarrow> distinct order \<and> set order = {0..<n}"

lemma is_order_length: "is_order order n \<Longrightarrow> length order = n"
  unfolding is_order_def by (metis card_atLeastLessThan diff_zero distinct_card)

lemma is_order_nth: "is_order order n \<Longrightarrow> k < n \<Longrightarrow> order ! k < n"
  by (metis atLeastLessThan_iff is_order_def is_order_length nth_mem)

lemma is_order_ex: "is_order order n \<Longrightarrow> i < n \<Longrightarrow> \<exists>k < n. order ! k = i"
  by (metis atLeastLessThan_iff in_set_conv_nth is_order_def is_order_length zero_le)

lemma owner_order_is_order [simp]: "is_order (owner_order physical ds) (length ds)"
  by (auto simp: is_order_def owner_order_def)

lemma scatter_nth:
  assumes "is_order order (length xs)"
  shows "length (scatter order ys xs) = length xs"
    and "k < length xs \<Longrightarrow> scatter order ys xs ! (order ! k) = ys ! k"
  using foldl_update_nth [of order xs ys 0] assms is_order_length [OF assms]
  by (auto simp: scatter_def is_order_def)

section \<open>Boundaries and slices\<close>

lemma length_prefix_sums [simp]: "length (prefix_sums ds) = Suc (length ds)"
proof -
  have "length (foldl (\<lambda>p d. p @ [last p + ds_length d]) p ds) = length p + length ds" for p
    by (induction ds arbitrary: p) simp_all
  then show ?thesis by (simp add: prefix_sums_def)
qed

lemma closest_range:
  assumes "lower < length prefix"
  shows "closest prefix t lower \<in> {lower..<length prefix}"
proof -
  have "closest prefix t lower \<in> set [lower..<length prefix]"
    unfolding closest_def by (rule arg_min_list_in) (use assms in auto)
  then show ?thesis by simp
qed

lemma sorted_snoc_last:
  assumes "sorted (bs :: 'a :: linorder list)" "bs \<noteq> []" "last bs \<le> b"
  shows "sorted (bs @ [b])"
proof -
  have "x \<le> last bs" if "x \<in> set bs" for x
    using that assms(1,2) by (auto simp: in_set_conv_nth last_conv_nth intro: sorted_nth_mono)
  with assms show ?thesis by (force simp: sorted_append)
qed

lemma boundary_fold:
  assumes "sorted bs" "bs \<noteq> []" "last bs = lower" "lower < length prefix"
  shows "\<exists>cs. foldl (boundary_step prefix) (bs, lower) targets = (bs @ cs, last (bs @ cs))
    \<and> length cs = length targets \<and> sorted (bs @ cs) \<and> last (bs @ cs) < length prefix"
  using assms
proof (induction targets arbitrary: bs lower)
  case (Cons t targets)
  let ?b = "closest prefix t lower"
  have b: "lower \<le> ?b" "?b < length prefix" using closest_range [OF Cons.prems(4), of t] by auto
  have "sorted (bs @ [?b])"
    using Cons.prems b(1) by (auto intro: sorted_snoc_last)
  then obtain cs where "foldl (boundary_step prefix) (bs @ [?b], ?b) targets = ((bs @ [?b]) @ cs, last ((bs @ [?b]) @ cs))"
    "length cs = length targets" "sorted ((bs @ [?b]) @ cs)" "last ((bs @ [?b]) @ cs) < length prefix"
    using Cons.IH [of "bs @ [?b]" ?b] b by auto
  moreover have "boundary_step prefix (bs, lower) t = (bs @ [?b], ?b)"
    by (simp add: boundary_step_def Let_def)
  ultimately show ?case by (intro exI [of _ "?b # cs"]) simp
qed (auto intro: exI [of _ "[]"])

lemma boundaries_ok:
  assumes "length prefix = Suc n"
  shows "length (boundaries prefix targets n) = length targets + 2 \<and> sorted (boundaries prefix targets n)
    \<and> boundaries prefix targets n ! 0 = 0 \<and> last (boundaries prefix targets n) = n"
proof -
  from boundary_fold [of "[0]" 0 prefix targets] assms obtain cs where
    cs: "foldl (boundary_step prefix) ([0], 0) targets = ([0] @ cs, last ([0] @ cs))"
    "length cs = length targets" "sorted ([0] @ cs)" "last ([0] @ cs) < Suc n" by auto
  have "sorted (([0] @ cs) @ [n])" using cs(3,4) by (intro sorted_snoc_last) auto
  with cs show ?thesis by (simp add: boundaries_def)
qed

lemma slice_fill_nth:
  assumes "start \<le> stop" "stop \<le> length xs"
  shows "length (slice_fill start stop v xs) = length xs"
    and "k < length xs \<Longrightarrow> slice_fill start stop v xs ! k = (if start \<le> k \<and> k < stop then v else xs ! k)"
  using assms by (auto simp: slice_fill_def nth_append min_def)

lemma fill_slices_nth:
  assumes "sorted bs" "length bs = Suc (length vs)" "last bs \<le> length xs"
  shows "length (fill_slices vs bs xs) = length xs
    \<and> (\<forall>k < length xs. (k < hd bs \<or> last bs \<le> k) \<longrightarrow> fill_slices vs bs xs ! k = xs ! k)
    \<and> (\<forall>p < length vs. \<forall>k. bs ! p \<le> k \<and> k < bs ! Suc p \<longrightarrow> fill_slices vs bs xs ! k = vs ! p)"
  using assms
proof (induction vs arbitrary: bs xs)
  case Nil
  then show ?case by (simp add: fill_slices_def)
next
  case (Cons v vs)
  then obtain b c cs where bs: "bs = b # c # cs" by (metis length_Suc_conv)
  have le: "b \<le> c" "c \<le> last (c # cs)" "last (c # cs) \<le> length xs" "sorted (c # cs)"
    using Cons.prems bs by auto
  let ?xs = "slice_fill b c v xs" and ?r = "fill_slices vs (c # cs) (slice_fill b c v xs)"
  have x: "length ?xs = length xs" "\<And>k. k < length xs \<Longrightarrow> ?xs ! k = (if b \<le> k \<and> k < c then v else xs ! k)"
    using slice_fill_nth [where start = b and stop = c and xs = xs and v = v] le by auto
  have r: "length ?r = length xs" "\<And>k. k < length xs \<Longrightarrow> k < c \<or> last (c # cs) \<le> k \<Longrightarrow> ?r ! k = ?xs ! k"
    "\<And>p k. p < length vs \<Longrightarrow> (c # cs) ! p \<le> k \<Longrightarrow> k < cs ! p \<Longrightarrow> ?r ! k = vs ! p"
    using Cons.IH [of "c # cs" ?xs] Cons.prems bs le x(1) by auto
  have eq: "fill_slices (v # vs) bs xs = ?r" by (simp add: bs fill_slices_def)
  have "?r ! k = (v # vs) ! p" if "p < length (v # vs)" "bs ! p \<le> k" "k < bs ! Suc p" for p k
  proof (cases p)
    case 0
    with that bs le have "k < c" "b \<le> k" "k < length xs" by auto
    with r(2) [of k] x(2) [of k] 0 show ?thesis by simp
  next
    case (Suc q)
    with that bs show ?thesis using r(3) [of q k] by simp
  qed
  moreover have "?r ! k = xs ! k" if "k < length xs" "k < hd bs \<or> last bs \<le> k" for k
  proof -
    have "k < b \<or> last (c # cs) \<le> k" using that(2) bs by simp
    then have "k < b \<or> c \<le> k" "k < c \<or> last (c # cs) \<le> k" using le(1,2) by linarith+
    with r(2) [OF that(1)] x(2) [OF that(1)] show ?thesis by auto
  qed
  ultimately show ?case using r(1) eq by auto
qed

lemma sorted_locate:
  assumes "sorted (bs :: nat list)" "length bs = Suc m" "bs ! 0 \<le> k" "k < last bs"
  shows "\<exists>p < m. bs ! p \<le> k \<and> k < bs ! Suc p"
  using assms
proof (induction m arbitrary: bs)
  case 0
  then show ?case by (cases bs) auto
next
  case (Suc m)
  then obtain b c cs where bs: "bs = b # c # cs" by (metis length_Suc_conv)
  show ?case
  proof (cases "k < c")
    case True
    with Suc.prems bs show ?thesis by (intro exI [of _ 0]) auto
  next
    case False
    with Suc.IH [of "c # cs"] Suc.prems bs obtain p where "p < m" "(c # cs) ! p \<le> k" "k < (c # cs) ! Suc p" by auto
    with bs show ?thesis by (intro exI [of _ "Suc p"]) auto
  qed
qed

lemma owners_partition:
  assumes "owners ds world_size rotation physical_order = Inr os"
  shows "length os = length ds \<and> (\<forall>r \<in> set os. 0 \<le> r \<and> r < world_size)
    \<and> (ds \<noteq> [] \<longrightarrow> (\<exists>bs. sorted bs \<and> length bs = Suc (nat world_size) \<and> bs ! 0 = 0 \<and> last bs = length ds
         \<and> (\<forall>p < nat world_size. \<forall>k. bs ! p \<le> k \<and> k < bs ! Suc p \<longrightarrow>
              os ! (owner_order physical_order ds ! k) = (int p + rotation) mod world_size)))"
proof (cases "ds = []")
  case True
  with assms show ?thesis by (simp add: owners_def split: if_splits)
next
  case False
  define n order where "n = length ds" and "order = owner_order physical_order ds"
  define ordered where "ordered = map ((!) ds) order"
  define targets where "targets = map (\<lambda>p. fl (of_int (sum_list (map ds_length ordered) * p) / of_int world_size))
    [1..world_size - 1]"
  define bs where "bs = boundaries (prefix_sums ordered) targets n"
  define vs where "vs = map (\<lambda>p. (p + rotation) mod world_size) [0..world_size - 1]"
  define res where "res = fill_slices vs bs (replicate (length ordered) (0 :: int))"
  have w: "0 < world_size" and os: "os = scatter order res (replicate n 0)"
    using assms False
    by (auto simp: owners_def Let_def n_def order_def ordered_def targets_def bs_def vs_def res_def split: if_splits)
  have order: "is_order order n" by (simp add: order_def n_def)
  have len: "length ordered = n" using is_order_length [OF order] by (simp add: ordered_def)
  have bs: "length bs = Suc (nat world_size)" "sorted bs" "bs ! 0 = 0" "last bs = n"
    using boundaries_ok [of "prefix_sums ordered" n targets] len w by (auto simp: bs_def targets_def)
  have vs: "length vs = nat world_size" "\<And>p. p < nat world_size \<Longrightarrow> vs ! p = (int p + rotation) mod world_size"
    using w by (auto simp: vs_def)
  have res: "length res = n" "\<And>p k. p < nat world_size \<Longrightarrow> bs ! p \<le> k \<Longrightarrow> k < bs ! Suc p \<Longrightarrow> res ! k = vs ! p"
    using fill_slices_nth [of bs vs "replicate n 0"] bs vs(1) len by (auto simp: res_def)
  have at: "os ! (order ! k) = res ! k" if "k < n" for k
    using scatter_nth(2) [of order "replicate n 0" k res] order that by (simp add: os)
  have lenos: "length os = n" using scatter_nth(1) [of order "replicate n 0" res] order by (simp add: os)
  have below: "bs ! Suc p \<le> n" if "p < nat world_size" for p
  proof -
    have "bs ! Suc p \<le> bs ! nat world_size" using that bs by (intro sorted_nth_mono) auto
    also have "\<dots> = n" using bs(1,4) last_conv_nth [of bs] by (cases "bs = []") auto
    finally show ?thesis .
  qed
  have own: "os ! (order ! k) = (int p + rotation) mod world_size"
    if "p < nat world_size" "bs ! p \<le> k" "k < bs ! Suc p" for p k
    using at [of k] res(2) [OF that] vs(2) [OF that(1)] below [OF that(1)] that(3) by simp
  have "0 \<le> r \<and> r < world_size" if "r \<in> set os" for r
  proof -
    from that lenos obtain i where i: "i < n" "os ! i = r" by (auto simp: in_set_conv_nth)
    with is_order_ex [OF order] obtain k where k: "k < n" "order ! k = i" by auto
    with sorted_locate [of bs "nat world_size" k] bs obtain p where
      "p < nat world_size" "bs ! p \<le> k" "k < bs ! Suc p" by auto
    from own [OF this] i k w show ?thesis by auto
  qed
  with lenos own bs False show ?thesis unfolding n_def order_def by blast
qed

text \<open>
  C20: Ownership is total and contiguous: for a group of at least one rank the assignment returns,
  every tensor gets a rank of the group, and in the chosen order each rank owns one interval of tensors, the ranks following each other from the
  rotation on.
\<close>

theorem owners_contiguous:
  assumes "0 < world_size"
  shows "\<exists>os. owners ds world_size rotation physical_order = Inr os
    \<and> length os = length ds \<and> (\<forall>r \<in> set os. 0 \<le> r \<and> r < world_size)
    \<and> (ds \<noteq> [] \<longrightarrow> (\<exists>bs. sorted bs \<and> length bs = Suc (nat world_size) \<and> bs ! 0 = 0 \<and> last bs = length ds
         \<and> (\<forall>p < nat world_size. \<forall>k. bs ! p \<le> k \<and> k < bs ! Suc p \<longrightarrow>
              os ! (owner_order physical_order ds ! k) = (int p + rotation) mod world_size)))"
proof -
  have "\<exists>os. owners ds world_size rotation physical_order = Inr os"
    using assms by (cases "ds = []") (simp_all add: owners_def Let_def)
  then obtain os where "owners ds world_size rotation physical_order = Inr os" ..
  with owners_partition [OF this] show ?thesis by blast
qed

theorem owners_contiguous_witness:
  "owners demo_descriptors 2 1 False = Inr [1, 0] \<and> (\<exists>os. owners demo_descriptors 2 1 False = Inr os
    \<and> length os = 2 \<and> set os \<subseteq> {0..<2})"
proof -
  have "owners demo_descriptors 2 1 False = Inr [1, 0]" by code_simp
  with owners_contiguous [of 2 demo_descriptors 1 False] show ?thesis by (auto simp: demo_descriptors_def)
qed

section \<open>Batches partition the descriptors\<close>

text \<open>The ranges follow each other from \<open>a\<close> to \<open>b\<close> without gaps, none of them empty.\<close>

fun chain :: "nat \<Rightarrow> (nat \<times> nat) list \<Rightarrow> nat \<Rightarrow> bool" where
  "chain a [] b = (a = b)"
| "chain a ((s, e) # rs) b = (s = a \<and> s < e \<and> chain e rs b)"

lemma chain_append: "chain a (rs @ ss) c \<longleftrightarrow> (\<exists>b. chain a rs b \<and> chain b ss c)"
  by (induction a rs c rule: chain.induct) auto

lemma chain_le: "chain a rs b \<Longrightarrow> a \<le> b"
  by (induction a rs b rule: chain.induct) auto

lemma chain_cover: "chain a rs b \<Longrightarrow> a \<le> i \<Longrightarrow> i < b \<Longrightarrow> \<exists>(s, e) \<in> set rs. s \<le> i \<and> i < e"
proof (induction a rs b rule: chain.induct)
  case (2 a s e rs b)
  then show ?case by (cases "i < e") auto
qed simp

definition batch_ok :: "int \<Rightarrow> (string \<Rightarrow> bool) \<Rightarrow> descriptor list \<Rightarrow> nat \<times> nat \<Rightarrow> bool" where
  "batch_ok max_bytes file_names ds r =
     (case r of (s, e) \<Rightarrow>
        (file_names (ds_name (ds ! s)) \<longrightarrow> e = Suc s)
        \<and> (\<not> file_names (ds_name (ds ! s)) \<longrightarrow>
             (\<forall>i \<in> {s..<e}. \<not> file_names (ds_name (ds ! i)))
             \<and> (e = Suc s \<or> (\<Sum>i = s..<e. ds_length (ds ! i)) \<le> max_bytes)))"

definition batch_inv :: "int \<Rightarrow> (string \<Rightarrow> bool) \<Rightarrow> descriptor list \<Rightarrow> nat \<Rightarrow> batch_state \<Rightarrow> bool" where
  "batch_inv max_bytes file_names ds k s \<longleftrightarrow>
     chain 0 (bt_done s) (bt_start s) \<and> bt_start s \<le> k
     \<and> (\<forall>r \<in> set (bt_done s). batch_ok max_bytes file_names ds r)
     \<and> bt_bytes s = (\<Sum>i = bt_start s..<k. ds_length (ds ! i))
     \<and> (\<forall>i \<in> {bt_start s..<k}. \<not> file_names (ds_name (ds ! i)))
     \<and> (k \<le> Suc (bt_start s) \<or> bt_bytes s \<le> max_bytes)"

lemma batch_inv_pending:
  assumes "batch_inv max_bytes file_names ds k s" "bt_start s < k"
  shows "batch_ok max_bytes file_names ds (bt_start s, k)"
  using assms by (auto simp: batch_inv_def batch_ok_def)

lemma batch_step_inv:
  assumes "batch_inv max_bytes file_names ds k s"
  shows "batch_inv max_bytes file_names ds (Suc k) (batch_step max_bytes file_names s (k, ds ! k))"
proof -
  note inv = assms [unfolded batch_inv_def] and pending = batch_inv_pending [OF assms]
  consider "file_names (ds_name (ds ! k))"
    | "\<not> file_names (ds_name (ds ! k))" "k > bt_start s \<and> bt_bytes s + ds_length (ds ! k) > max_bytes"
    | "\<not> file_names (ds_name (ds ! k))" "\<not> (k > bt_start s \<and> bt_bytes s + ds_length (ds ! k) > max_bytes)"
    by blast
  then show ?thesis
  proof cases
    case 1
    have "batch_ok max_bytes file_names ds (k, Suc k)" using 1 by (simp add: batch_ok_def)
    with 1 inv pending show ?thesis
      by (auto simp: batch_inv_def batch_step_def chain_append)
  next
    case 2
    with inv pending show ?thesis by (auto simp: batch_inv_def batch_step_def chain_append)
  next
    case 3
    with inv show ?thesis by (auto simp: batch_inv_def batch_step_def less_Suc_eq)
  qed
qed

lemma batch_fold_inv:
  "k \<le> length ds \<Longrightarrow> batch_inv max_bytes file_names ds k
     (foldl (batch_step max_bytes file_names) \<lparr>bt_done = [], bt_start = 0, bt_bytes = 0\<rparr> (take k (enumerate 0 ds)))"
proof (induction k)
  case 0
  then show ?case by (simp add: batch_inv_def)
next
  case (Suc k)
  then have "take (Suc k) (enumerate 0 ds) = take k (enumerate 0 ds) @ [(k, ds ! k)]"
    by (simp add: take_Suc_conv_app_nth nth_enumerate_eq)
  with Suc show ?case by (simp add: batch_step_inv)
qed

lemma descriptor_batches_chain:
  assumes "descriptor_batches ds max_bytes file_names = Inr ranges"
  shows "chain 0 ranges (length ds) \<and> (\<forall>r \<in> set ranges. batch_ok max_bytes file_names ds r)"
proof -
  define s where "s = foldl (batch_step max_bytes file_names) \<lparr>bt_done = [], bt_start = 0, bt_bytes = 0\<rparr> (enumerate 0 ds)"
  have inv: "batch_inv max_bytes file_names ds (length ds) s"
    using batch_fold_inv [of "length ds" ds] by (simp add: s_def)
  have "ranges = bt_done s @ (if bt_start s < length ds then [(bt_start s, length ds)] else [])"
    using assms by (auto simp: descriptor_batches_def s_def Let_def split: if_splits)
  then show ?thesis using inv batch_inv_pending [OF inv] by (auto simp: batch_inv_def chain_append)
qed

text \<open>
  C21: With a positive staging limit the loop returns batches that follow each other without gap or overlap and never split a tensor. A tensor that is
  handed out as a file range is alone, every other batch is one tensor or stays within the
  staging limit.
\<close>

theorem descriptor_batches_bounded:
  assumes "0 < max_bytes"
  shows "\<exists>ranges. descriptor_batches ds max_bytes file_names = Inr ranges
    \<and> chain 0 ranges (length ds) \<and> (\<forall>r \<in> set ranges. batch_ok max_bytes file_names ds r)"
proof -
  obtain ranges where "descriptor_batches ds max_bytes file_names = Inr ranges"
    using assms by (auto simp: descriptor_batches_def Let_def)
  with descriptor_batches_chain [OF this] show ?thesis by blast
qed

theorem descriptor_batches_bounded_witness:
  "descriptor_batches demo_descriptors 4 (\<lambda>_. False) = Inr [(0, 1), (1, 2)]
   \<and> batch_ok 4 (\<lambda>_. False) demo_descriptors (0, 1) \<and> batch_ok 4 (\<lambda>_. False) demo_descriptors (1, 2)"
proof -
  have "descriptor_batches demo_descriptors 4 (\<lambda>_. False) = Inr [(0, 1), (1, 2)]" by code_simp
  with descriptor_batches_bounded [of 4 demo_descriptors "\<lambda>_. False"] show ?thesis by auto
qed

section \<open>Extents move exact bytes\<close>

text \<open>The pairs of file position and device address that a range of \<open>n\<close> bytes connects.\<close>

definition stretch :: "int \<Rightarrow> int \<Rightarrow> int \<Rightarrow> (int \<times> int) set" where
  "stretch off dest n = {(off + i, dest + i) | i. 0 \<le> i \<and> i < n}"

definition moved :: "hydration_extent list \<Rightarrow> (int \<times> int) set" where
  "moved es = (\<Union>e \<in> set es. stretch (he_file_offset e) (he_destination e) (he_length e))"

definition extent_valid :: "hydration_extent \<Rightarrow> bool" where
  "extent_valid e \<longleftrightarrow> 0 \<le> he_file_offset e \<and> 0 < he_destination e \<and> 0 < he_length e"

lemma stretch_add:
  assumes "0 \<le> m" "0 \<le> n"
  shows "stretch off dest (m + n) = stretch off dest m \<union> stretch (off + m) (dest + m) n"
proof -
  have "(f, a) \<in> stretch off dest (m + n) \<longleftrightarrow> (f, a) \<in> stretch off dest m \<union> stretch (off + m) (dest + m) n" for f a
  proof -
    have "(f, a) \<in> stretch o' d' n' \<longleftrightarrow> f - o' = a - d' \<and> o' \<le> f \<and> f < o' + n'" for o' d' n'
      unfolding stretch_def by (auto intro!: exI [of _ "f - o'"])
    with assms show ?thesis by auto
  qed
  then show ?thesis by auto
qed

lemma moved_simps [simp]:
  "moved [] = {}" "moved (e # es) = stretch (he_file_offset e) (he_destination e) (he_length e) \<union> moved es"
  "moved (xs @ ys) = moved xs \<union> moved ys"
  by (auto simp: moved_def)

lemma plain_extent_init [simp]:
  "0 \<le> off \<Longrightarrow> 0 < dest \<Longrightarrow> 0 < n \<Longrightarrow> hydration_extent_init (plain_extent off dest n) = Inr (plain_extent off dest n)"
  by (simp add: hydration_extent_init_def check_extent_crc32_def check_extent_sha256_def)

lemma and_minus_exp: "(x :: int) AND - (2 ^ k) = x div 2 ^ k * 2 ^ k"
proof -
  have "x AND - (2 ^ k) = push_bit k (drop_bit k x)"
    unfolding minus_exp_eq_not_mask by (auto simp: bit_eq_iff bit_simps)
  then show ?thesis by (simp add: push_bit_eq_mult drop_bit_eq_div)
qed

lemma and_exp_pred: "(2 ^ k :: int) AND (2 ^ k - 1) = 0"
proof -
  have "(2 ^ k :: int) AND mask k = take_bit k (2 ^ k)" by (simp add: take_bit_eq_mask)
  also have "\<dots> = 0" by (simp add: take_bit_eq_mod)
  finally show ?thesis by (simp add: mask_eq_exp_minus_1)
qed

definition split_ok :: "int \<Rightarrow> hydration_extent list \<Rightarrow> hydration_extent list \<times> hydration_extent list \<Rightarrow> bool" where
  "split_ok alignment es s \<longleftrightarrow>
     moved (fst s) \<union> moved (snd s) = moved es
     \<and> (\<forall>e \<in> set (fst s). extent_valid e \<and> he_file_offset e mod alignment = 0 \<and> he_length e mod alignment = 0)
     \<and> (\<forall>e \<in> set (snd s). extent_valid e \<and> he_length e < 2 * alignment)"

lemma split_step_ok:
  assumes valid: "extent_valid e" and s: "split_ok (2 ^ k) es s"
  shows "\<exists>t. split_step (2 ^ k) s e = Inr t \<and> split_ok (2 ^ k) (es @ [e]) t"
proof -
  define a :: int where "a = 2 ^ k"
  define start stop where "start = he_file_offset e" and "stop = he_file_offset e + he_length e"
  define lo hi where "lo = (start + a - 1) div a * a" and "hi = stop div a * a"
  have a: "0 < a" by (simp add: a_def)
  have v: "0 \<le> start" "0 < he_destination e" "start < stop" using valid by (auto simp: extent_valid_def start_def stop_def)
  have "lo = start + a - 1 - (start + a - 1) mod a" "hi = stop - stop mod a"
    by (simp_all add: lo_def hi_def minus_mod_eq_div_mult)
  then have lo: "start \<le> lo" "lo < start + a" and hi: "hi \<le> stop" "stop < hi + a"
    using pos_mod_bound [OF a, of "start + a - 1"] pos_mod_sign [OF a, of "start + a - 1"]
      pos_mod_bound [OF a, of stop] pos_mod_sign [OF a, of stop] by linarith+
  have blocks: "lo mod a = 0" "hi mod a = 0" by (simp_all add: lo_def hi_def)
  have m: "(start + a - 1) AND - a = lo" "stop AND - a = hi"
    by (simp_all add: lo_def hi_def a_def and_minus_exp)
  have step: "split_step a s e =
     (if lo \<ge> hi then Inr (fst s, snd s @ [e])
      else Inr (fst s @ [plain_extent lo (he_destination e + lo - start) (hi - lo)],
        snd s @ (if start < lo then [plain_extent start (he_destination e) (lo - start)] else [])
          @ (if hi < stop then [plain_extent hi (he_destination e + hi - start) (stop - hi)] else [])))"
    unfolding split_step_def Let_def stop_def [symmetric] unfolding start_def [symmetric] m
    using v lo(1) hi(1) by simp
  show ?thesis
  proof (cases "lo \<ge> hi")
    case True
    then have "he_length e < 2 * a" using lo hi by (simp add: start_def stop_def)
    with True s valid step show ?thesis by (auto simp: split_ok_def a_def)
  next
    case False
    have parts: "stretch start (he_destination e) (stop - start) =
      stretch start (he_destination e) (lo - start)
      \<union> stretch lo (he_destination e + lo - start) (hi - lo)
      \<union> stretch hi (he_destination e + hi - start) (stop - hi)"
      using stretch_add [of "lo - start" "stop - lo" start "he_destination e"]
        stretch_add [of "hi - lo" "stop - hi" lo "he_destination e + lo - start"] False lo hi
      by (simp add: algebra_simps Un_assoc)
    define front where "front = (if start < lo then [plain_extent start (he_destination e) (lo - start)] else [])"
    define inner where "inner = plain_extent lo (he_destination e + lo - start) (hi - lo)"
    define rear where "rear = (if hi < stop then [plain_extent hi (he_destination e + hi - start) (stop - hi)] else [])"
    have t: "split_step a s e = Inr (fst s @ [inner], snd s @ front @ rear)"
      using step False by (simp add: front_def inner_def rear_def)
    have "moved front = stretch start (he_destination e) (lo - start)" by (auto simp: front_def stretch_def)
    moreover have "moved rear = stretch hi (he_destination e + hi - start) (stop - hi)"
      by (auto simp: rear_def stretch_def)
    moreover have "moved [inner] = stretch lo (he_destination e + lo - start) (hi - lo)" by (simp add: inner_def)
    moreover have "moved [e] = stretch start (he_destination e) (stop - start)" by (simp add: start_def stop_def)
    ultimately have "moved [e] = moved front \<union> moved [inner] \<union> moved rear" using parts by simp
    moreover have "extent_valid inner \<and> he_file_offset inner mod a = 0 \<and> he_length inner mod a = 0"
      using v lo False blocks by (auto simp: inner_def extent_valid_def mod_eq_0_iff_dvd)
    moreover have "\<forall>x \<in> set (front @ rear). extent_valid x \<and> he_length x < 2 * a"
      using v lo hi False by (auto simp: front_def rear_def extent_valid_def)
    moreover have "moved (fst s) \<union> moved (snd s) = moved es"
      "\<forall>x \<in> set (fst s). extent_valid x \<and> he_file_offset x mod a = 0 \<and> he_length x mod a = 0"
      "\<forall>x \<in> set (snd s). extent_valid x \<and> he_length x < 2 * a"
      using s by (auto simp: split_ok_def a_def)
    ultimately have "split_ok a (es @ [e]) (fst s @ [inner], snd s @ front @ rear)"
      unfolding split_ok_def moved_simps fst_conv snd_conv by (simp add: ball_Un) blast
    with t show ?thesis by (simp add: a_def)
  qed
qed

lemma split_direct_exact:
  assumes "\<forall>e \<in> set es. extent_valid e"
  shows "\<exists>s. split_direct_extents es (2 ^ k) = Inr s \<and> split_ok (2 ^ k) es s"
proof -
  have "\<exists>s. fold_res (split_step (2 ^ k)) ([], []) es = Inr s \<and> split_ok (2 ^ k) es s"
  proof (rule fold_res_total)
    show "split_ok (2 ^ k) [] ([], [])" by (simp add: split_ok_def)
  next
    fix ys x zs s
    assume "es = ys @ x # zs" "split_ok (2 ^ k) ys s"
    with assms show "\<exists>t. split_step (2 ^ k) s x = Inr t \<and> split_ok (2 ^ k) (ys @ [x]) t"
      by (intro split_step_ok) auto
  qed
  then show ?thesis by (simp add: split_direct_extents_def and_exp_pred)
qed

definition item_valid :: "descriptor \<times> int \<Rightarrow> bool" where
  "item_valid x \<longleftrightarrow> 0 \<le> ds_file_offset (fst x) \<and> 0 < snd x \<and> 0 < ds_length (fst x)"

abbreviation item_moves :: "descriptor \<times> int \<Rightarrow> (int \<times> int) set" where
  "item_moves x \<equiv> stretch (ds_file_offset (fst x)) (snd x) (ds_length (fst x))"

lemma coalesce_step_ok:
  assumes x: "item_valid x" and es: "\<forall>e \<in> set es. extent_valid e"
  shows "\<exists>t. coalesce_step c es x = Inr t \<and> (\<forall>e \<in> set t. extent_valid e) \<and> t \<noteq> [] \<and> moved t = moved es \<union> item_moves x"
proof (cases "c \<and> es \<noteq> [] \<and> he_file_offset (last es) + he_length (last es) = ds_file_offset (fst x)
    \<and> he_destination (last es) + he_length (last es) = snd x")
  case True
  define l where "l = last es"
  have l: "extent_valid l" "es = butlast es @ [l]" using es True by (auto simp: l_def)
  define m where "m = plain_extent (he_file_offset l) (he_destination l) (he_length l + ds_length (fst x))"
  have m: "hydration_extent_init m = Inr m" "extent_valid m"
    using x l(1) by (auto simp: m_def extent_valid_def item_valid_def)
  then have step: "coalesce_step c es x = Inr (butlast es @ [m])"
    using True by (auto simp: coalesce_step_def l_def m_def split: prod.splits)
  have "moved es = moved (butlast es) \<union> moved [l]" using l(2) by (metis moved_simps(3))
  moreover have "moved [m] = moved [l] \<union> item_moves x"
    using stretch_add [of "he_length l" "ds_length (fst x)" "he_file_offset l" "he_destination l"] True l(1) x
    by (simp add: m_def l_def extent_valid_def item_valid_def)
  ultimately have "moved (butlast es @ [m]) = moved es \<union> item_moves x" by auto
  moreover have "\<forall>e \<in> set (butlast es @ [m]). extent_valid e" using es m(2) by (auto dest: in_set_butlastD)
  ultimately show ?thesis using step by auto
next
  case False
  let ?e = "plain_extent (ds_file_offset (fst x)) (snd x) (ds_length (fst x))"
  have "coalesce_step c es x = Inr (es @ [?e])"
    using False x by (auto simp: coalesce_step_def item_valid_def split: prod.splits)
  then show ?thesis using es x by (auto simp: extent_valid_def item_valid_def)
qed

lemma coalesce_fold:
  assumes "\<forall>x \<in> set xs. item_valid x"
  shows "\<exists>es. fold_res (coalesce_step c) [] xs = Inr es \<and> (\<forall>e \<in> set es. extent_valid e)
    \<and> moved es = (\<Union>x \<in> set xs. item_moves x) \<and> (es = [] \<longleftrightarrow> xs = [])"
proof (rule fold_res_total [where I = "\<lambda>ys es. (\<forall>e \<in> set es. extent_valid e)
    \<and> moved es = (\<Union>x \<in> set ys. item_moves x) \<and> (es = [] \<longleftrightarrow> ys = [])"])
  fix ys x zs es
  assume *: "xs = ys @ x # zs" "(\<forall>e \<in> set es. extent_valid e) \<and> moved es = (\<Union>x \<in> set ys. item_moves x) \<and> (es = [] \<longleftrightarrow> ys = [])"
  with assms coalesce_step_ok [of x es c] obtain t where
    "coalesce_step c es x = Inr t" "\<forall>e \<in> set t. extent_valid e" "t \<noteq> []" "moved t = moved es \<union> item_moves x" by auto
  with * show "\<exists>t. coalesce_step c es x = Inr t \<and> (\<forall>e \<in> set t. extent_valid e)
      \<and> moved t = (\<Union>x \<in> set (ys @ [x]). item_moves x) \<and> (t = [] \<longleftrightarrow> ys @ [x] = [])" by auto
qed simp

text \<open>The items of a rank: the non-empty descriptors it owns, with their addresses.\<close>

definition owned_items :: "descriptor list \<Rightarrow> int list \<Rightarrow> int list \<Rightarrow> int \<Rightarrow> (descriptor \<times> int) set" where
  "owned_items ds pointers os rank =
     {(ds ! i, pointers ! i) | i. i < length ds \<and> os ! i = rank \<and> 0 < ds_length (ds ! i)}"

lemma coalesced_extents_exact:
  assumes "length pointers = length ds" "length os = length ds"
    and "\<forall>x \<in> owned_items ds pointers os rank. item_valid x"
  shows "\<exists>es. coalesced_extents ds pointers os rank c = Inr es \<and> (\<forall>e \<in> set es. extent_valid e)
    \<and> moved es = (\<Union>x \<in> owned_items ds pointers os rank. item_moves x)
    \<and> (es = [] \<longleftrightarrow> owned_items ds pointers os rank = {})"
proof -
  define sel where "sel = map (\<lambda>(d, p, _). (d, p))
    (filter (\<lambda>(d, _, owner). owner = rank \<and> ds_length d > 0) (zip ds (zip pointers os)))"
  define xs where "xs = (if c then sort_key (\<lambda>(d, _). ds_file_offset d) sel else sel)"
  have z: "set (zip ds (zip pointers os)) = (\<lambda>i. (ds ! i, pointers ! i, os ! i)) ` {0..<length ds}"
    using assms(1,2) by (auto simp: set_zip)
  have "set sel = (\<lambda>(d, p, _). (d, p)) ` {t \<in> set (zip ds (zip pointers os)). case t of (d, _, owner) \<Rightarrow> owner = rank \<and> ds_length d > 0}"
    by (simp add: sel_def)
  also have "\<dots> = owned_items ds pointers os rank"
    unfolding z owned_items_def by (auto simp: image_iff) fastforce
  finally have set: "set xs = owned_items ds pointers os rank" by (simp add: xs_def)
  have "coalesced_extents ds pointers os rank c = fold_res (coalesce_step c) [] xs"
    using assms(1,2) by (simp add: coalesced_extents_def Let_def xs_def sel_def)
  moreover from set assms(3) have "\<forall>x \<in> set xs. item_valid x" by simp
  ultimately show ?thesis using coalesce_fold [of xs c] unfolding set [symmetric] set_empty by simp
qed

text \<open>
  C7: What a rank reads is exactly what it owns: the ranges read directly and those read through
  the page cache together connect every byte of every owned tensor with its place in the slab and
  nothing else, the direct ranges are aligned, and what is left for the page cache is shorter than
  two blocks.
\<close>

theorem read_plan_exact:
  assumes "length pointers = length ds" "length os = length ds"
    and "\<forall>x \<in> owned_items ds pointers os rank. item_valid x"
  shows "\<exists>es direct buffered. coalesced_extents ds pointers os rank True = Inr es
    \<and> split_direct_extents es 4096 = Inr (direct, buffered)
    \<and> moved direct \<union> moved buffered = (\<Union>x \<in> owned_items ds pointers os rank. item_moves x)
    \<and> direct_compatible direct \<and> (\<forall>e \<in> set buffered. he_length e < 8192)"
proof -
  from coalesced_extents_exact [OF assms, of True] obtain es where
    es: "coalesced_extents ds pointers os rank True = Inr es" "\<forall>e \<in> set es. extent_valid e"
    "moved es = (\<Union>x \<in> owned_items ds pointers os rank. item_moves x)" by blast
  from split_direct_exact [OF es(2), of 12] obtain direct buffered where
    "split_direct_extents es 4096 = Inr (direct, buffered)" "split_ok 4096 es (direct, buffered)" by auto
  with es show ?thesis
    by (auto simp: split_ok_def direct_compatible_def DIRECT_ALIGNMENT_def list_all_iff)
qed

theorem read_plan_exact_witness:
  "\<exists>es direct buffered. coalesced_extents demo_descriptors [1000, 2000] [0, 1] 1 True = Inr es
    \<and> split_direct_extents es 4096 = Inr (direct, buffered)
    \<and> moved direct \<union> moved buffered = stretch 115 2000 3 \<and> direct = []"
proof -
  have own: "owned_items demo_descriptors [1000, 2000] [0, 1] 1 = {(demo_descriptors ! 1, 2000)}"
    by (auto simp: owned_items_def demo_descriptors_def less_Suc_eq intro!: exI [of _ "Suc 0"])
  have "case coalesced_extents demo_descriptors [1000, 2000] [0, 1] 1 True of Inl _ \<Rightarrow> False
    | Inr es \<Rightarrow> (case split_direct_extents es 4096 of Inl _ \<Rightarrow> False | Inr (direct, _) \<Rightarrow> direct = [])" by code_simp
  moreover have b: "length demo_descriptors = 2" "ds_file_offset (demo_descriptors ! 1) = 115" "ds_length (demo_descriptors ! 1) = 3"
    by (simp_all add: demo_descriptors_def)
  moreover obtain es direct buffered where "coalesced_extents demo_descriptors [1000, 2000] [0, 1] 1 True = Inr es"
    "split_direct_extents es 4096 = Inr (direct, buffered)" "moved direct \<union> moved buffered = stretch 115 2000 3"
    using read_plan_exact [of "[1000, 2000]" demo_descriptors "[0, 1]" 1] b unfolding own item_valid_def by auto
  ultimately show ?thesis by auto
qed

section \<open>Views of the slab\<close>

lemma view_fold:
  assumes "distinct order" "\<forall>i \<in> set order. i < length vs"
  shows "length (snd (foldl (view_step ds) (off, vs) order)) = length vs
    \<and> (\<forall>i. i \<notin> set order \<longrightarrow> snd (foldl (view_step ds) (off, vs) order) ! i = vs ! i)
    \<and> (\<forall>k < length order. snd (foldl (view_step ds) (off, vs) order) ! (order ! k) =
         off + sum_list (map (\<lambda>i. ds_length (ds ! i)) (take k order)))"
  using assms
proof (induction order arbitrary: off vs)
  case (Cons i order)
  let ?r = "snd (foldl (view_step ds) (off + ds_length (ds ! i), vs[i := off]) order)"
  have r: "length ?r = length vs" "\<And>j. j \<notin> set order \<Longrightarrow> ?r ! j = vs[i := off] ! j"
    "\<And>k. k < length order \<Longrightarrow> ?r ! (order ! k) = off + ds_length (ds ! i) +
       sum_list (map (\<lambda>i. ds_length (ds ! i)) (take k order))"
    using Cons.IH [of "vs[i := off]" "off + ds_length (ds ! i)"] Cons.prems by auto
  have step: "view_step ds (off, vs) i = (off + ds_length (ds ! i), vs[i := off])" by (simp add: view_step_def)
  have "?r ! ((i # order) ! k) = off + sum_list (map (\<lambda>i. ds_length (ds ! i)) (take k (i # order)))"
    if "k < length (i # order)" for k
    using r(2) [of i] r(3) [of "k - 1"] Cons.prems that by (cases k) auto
  with r show ?case using Cons.prems step by auto
qed simp

lemma sum_list_order:
  assumes "is_order order n" "n = length xs"
  shows "sum_list (map (\<lambda>i. f (xs ! i)) order) = (sum_list (map f xs) :: int)"
proof -
  have "mset order = mset [0..<n]" using assms(1) mset_set_set [of order] by (simp add: is_order_def)
  then have "sum_list (map (\<lambda>i. f (xs ! i)) order) = sum_list (map (\<lambda>i. f (xs ! i)) [0..<n])"
    unfolding sum_mset_sum_list [symmetric] mset_map by simp
  also have "map (\<lambda>i. f (xs ! i)) [0..<n] = map f xs" by (rule nth_equalityI) (simp_all add: assms(2))
  finally show ?thesis .
qed

text \<open>What the transport needs of the views: they lie inside the slab and do not overlap.\<close>

definition views_ok :: "descriptor list \<Rightarrow> int list \<Rightarrow> bool" where
  "views_ok ds views \<longleftrightarrow> length views = length ds
     \<and> (\<forall>i < length ds. 0 \<le> views ! i \<and> views ! i + ds_length (ds ! i) \<le> sum_list (map ds_length ds))
     \<and> (\<forall>i < length ds. \<forall>j < length ds. i \<noteq> j \<longrightarrow>
          views ! i + ds_length (ds ! i) \<le> views ! j \<or> views ! j + ds_length (ds ! j) \<le> views ! i)"

lemma storage_views_ok:
  assumes "storage_views numel ds physical_order = Inr views" and pos: "\<forall>d \<in> set ds. 0 \<le> ds_length d"
  shows "views_ok ds views"
proof -
  define order where "order = owner_order physical_order ds"
  define S where "S k = sum_list (map (\<lambda>i. ds_length (ds ! i)) (take k order))" for k
  have order: "is_order order (length ds)" by (simp add: order_def)
  have len: "length order = length ds" using is_order_length [OF order] .
  have views: "length views = length ds" "\<And>k. k < length ds \<Longrightarrow> views ! (order ! k) = S k"
    using view_fold [of order "replicate (length ds) 0" ds 0] assms(1) order len
    by (auto simp: storage_views_def order_def S_def is_order_def split: if_splits)
  have step: "S (Suc k) = S k + ds_length (ds ! (order ! k))" if "k < length ds" for k
    using that len by (simp add: S_def take_Suc_conv_app_nth)
  have mono: "S k \<le> S l" if "k \<le> l" "l \<le> length ds" for k l
    using that
  proof (induction l)
    case (Suc l)
    have "0 \<le> ds_length (ds ! (order ! l))" using Suc.prems pos is_order_nth [OF order] by simp
    with Suc step [of l] show ?case by (cases "k = Suc l") auto
  qed simp
  have total: "S (length ds) = sum_list (map ds_length ds)"
    using sum_list_order [OF order refl] len by (simp add: S_def)
  have zero: "S 0 = 0" by (simp add: S_def)
  have pick: "\<exists>k < length ds. order ! k = i \<and> views ! i = S k \<and> views ! i + ds_length (ds ! i) = S (Suc k)"
    if "i < length ds" for i
    using is_order_ex [OF order that] views(2) step by auto
  have "0 \<le> views ! i \<and> views ! i + ds_length (ds ! i) \<le> sum_list (map ds_length ds)" if "i < length ds" for i
  proof -
    from pick [OF that] obtain k where "k < length ds" "views ! i = S k" "views ! i + ds_length (ds ! i) = S (Suc k)"
      by blast
    with mono [of 0 k] mono [of "Suc k" "length ds"] zero total show ?thesis by simp
  qed
  moreover have "views ! i + ds_length (ds ! i) \<le> views ! j \<or> views ! j + ds_length (ds ! j) \<le> views ! i"
    if "i < length ds" "j < length ds" "i \<noteq> j" for i j
  proof -
    from pick [OF that(1)] obtain k where k: "k < length ds" "order ! k = i" "views ! i = S k"
      "views ! i + ds_length (ds ! i) = S (Suc k)" by blast
    from pick [OF that(2)] obtain l where l: "l < length ds" "order ! l = j" "views ! j = S l"
      "views ! j + ds_length (ds ! j) = S (Suc l)" by blast
    from k l that(3) have "Suc k \<le> l \<or> Suc l \<le> k" by (metis Suc_leI linorder_neqE_nat)
    then show ?thesis using mono [of "Suc k" l] mono [of "Suc l" k] k l by auto
  qed
  ultimately show ?thesis using views(1) by (simp add: views_ok_def)
qed

end
