(* ===== verification/Cold_Delivery.thy ===== *)
theory Cold_Delivery
  imports Cold_Recovery
begin

text \<open>
  The recovery transport delivers: when the iterator of \<^verbatim>\<open>coldsnap_recovery_loader.py\<close> hands out a
  tensor, every rank of the group holds exactly the bytes of the checkpoint file, whoever read
  them. What the native reader, safetensors and the collectives of torch promise are named
  hypotheses over the fields of the transport.
\<close>

section \<open>Memory after a transfer\<close>

text \<open>\<open>delivered file dev M\<close>: the bytes named by the moves \<open>M\<close> have arrived on a device and nothing else changed.\<close>

definition delivered :: "byte list \<Rightarrow> int \<Rightarrow> (int \<times> int) set \<Rightarrow> device_memory \<Rightarrow> device_memory \<Rightarrow> bool" where
  "delivered file dev M mem mem' \<longleftrightarrow>
     (\<forall>(f, a) \<in> M. mem' dev a = file ! nat f) \<and> (\<forall>d a. d \<noteq> dev \<or> a \<notin> snd ` M \<longrightarrow> mem' d a = mem d a)"

definition confined :: "int \<Rightarrow> (int \<times> int) set \<Rightarrow> device_memory \<Rightarrow> device_memory \<Rightarrow> bool" where
  "confined dev M mem mem' \<longleftrightarrow> (\<forall>d a. d \<noteq> dev \<or> a \<notin> snd ` M \<longrightarrow> mem' d a = mem d a)"

text \<open>No address receives two bytes.\<close>

definition separate :: "(int \<times> int) set \<Rightarrow> bool" where
  "separate M \<longleftrightarrow> (\<forall>f g a. (f, a) \<in> M \<longrightarrow> (g, a) \<in> M \<longrightarrow> f = g)"

lemma separate_subset: "separate N \<Longrightarrow> M \<subseteq> N \<Longrightarrow> separate M"
  unfolding separate_def by blast

lemma delivered_empty [simp]: "delivered file dev {} mem mem' \<longleftrightarrow> mem' = mem"
  by (auto simp: delivered_def fun_eq_iff)

lemma delivered_confined: "delivered file dev M mem mem' \<Longrightarrow> confined dev M mem mem'"
  by (simp add: delivered_def confined_def)

lemma confined_refl [simp]: "confined dev M mem mem"
  by (simp add: confined_def)

lemma confined_mono: "confined dev M mem mem' \<Longrightarrow> M \<subseteq> N \<Longrightarrow> confined dev N mem mem'"
  unfolding confined_def by blast

lemma confined_trans: "confined dev M mem mem' \<Longrightarrow> confined dev M mem' mem'' \<Longrightarrow> confined dev M mem mem''"
  by (simp add: confined_def)

lemma delivered_after_confined:
  "confined dev M mem mem' \<Longrightarrow> delivered file dev M mem' mem'' \<Longrightarrow> delivered file dev M mem mem''"
  by (simp add: confined_def delivered_def)

lemma delivered_Un:
  assumes "separate (M \<union> N)" "delivered file dev M mem mem'" "delivered file dev N mem' mem''"
  shows "delivered file dev (M \<union> N) mem mem''"
proof -
  have "mem'' dev a = file ! nat f" if "(f, a) \<in> M" for f a
  proof (cases "a \<in> snd ` N")
    case True
    then obtain g where "(g, a) \<in> N" by force
    with that assms(1,3) show ?thesis unfolding separate_def delivered_def by fastforce
  next
    case False
    with that assms(2,3) show ?thesis unfolding delivered_def by fastforce
  qed
  with assms(2,3) show ?thesis unfolding delivered_def by (fastforce simp: image_Un)
qed

lemma mem_stretch: "(f, a) \<in> stretch off dest n \<longleftrightarrow> f - off = a - dest \<and> dest \<le> a \<and> a < dest + n"
  unfolding stretch_def by (auto intro!: exI [of _ "a - dest"])

lemma snd_stretch [simp]: "a \<in> snd ` stretch off dest n \<longleftrightarrow> dest \<le> a \<and> a < dest + n"
proof
  assume "dest \<le> a \<and> a < dest + n"
  then have "(off + (a - dest), a) \<in> stretch off dest n" by (simp add: mem_stretch)
  then show "a \<in> snd ` stretch off dest n" by force
qed (auto simp: mem_stretch)

lemma write_mem_delivered:
  assumes "0 \<le> off" "0 \<le> n" "off + n \<le> int (length file)"
  shows "delivered file dev (stretch off dest n) mem (write_mem mem dev dest (read_at file (nat off) (nat n)))"
proof -
  have len: "length (read_at file (nat off) (nat n)) = nat n" using assms by (simp add: read_at_def)
  have "read_at file (nat off) (nat n) ! nat (a - dest) = file ! nat f"
    if "f - off = a - dest" "dest \<le> a" "a < dest + n" for f a
  proof -
    have "nat off + nat (a - dest) = nat f" using that assms(1) by linarith
    then show ?thesis using that assms by (simp add: read_at_def)
  qed
  then show ?thesis
    using assms(2) len by (auto simp: delivered_def write_mem_def mem_stretch)
qed

section \<open>What the transport relies on\<close>

text \<open>
  A successful call of the native reader delivers its extents when their destinations do not
  overlap; a failed one touches nothing but the destinations.
\<close>

definition in_file :: "byte list \<Rightarrow> hydration_extent \<Rightarrow> bool" where
  "in_file file e \<longleftrightarrow> extent_valid e \<and> he_file_offset e + he_length e \<le> int (length file)"

definition native_delivers :: "transport \<Rightarrow> native_library \<Rightarrow> string \<Rightarrow> byte list \<Rightarrow> bool" where
  "native_delivers T lib path file \<longleftrightarrow>
     (\<forall>es backend dev mem. (\<forall>e \<in> set es. in_file file e) \<and> separate (moved es) \<longrightarrow>
        (case hydrate lib path es (hydrate_args T backend dev) of
           Inr _ \<Rightarrow> delivered file dev (moved es) mem (tp_transfer T path es backend dev mem)
         | Inl _ \<Rightarrow> confined dev (moved es) mem (tp_transfer T path es backend dev mem)))"

text \<open>Safetensors returns the bytes of the tensor it is asked for.\<close>

definition torch_delivers :: "transport \<Rightarrow> string \<Rightarrow> byte list \<Rightarrow> descriptor list \<Rightarrow> bool" where
  "torch_delivers T path file ds \<longleftrightarrow>
     (\<forall>d \<in> set ds. \<forall>bs. tp_get_tensor T path (ds_name d) = Inr bs \<longrightarrow>
        bs = read_at file (nat (ds_file_offset d)) (nat (ds_length d)))"

text \<open>
  A broadcast from the rank with global number \<open>g ! k\<close> copies its range to the range of every
  rank of the group; an all-reduce adds.
\<close>

definition broadcasts :: "transport \<Rightarrow> int list \<Rightarrow> bool" where
  "broadcasts T g \<longleftrightarrow>
     (\<forall>k < length g. \<forall>starts n mem. length starts = length g \<longrightarrow>
        tp_broadcast T (g ! k) (map (\<lambda>p. (p, n)) starts) mem =
          (\<lambda>d a. if 0 \<le> d \<and> d < int (length g) \<and> starts ! nat d \<le> a \<and> a < starts ! nat d + int n
                 then mem (int k) (starts ! k + (a - starts ! nat d)) else mem d a))"

definition collectives_ok :: "transport \<Rightarrow> bool" where
  "collectives_ok T \<longleftrightarrow>
     (case tp_group T of None \<Rightarrow> True
      | Some g \<Rightarrow> g \<noteq> [] \<and> broadcasts T g \<and> (\<forall>xs. tp_all_reduce T xs = sum_list xs))"

definition delivers :: "transport \<Rightarrow> string \<Rightarrow> byte list \<Rightarrow> descriptor list \<Rightarrow> bool" where
  "delivers T path file ds \<longleftrightarrow> collectives_ok T
     \<and> (case tp_library T of Some lib \<Rightarrow> native_delivers T lib path file | None \<Rightarrow> torch_delivers T path file ds)"

section \<open>One rank\<close>

lemma hydrate_buffered_delivers:
  assumes native: "native_delivers T lib path file" and es: "\<forall>e \<in> set buffered. in_file file e" "separate (moved buffered)"
    and run: "hydrate_buffered T lib path dev direct buffered mem = (mem', r)"
  shows "confined dev (moved buffered) mem mem' \<and> (\<forall>x. r = Inr x \<longrightarrow> delivered file dev (moved buffered) mem mem')"
proof (cases "buffered = []")
  case True
  with run show ?thesis by (auto simp: hydrate_buffered_def Let_def)
next
  case False
  with run have mem': "mem' = tp_transfer T path buffered ''buffered'' dev mem"
    and r: "r = Inr x \<Longrightarrow> \<exists>m. hydrate lib path buffered (hydrate_args T ''buffered'' dev) = Inr m" for x
    by (auto simp: hydrate_buffered_def Let_def)
  from native es have "case hydrate lib path buffered (hydrate_args T ''buffered'' dev) of
      Inr _ \<Rightarrow> delivered file dev (moved buffered) mem mem' | Inl _ \<Rightarrow> confined dev (moved buffered) mem mem'"
    unfolding native_delivers_def mem' by blast
  with r show ?thesis by (cases "hydrate lib path buffered (hydrate_args T ''buffered'' dev)")
      (auto dest: delivered_confined)
qed
lemma in_file_subset:
  assumes "\<forall>e \<in> set es. in_file file e" "moved xs \<subseteq> moved es" "\<forall>e \<in> set xs. extent_valid e"
  shows "\<forall>e \<in> set xs. in_file file e"
proof
  fix x assume x: "x \<in> set xs"
  with assms(3) have v: "extent_valid x" by blast
  define f a where "f = he_file_offset x + he_length x - 1" and "a = he_destination x + he_length x - 1"
  have "(f, a) \<in> moved xs" using x v unfolding moved_def by (force simp: mem_stretch f_def a_def extent_valid_def)
  with assms(2) obtain e where "e \<in> set es" "(f, a) \<in> stretch (he_file_offset e) (he_destination e) (he_length e)"
    by (auto simp: moved_def)
  with assms(1) v show "in_file file x" by (force simp: in_file_def mem_stretch f_def)
qed

lemma native_hydrate_delivers:
  assumes native: "native_delivers T lib path file"
    and es: "\<forall>e \<in> set es. in_file file e" "separate (moved es)"
    and run: "native_hydrate_owned T lib path es dev (mem, obs) = ((mem', obs'), r)"
  shows "confined dev (moved es) mem mem' \<and> (\<forall>x. r = Inr x \<longrightarrow> delivered file dev (moved es) mem mem')"
proof -
  note buffered = hydrate_buffered_delivers [OF native]
  consider (early) "mem' = mem" "\<exists>e. r = Inl e"
    | (plain) "hydrate_buffered T lib path dev [] es mem = (mem', r)"
    | (split) direct rest where "split_direct_extents es 4096 = Inr (direct, rest)"
        "if direct = [] then hydrate_buffered T lib path dev [] rest mem = (mem', r)
         else case hydrate lib path direct (hydrate_args T ''direct'' dev) of
           Inr _ \<Rightarrow> hydrate_buffered T lib path dev direct rest (tp_transfer T path direct ''direct'' dev mem) = (mem', r)
         | Inl e \<Rightarrow> hydrate_buffered T lib path dev [] es (tp_transfer T path direct ''direct'' dev mem) = (mem', r)
             \<or> mem' = tp_transfer T path direct ''direct'' dev mem \<and> r = Inl e"
    using run unfolding native_hydrate_owned_def
    by (auto simp: Let_def split: prod.splits sum.splits if_splits)
  then show ?thesis
  proof cases
    case early
    then show ?thesis by auto
  next
    case plain
    then show ?thesis using buffered [OF es] by blast
  next
    case split
    have "\<forall>e \<in> set es. extent_valid e" using es(1) by (auto simp: in_file_def)
    from split_direct_exact [OF this, of 12] split(1) have ok: "split_ok 4096 es (direct, rest)" by simp
    then have U: "moved direct \<union> moved rest = moved es" by (simp add: split_ok_def)
    have d: "\<forall>e \<in> set direct. in_file file e" "separate (moved direct)"
      and b: "\<forall>e \<in> set rest. in_file file e" "separate (moved rest)"
    proof -
      have v: "\<forall>e \<in> set direct. extent_valid e" "\<forall>e \<in> set rest. extent_valid e" using ok by (auto simp: split_ok_def)
      have sub: "moved direct \<subseteq> moved es" "moved rest \<subseteq> moved es" using U by auto
      show "\<forall>e \<in> set direct. in_file file e" "\<forall>e \<in> set rest. in_file file e"
        by (rule in_file_subset [OF es(1) sub(1) v(1)], rule in_file_subset [OF es(1) sub(2) v(2)])
      show "separate (moved direct)" "separate (moved rest)"
        using es(2) sub by (auto intro: separate_subset)
    qed
    define mem1 where "mem1 = tp_transfer T path direct ''direct'' dev mem"
    have direct: "case hydrate lib path direct (hydrate_args T ''direct'' dev) of
        Inr _ \<Rightarrow> delivered file dev (moved direct) mem mem1 | Inl _ \<Rightarrow> confined dev (moved direct) mem mem1"
      using native d unfolding native_delivers_def mem1_def by blast
    show ?thesis
    proof (cases "direct = []")
      case True
      then show ?thesis using split(2) buffered [OF b] U by auto
    next
      case False
      show ?thesis
      proof (cases "hydrate lib path direct (hydrate_args T ''direct'' dev)")
        case (Inr m)
        then have run1: "hydrate_buffered T lib path dev direct rest mem1 = (mem', r)"
          and del: "delivered file dev (moved direct) mem mem1" using split(2) False direct by (auto simp: mem1_def)
        have "confined dev (moved es) mem mem1" "confined dev (moved es) mem1 mem'"
          using delivered_confined [OF del] buffered [OF b run1] U by (auto intro: confined_mono)
        moreover have "delivered file dev (moved es) mem mem'" if "r = Inr x" for x
          using delivered_Un [of "moved direct" "moved rest"] del buffered [OF b run1] that U es(2) by auto
        ultimately show ?thesis by (auto intro: confined_trans)
      next
        case (Inl e)
        then have conf: "confined dev (moved es) mem mem1" using direct U by (auto intro: confined_mono)
        from split(2) False Inl consider "hydrate_buffered T lib path dev [] es mem1 = (mem', r)" | "mem' = mem1" "r = Inl e"
          by (auto simp: mem1_def)
        then show ?thesis
          using buffered [OF es] conf by cases (auto intro: confined_trans delivered_after_confined)
      qed
    qed
  qed
qed

definition desc_ok :: "byte list \<Rightarrow> descriptor \<Rightarrow> bool" where
  "desc_ok file d \<longleftrightarrow> 0 \<le> ds_file_offset d \<and> 0 \<le> ds_length d \<and> ds_file_offset d + ds_length d \<le> int (length file)"

definition rank_moves :: "descriptor list \<Rightarrow> int list \<Rightarrow> int list \<Rightarrow> int \<Rightarrow> (int \<times> int) set" where
  "rank_moves ds pointers os rank = (\<Union>x \<in> owned_items ds pointers os rank. item_moves x)"

lemma torch_step_Inl: "foldl (torch_load_step T path dev) (mem, Inl e) xs = (mem, Inl e)"
  by (induction xs) (auto simp: torch_load_step_def split: prod.splits)

lemma torch_step_Inr:
  "torch_load_step T path dev (mem, Inr ()) (name, p, n) =
     (case tp_get_tensor T path name of
        Inl e \<Rightarrow> (mem, Inl e)
      | Inr bs \<Rightarrow> if int (length bs) \<noteq> n then (mem, Inl (RuntimeErr ''shape mismatch in copy_''))
                  else (write_mem mem dev p bs, Inr ()))"
  by (simp add: torch_load_step_def)

lemma torch_fold_delivers:
  assumes "foldl (torch_load_step T path dev) (mem, Inr ()) (map (\<lambda>(d, p). (ds_name d, p, ds_length d)) xs) = (mem', r)"
    and "\<forall>x \<in> set xs. desc_ok file (fst x)" "torch_delivers T path file (map fst xs)"
    and "separate (\<Union>x \<in> set xs. item_moves x)"
  shows "confined dev (\<Union>x \<in> set xs. item_moves x) mem mem'
    \<and> (r = Inr () \<longrightarrow> delivered file dev (\<Union>x \<in> set xs. item_moves x) mem mem')"
  using assms
proof (induction xs arbitrary: mem)
  case (Cons x xs)
  obtain d p where x: "x = (d, p)" by fastforce
  let ?N = "\<Union>x \<in> set xs. item_moves x" and ?M = "\<Union>x \<in> set (x # xs). item_moves x"
  have sep: "separate ?N" "torch_delivers T path file (map fst xs)" "\<forall>x \<in> set xs. desc_ok file (fst x)"
    using Cons.prems(2-4) by (auto simp: torch_delivers_def intro: separate_subset)
  from Cons.prems(1) consider
      (stop) "mem' = mem" "r \<noteq> Inr ()"
    | (go) bs where "tp_get_tensor T path (ds_name d) = Inr bs"
        "foldl (torch_load_step T path dev) (write_mem mem dev p bs, Inr ()) (map (\<lambda>(d, p). (ds_name d, p, ds_length d)) xs) = (mem', r)"
    by (auto simp: x torch_step_Inr torch_step_Inl split: sum.splits if_splits)
  then show ?case
  proof cases
    case stop
    then show ?thesis by auto
  next
    case go
    have ok: "desc_ok file d" using Cons.prems(2) x by simp
    have "bs = read_at file (nat (ds_file_offset d)) (nat (ds_length d))"
      using Cons.prems(3) go(1) x by (simp add: torch_delivers_def)
    with ok have del: "delivered file dev (item_moves x) mem (write_mem mem dev p bs)"
      by (simp add: x desc_ok_def write_mem_delivered)
    note IH = Cons.IH [OF go(2) sep(3,2,1)]
    have M: "?M = item_moves x \<union> ?N" by simp
    have "confined dev ?M mem (write_mem mem dev p bs)" "confined dev ?M (write_mem mem dev p bs) mem'"
      using delivered_confined [OF del] IH by (auto elim: confined_mono)
    then have "confined dev ?M mem mem'" by (rule confined_trans)
    moreover have "delivered file dev ?M mem mem'" if "r = Inr ()"
      unfolding M using delivered_Un [OF _ del] IH that Cons.prems(4) by simp
    ultimately show ?thesis by blast
  qed
qed simp

lemma load_owned_delivers:
  assumes del: "delivers T path file ds"
    and len: "length pointers = length ds" "length os = length ds"
    and ds: "\<forall>d \<in> set ds. desc_ok file d" "distinct (map ds_name ds)"
    and pos: "\<forall>i < length ds. 0 < pointers ! i"
    and sep: "separate (rank_moves ds pointers os rank)"
    and run: "load_owned T path ds pointers os rank (mem, obs) = ((mem', obs'), r)"
  shows "confined rank (rank_moves ds pointers os rank) mem mem'
    \<and> (r = Inr () \<longrightarrow> delivered file rank (rank_moves ds pointers os rank) mem mem')"
proof -
  let ?M = "rank_moves ds pointers os rank"
  have items: "\<forall>x \<in> owned_items ds pointers os rank. item_valid x \<and> desc_ok file (fst x)"
    using ds(1) pos by (auto simp: owned_items_def item_valid_def desc_ok_def)
  from coalesced_extents_exact [OF len, of rank True] items obtain es where
    es: "coalesced_extents ds pointers os rank True = Inr es" "\<forall>e \<in> set es. extent_valid e" "moved es = ?M"
    by (auto simp: rank_moves_def)
  have in_file: "\<forall>e \<in> set es. in_file file e"
  proof
    fix e assume e: "e \<in> set es"
    with es(2) have v: "extent_valid e" by blast
    define f a where "f = he_file_offset e + he_length e - 1" and "a = he_destination e + he_length e - 1"
    have "(f, a) \<in> moved es" using e v unfolding moved_def by (force simp: mem_stretch f_def a_def extent_valid_def)
    then obtain x where "x \<in> owned_items ds pointers os rank" "(f, a) \<in> item_moves x"
      unfolding es(3) rank_moves_def by blast
    with items have "f < int (length file)" by (force simp: mem_stretch desc_ok_def)
    with v show "in_file file e" by (simp add: in_file_def f_def)
  qed
  show ?thesis
  proof (cases "list_ex (\<lambda>(d, owner). owner = rank \<and> ds_length d > 0) (zip ds os)")
    case False
    then have "owned_items ds pointers os rank = {}"
      using len by (auto simp: owned_items_def list_ex_iff set_zip)
    with False run es(1) show ?thesis by (simp add: load_owned_def rank_moves_def)
  next
    case True
    show ?thesis
    proof (cases "tp_library T")
      case (Some lib)
      with True run es(1) obtain q where q: "native_hydrate_owned T lib path es rank (mem, obs) = ((mem', obs'), q)"
        "r = bind_res q (\<lambda>_. Inr ())"
        by (auto simp: load_owned_def split: prod.splits)
      have "native_delivers T lib path file" using del Some by (simp add: delivers_def)
      from native_hydrate_delivers [OF this in_file _ q(1)] es(3) sep q(2) show ?thesis by auto
    next
      case None
      let ?own = "filter (\<lambda>(_, _, owner). owner = rank) (zip ds (zip pointers os))"
      define xs where "xs = map (\<lambda>(d, p, _). (d, p)) ?own"
      have z: "set (zip ds (zip pointers os)) = (\<lambda>i. (ds ! i, pointers ! i, os ! i)) ` {0..<length ds}"
        using len by (auto simp: set_zip)
      have "set xs = (\<lambda>(d, p, _). (d, p)) ` {t \<in> set (zip ds (zip pointers os)). case t of (_, _, owner) \<Rightarrow> owner = rank}"
        by (simp add: xs_def)
      also have "\<dots> = {(ds ! i, pointers ! i) | i. i < length ds \<and> os ! i = rank}"
        unfolding z by (auto simp: image_iff) fastforce
      finally have set: "set xs = {(ds ! i, pointers ! i) | i. i < length ds \<and> os ! i = rank}" .
      have "item_moves x = {}" if "\<not> 0 < ds_length (fst x)" for x using that by (auto simp: stretch_def)
      then have "(\<Union>x \<in> set xs. item_moves x) = (\<Union>x \<in> {x \<in> set xs. 0 < ds_length (fst x)}. item_moves x)" by blast
      also have "{x \<in> set xs. 0 < ds_length (fst x)} = owned_items ds pointers os rank"
        unfolding set owned_items_def by auto
      finally have M: "(\<Union>x \<in> set xs. item_moves x) = ?M" by (simp add: rank_moves_def)
      have "map (ds_name \<circ> fst) (zip ds (zip pointers os)) = map ds_name ds" using len by (simp add: map_fst_zip flip: map_map)
      then have "distinct (map (ds_name \<circ> fst) ?own)" using ds(2) by (metis distinct_map_filter)
      then have "dict_ok (map (\<lambda>(d, p, _). (ds_name d, p, ds_length d)) ?own)"
        by (simp add: dict_ok_def dict_keys_def o_def case_prod_beta)
      then have "dict_of (map (\<lambda>(d, p, _). (ds_name d, p, ds_length d)) ?own) = map (\<lambda>(d, p). (ds_name d, p, ds_length d)) xs"
        by (simp add: dict_of_distinct xs_def o_def case_prod_beta)
      with None True run es(1) have
        "foldl (torch_load_step T path rank) (mem, Inr ()) (map (\<lambda>(d, p). (ds_name d, p, ds_length d)) xs) = (mem', r)"
        by (auto simp: load_owned_def torch_load_owned_def split: prod.splits)
      from torch_fold_delivers [OF this] show ?thesis unfolding M
      proof this
        show "\<forall>x \<in> set xs. desc_ok file (fst x)" using set ds(1) by auto
        show "torch_delivers T path file (map fst xs)"
          using del None set by (auto simp: delivers_def torch_delivers_def)
        show "separate ?M" by (rule sep)
      qed
    qed
  qed
qed

section \<open>All ranks read\<close>

abbreviation slab_moves :: "descriptor list \<Rightarrow> int list \<Rightarrow> int list \<Rightarrow> int \<Rightarrow> int \<Rightarrow> (int \<times> int) set" where
  "slab_moves ds views os base rank \<equiv> rank_moves ds (map ((+) base) views) os rank"

lemma mem_slab_moves:
  assumes "length views = length ds"
  shows "(f, a) \<in> slab_moves ds views os base rank \<longleftrightarrow>
    (\<exists>i < length ds. os ! i = rank \<and> base + views ! i \<le> a \<and> a < base + views ! i + ds_length (ds ! i)
       \<and> f = ds_file_offset (ds ! i) + (a - base - views ! i))"
  using assms by (auto simp: rank_moves_def owned_items_def mem_stretch) fastforce+

lemma views_unique:
  assumes "views_ok ds views" "i < length ds" "j < length ds"
    "views ! i \<le> x" "x < views ! i + ds_length (ds ! i)" "views ! j \<le> x" "x < views ! j + ds_length (ds ! j)"
  shows "i = j"
  using assms unfolding views_ok_def by (meson leD le_less_trans less_le_trans)

lemma slab_moves_separate:
  assumes "views_ok ds views"
  shows "separate (slab_moves ds views os base rank)"
proof -
  have len: "length views = length ds" using assms by (simp add: views_ok_def)
  show ?thesis
    unfolding separate_def mem_slab_moves [OF len]
  proof (intro allI impI, elim exE conjE)
    fix f g a i j
    assume "i < length ds" "base + views ! i \<le> a" "a < base + views ! i + ds_length (ds ! i)"
      and "j < length ds" "base + views ! j \<le> a" "a < base + views ! j + ds_length (ds ! j)"
      and *: "f = ds_file_offset (ds ! i) + (a - base - views ! i)" "g = ds_file_offset (ds ! j) + (a - base - views ! j)"
    then have "i = j" using views_unique [OF assms, of i j "a - base"] by simp
    with * show "f = g" by simp
  qed
qed

lemma rank_fold_delivers:
  assumes del: "delivers T path file ds" and views: "views_ok ds views" "length os = length ds"
    and ds: "\<forall>d \<in> set ds. desc_ok file d" "distinct (map ds_name ds)"
    and run: "foldl (rank_step T path ds views os) (mem, ps, rs) xs = (mem', ps', rs')"
    and pos: "\<forall>x \<in> set xs. 0 < fst (snd x)" and dist: "distinct (map fst xs)"
  shows "length ps' = length ps + length xs \<and> (\<exists>qs. rs' = rs @ qs \<and> length qs = length xs
    \<and> (\<forall>d. d \<notin> fst ` set xs \<longrightarrow> mem' d = mem d)
    \<and> (set qs \<subseteq> {Inr ()} \<longrightarrow> (\<forall>x \<in> set xs. \<forall>(f, a) \<in> slab_moves ds views os (fst (snd x)) (fst x).
         mem' (fst x) a = file ! nat f)))"
  using run pos dist
proof (induction xs arbitrary: mem ps rs)
  case (Cons x xs)
  obtain rank base policy where x: "x = (rank, base, policy)" by (metis prod_cases3)
  obtain mem1 policy1 r where one:
    "load_owned T path ds (map ((+) base) views) os rank (mem, policy) = ((mem1, policy1), r)"
    by (metis prod.exhaust)
  let ?M = "slab_moves ds views os base rank"
  have "0 < (map ((+) base) views) ! i" if "i < length ds" for i
    using Cons.prems(2) views(1) that by (simp add: x views_ok_def add_pos_nonneg)
  with views ds del have step: "confined rank ?M mem mem1 \<and> (r = Inr () \<longrightarrow> delivered file rank ?M mem mem1)"
    by (intro load_owned_delivers [OF _ _ _ _ _ _ _ one]) (auto simp: views_ok_def slab_moves_separate [OF views(1)])
  have "rank_step T path ds views os (mem, ps, rs) x = (mem1, ps @ [policy1], rs @ [r])"
    by (simp add: x rank_step_def one)
  then have "foldl (rank_step T path ds views os) (mem1, ps @ [policy1], rs @ [r]) xs = (mem', ps', rs')"
    using Cons.prems(1) by simp
  from Cons.IH [OF this] Cons.prems obtain qs where qs: "length ps' = length ps + 1 + length xs"
    "rs' = (rs @ [r]) @ qs" "length qs = length xs" "\<And>d. d \<notin> fst ` set xs \<Longrightarrow> mem' d = mem1 d"
    "set qs \<subseteq> {Inr ()} \<Longrightarrow> \<forall>x \<in> set xs. \<forall>(f, a) \<in> slab_moves ds views os (fst (snd x)) (fst x). mem' (fst x) a = file ! nat f"
    by auto
  have rank: "mem' rank = mem1 rank" using qs(4) Cons.prems(3) by (auto simp: x)
  have other: "mem' d = mem d" if "d \<notin> fst ` set (x # xs)" for d
    using that qs(4) [of d] step by (auto simp: x confined_def fun_eq_iff)
  have "\<forall>(f, a) \<in> ?M. mem' rank a = file ! nat f" if "set (r # qs) \<subseteq> {Inr ()}"
    using step that rank by (auto simp: delivered_def)
  then have all: "\<forall>y \<in> set (x # xs). \<forall>(f, a) \<in> slab_moves ds views os (fst (snd y)) (fst y). mem' (fst y) a = file ! nat f"
    if "set (r # qs) \<subseteq> {Inr ()}" using qs(5) that by (simp add: x)
  have "length ps' = length ps + length (x # xs)" "rs' = rs @ (r # qs)" "length (r # qs) = length (x # xs)"
    using qs(1-3) by simp_all
  with other all show ?case by blast
qed auto

section \<open>Broadcasts cover the slab\<close>

definition row_bytes :: "int \<times> int \<times> int \<Rightarrow> (int \<times> int) set" where
  "row_bytes r = (case r of (p, n, owner) \<Rightarrow> {owner} \<times> {p..<p + n})"

definition call_bytes :: "int \<times> int \<times> int \<Rightarrow> (int \<times> int) set" where
  "call_bytes c = (case c of (owner, a, b) \<Rightarrow> {owner} \<times> {a..<b})"

lemma region_step_bytes:
  assumes "region_step base limit regions row = Inr regions'" "\<forall>r \<in> set (row # regions). 0 \<le> fst (snd r)"
  shows "(\<Union>r \<in> set regions'. row_bytes r) = (\<Union>r \<in> set regions. row_bytes r) \<union> row_bytes row
    \<and> (\<forall>r \<in> set regions'. 0 \<le> fst (snd r))"
proof -
  obtain p n owner where row: "row = (p, n, owner)" by (metis prod_cases3)
  from assms(1) consider
    (new) "regions' = regions @ [row]"
    | (merge) q m where "regions \<noteq> []" "last regions = (q, m, owner)" "q + m = p"
        "regions' = butlast regions @ [(q, m + n, owner)]"
    by (cases "last regions") (auto simp: region_step_def row split: if_splits)
  then show ?thesis
  proof cases
    case new
    then show ?thesis using assms(2) by auto
  next
    case merge
    have regs: "regions = butlast regions @ [(q, m, owner)]" using merge(1,2) by (metis append_butlast_last_id)
    have "(q, m, owner) \<in> set regions" using merge(1,2) by (metis last_in_set)
    then have nn: "0 \<le> m" "0 \<le> n" using assms(2) by (auto simp: row)
    then have "row_bytes (q, m + n, owner) = row_bytes (q, m, owner) \<union> row_bytes row"
      using merge(3) by (auto simp: row_bytes_def row)
    moreover have "(\<Union>r \<in> set regions. row_bytes r) = (\<Union>r \<in> set (butlast regions). row_bytes r) \<union> row_bytes (q, m, owner)"
      by (subst regs) auto
    ultimately show ?thesis using merge(4) assms(2) nn by (auto dest: in_set_butlastD)
  qed
qed

lemma region_fold_bytes:
  assumes "fold_res (region_step base limit) [] rows = Inr regions" "\<forall>r \<in> set rows. 0 \<le> fst (snd r)"
  shows "(\<Union>r \<in> set regions. row_bytes r) = (\<Union>r \<in> set rows. row_bytes r)"
proof -
  have "(\<Union>r \<in> set regions. row_bytes r) = (\<Union>r \<in> set rows. row_bytes r) \<and> (\<forall>r \<in> set regions. 0 \<le> fst (snd r))"
  proof (rule fold_res_prefix_invariant [OF assms(1), where I = "\<lambda>ys t.
      (\<Union>r \<in> set t. row_bytes r) = (\<Union>r \<in> set ys. row_bytes r) \<and> (\<forall>r \<in> set t. 0 \<le> fst (snd r))"])
    fix ys x s t
    assume *: "(\<Union>r \<in> set s. row_bytes r) = (\<Union>r \<in> set ys. row_bytes r) \<and> (\<forall>r \<in> set s. 0 \<le> fst (snd r))"
      "x \<in> set rows" "region_step base limit s x = Inr t"
    then have "\<forall>r \<in> set (x # s). 0 \<le> fst (snd r)" using assms(2) by simp
    from region_step_bytes [OF *(3) this] *(1)
    have "(\<Union>r \<in> set t. row_bytes r) = (\<Union>r \<in> set ys. row_bytes r) \<union> row_bytes x \<and> (\<forall>r \<in> set t. 0 \<le> fst (snd r))"
      by metis
    then show "(\<Union>r \<in> set t. row_bytes r) = (\<Union>r \<in> set (ys @ [x]). row_bytes r) \<and> (\<forall>r \<in> set t. 0 \<le> fst (snd r))"
      by (simp add: Un_commute)
  qed simp
  then show ?thesis by blast
qed

lemma chunk_ranges_cover:
  assumes "0 < m"
  shows "(\<Union>(a, b) \<in> set (chunk_ranges m x y). {a..<b}) = {x..<y}
    \<and> (\<forall>(a, b) \<in> set (chunk_ranges m x y). a < b \<and> b - a \<le> m)"
  using assms
proof (induction m x y rule: chunk_ranges.induct)
  case (1 m x y)
  show ?case
  proof (cases "x < y")
    case True
    define c where "c = min (x + m) y"
    have c: "x < c" "c \<le> y" "c - x \<le> m" using True 1(2) by (auto simp: c_def)
    have unf: "chunk_ranges m x y = (x, c) # chunk_ranges m c y"
      using True 1(2) by (subst chunk_ranges.simps) (simp add: c_def Let_def)
    from 1(1) [of c] True 1(2) have "(\<Union>(a, b) \<in> set (chunk_ranges m c y). {a..<b}) = {c..<y}
        \<and> (\<forall>(a, b) \<in> set (chunk_ranges m c y). a < b \<and> b - a \<le> m)" by (simp add: c_def)
    moreover have "{x..<c} \<union> {c..<y} = {x..<y}" using c by auto
    ultimately show ?thesis using c unfolding unf by simp
  next
    case False
    then have "chunk_ranges m x y = []" by (subst chunk_ranges.simps) simp
    with False show ?thesis by simp
  qed
qed

definition slab_rows :: "int \<Rightarrow> descriptor list \<Rightarrow> int list \<Rightarrow> int list \<Rightarrow> (int \<times> int \<times> int) list" where
  "slab_rows base ds views os = sort (map (\<lambda>((p, n), owner). (p, n, owner))
     (filter (\<lambda>((_, n), _). n > 0) (zip (zip (map ((+) base) views) (map ds_length ds)) os)))"

lemma set_slab_rows:
  assumes "length views = length ds" "length os = length ds"
  shows "r \<in> set (slab_rows base ds views os) \<longleftrightarrow>
    (\<exists>i < length ds. r = (base + views ! i, ds_length (ds ! i), os ! i) \<and> 0 < ds_length (ds ! i))"
proof -
  have z: "zip (zip (map ((+) base) views) (map ds_length ds)) os =
      map (\<lambda>i. ((base + views ! i, ds_length (ds ! i)), os ! i)) [0..<length ds]"
    by (rule nth_equalityI) (simp_all add: assms)
  show ?thesis unfolding slab_rows_def set_sort z by (fastforce simp: image_iff)
qed

lemma broadcast_calls_cover:
  assumes calls: "broadcast_slab_regions base numel (zip (map ((+) base) views) (map ds_length ds)) os m = Inr calls"
    and len: "length views = length (ds :: descriptor list)" "length os = length ds"
  shows "(\<exists>c \<in> set calls. (owner, x) \<in> call_bytes c) \<longleftrightarrow>
    (\<exists>i < length ds. os ! i = owner \<and> views ! i \<le> x \<and> x < views ! i + ds_length (ds ! i))"
    and "\<forall>(owner, a, b) \<in> set calls. a < b \<and> b - a \<le> m"
proof -
  have m: "0 < m" using calls by (auto simp: broadcast_slab_regions_def split: if_splits)
  from calls obtain regions where
    regions: "fold_res (region_step base (base + numel)) [] (slab_rows base ds views os) = Inr regions" and
    eq: "calls = concat (map (\<lambda>(pointer, n, owner). map (\<lambda>(a, b). (owner, a, b))
           (chunk_ranges m (pointer - base) (pointer - base + n))) regions)"
    by (auto simp: broadcast_slab_regions_def slab_rows_def split: if_splits)
  have "\<forall>r \<in> set (slab_rows base ds views os). 0 \<le> fst (snd r)" using set_slab_rows [OF len] by auto
  note bytes = region_fold_bytes [OF regions this]
  have cover: "(\<exists>c \<in> set (chunk_ranges m s t). fst c \<le> x \<and> x < snd c) \<longleftrightarrow> s \<le> x \<and> x < t" for s t
  proof -
    have "x \<in> (\<Union>(a, b) \<in> set (chunk_ranges m s t). {a..<b}) \<longleftrightarrow> x \<in> {s..<t}"
      using chunk_ranges_cover [OF m, of s t] by blast
    then show ?thesis by (simp add: case_prod_beta)
  qed
  have "(\<exists>c \<in> set calls. (owner, x) \<in> call_bytes c) \<longleftrightarrow>
      (\<exists>r \<in> set regions. snd (snd r) = owner \<and>
         (\<exists>c \<in> set (chunk_ranges m (fst r - base) (fst r - base + fst (snd r))). fst c \<le> x \<and> x < snd c))"
    by (auto simp: eq call_bytes_def case_prod_beta)
  also have "\<dots> \<longleftrightarrow> (owner, base + x) \<in> (\<Union>r \<in> set regions. row_bytes r)"
    unfolding cover by (auto simp: row_bytes_def case_prod_beta intro!: bexI)
  also have "\<dots> \<longleftrightarrow> (\<exists>r \<in> set (slab_rows base ds views os). (owner, base + x) \<in> row_bytes r)"
    unfolding bytes by blast
  also have "\<dots> \<longleftrightarrow> (\<exists>i < length ds. os ! i = owner \<and> views ! i \<le> x \<and> x < views ! i + ds_length (ds ! i))"
  proof -
    have "(\<exists>r \<in> set (slab_rows base ds views os). (owner, base + x) \<in> row_bytes r) \<longleftrightarrow>
      (\<exists>i < length ds. 0 < ds_length (ds ! i) \<and> (owner, base + x) \<in> row_bytes (base + views ! i, ds_length (ds ! i), os ! i))"
      unfolding Bex_def set_slab_rows [OF len] by blast
    also have "\<dots> \<longleftrightarrow> (\<exists>i < length ds. os ! i = owner \<and> views ! i \<le> x \<and> x < views ! i + ds_length (ds ! i))"
      by (rule arg_cong [where f = Ex], rule ext) (auto simp: row_bytes_def)
    finally show ?thesis .
  qed
  finally show "(\<exists>c \<in> set calls. (owner, x) \<in> call_bytes c) \<longleftrightarrow>
    (\<exists>i < length ds. os ! i = owner \<and> views ! i \<le> x \<and> x < views ! i + ds_length (ds ! i))" .
  show "\<forall>(owner, a, b) \<in> set calls. a < b \<and> b - a \<le> m"
  proof -
    have "a < b \<and> b - a \<le> m" if "(a, b) \<in> set (chunk_ranges m s t)" for a b s t
      using chunk_ranges_cover [OF m, of s t] that by blast
    then show ?thesis by (auto simp: eq)
  qed
qed

lemma broadcast_call_at:
  assumes "broadcasts T g" "length bases = length g" "0 \<le> owner" "owner < int (length g)" "a < b" "r < length g"
  shows "broadcast_call T g bases mem (owner, a, b) (int r) (bases ! r + x) =
    (if a \<le> x \<and> x < b then mem owner (bases ! nat owner + x) else mem (int r) (bases ! r + x))"
proof -
  let ?starts = "map (\<lambda>base. base + a) bases"
  have "broadcast_call T g bases mem (owner, a, b) = tp_broadcast T (g ! nat owner) (map (\<lambda>p. (p, nat (b - a))) ?starts) mem"
    by (simp add: broadcast_call_def o_def)
  also have "\<dots> = (\<lambda>d a'. if 0 \<le> d \<and> d < int (length g) \<and> ?starts ! nat d \<le> a' \<and> a' < ?starts ! nat d + int (nat (b - a))
      then mem (int (nat owner)) (?starts ! nat owner + (a' - ?starts ! nat d)) else mem d a')"
    using assms(1) [unfolded broadcasts_def, rule_format, of "nat owner" ?starts "nat (b - a)" mem] assms(2,3,4) by simp
  finally show ?thesis using assms(2-) by auto
qed

abbreviation in_view :: "descriptor list \<Rightarrow> int list \<Rightarrow> nat \<Rightarrow> int \<Rightarrow> bool" where
  "in_view ds views i x \<equiv> i < length ds \<and> views ! i \<le> x \<and> x < views ! i + ds_length (ds ! i)"

definition right_at :: "byte list \<Rightarrow> descriptor list \<Rightarrow> int list \<Rightarrow> int list \<Rightarrow> device_memory \<Rightarrow> nat \<Rightarrow> int \<Rightarrow> bool" where
  "right_at file ds views bases mem r x \<longleftrightarrow>
     (\<forall>i. in_view ds views i x \<longrightarrow> mem (int r) (bases ! r + x) = file ! nat (ds_file_offset (ds ! i) + (x - views ! i)))"

lemma broadcast_fold_right:
  assumes T: "broadcasts T g" "length bases = length g" and views: "views_ok ds views"
    and os: "\<forall>i < length ds. 0 \<le> os ! i \<and> os ! i < int (length g)"
    and calls: "\<forall>(owner, a, b) \<in> set calls. a < b \<and>
      (\<forall>x. a \<le> x \<and> x < b \<longrightarrow> (\<exists>i. in_view ds views i x \<and> os ! i = owner))"
    and mem: "\<forall>i x. in_view ds views i x \<longrightarrow> right_at file ds views bases mem (nat (os ! i)) x"
      "\<forall>x \<in> D. \<forall>r < length g. right_at file ds views bases mem r x"
  shows "\<forall>x \<in> D \<union> snd ` (\<Union>c \<in> set calls. call_bytes c). \<forall>r < length g.
    right_at file ds views bases (foldl (broadcast_call T g bases) mem calls) r x"
  using calls mem
proof (induction calls arbitrary: mem D)
  case (Cons c calls)
  obtain owner a b where c: "c = (owner, a, b)" by (metis prod_cases3)
  have ab: "a < b" and owned: "\<And>x. a \<le> x \<Longrightarrow> x < b \<Longrightarrow> \<exists>i. in_view ds views i x \<and> os ! i = owner"
    using Cons.prems(1) by (auto simp: c)
  from owned [of a] ab os have owner: "0 \<le> owner" "owner < int (length g)" by auto
  let ?mem = "broadcast_call T g bases mem c"
  have at: "?mem (int r) (bases ! r + x) =
      (if a \<le> x \<and> x < b then mem owner (bases ! nat owner + x) else mem (int r) (bases ! r + x))"
    if "r < length g" for r x
    unfolding c by (rule broadcast_call_at [OF T owner ab that])
  have fresh: "right_at file ds views bases ?mem r x" if "r < length g" "a \<le> x" "x < b" for r x
  proof -
    from owned [OF that(2,3)] obtain i where i: "in_view ds views i x" "os ! i = owner" by blast
    with Cons.prems(2) have "right_at file ds views bases mem (nat owner) x" by auto
    then show ?thesis using at [OF that(1), of x] that(2,3) owner by (simp add: right_at_def)
  qed
  have keep: "right_at file ds views bases ?mem r x" if "right_at file ds views bases mem r x" "r < length g" for r x
    using fresh [of r x] at [OF that(2), of x] that by (cases "a \<le> x \<and> x < b") (auto simp: right_at_def)
  have "\<forall>i x. in_view ds views i x \<longrightarrow> right_at file ds views bases ?mem (nat (os ! i)) x"
    using Cons.prems(2) os by (auto intro!: keep simp: nat_less_iff)
  moreover have "\<forall>x \<in> D \<union> {a..<b}. \<forall>r < length g. right_at file ds views bases ?mem r x"
    using Cons.prems(3) keep fresh by auto
  moreover have "\<forall>(owner, a, b) \<in> set calls. a < b \<and>
      (\<forall>x. a \<le> x \<and> x < b \<longrightarrow> (\<exists>i. in_view ds views i x \<and> os ! i = owner))" using Cons.prems(1) by simp
  ultimately have "\<forall>x \<in> (D \<union> {a..<b}) \<union> snd ` (\<Union>c \<in> set calls. call_bytes c). \<forall>r < length g.
      right_at file ds views bases (foldl (broadcast_call T g bases) ?mem calls) r x"
    by (intro Cons.IH)
  moreover have "snd ` (\<Union>c \<in> set (c # calls). call_bytes c) = {a..<b} \<union> snd ` (\<Union>c \<in> set calls. call_bytes c)"
    by (auto simp: c call_bytes_def image_Un)
  ultimately show ?case by (simp add: Un_assoc)
qed simp

section \<open>One batch\<close>

lemma right_atI:
  assumes "views_ok ds views" "in_view ds views i x"
    and "mem (int r) (bases ! r + x) = file ! nat (ds_file_offset (ds ! i) + (x - views ! i))"
  shows "right_at file ds views bases mem r x"
  unfolding right_at_def
proof (intro allI impI)
  fix j assume "in_view ds views j x"
  with assms(2) views_unique [OF assms(1), of i j x] have "j = i" by auto
  with assms(3) show "mem (int r) (bases ! r + x) = file ! nat (ds_file_offset (ds ! j) + (x - views ! j))" by simp
qed

lemma load_error_None [simp]: "load_error r = None \<longleftrightarrow> r = Inr ()"
  by (cases r) (auto simp: load_error_def)

lemma sum_list_flags: "sum_list (map (\<lambda>e. if e \<noteq> None then 1 else 0) es) = (0 :: int) \<longleftrightarrow> set es \<subseteq> {None}"
proof (induction es)
  case (Cons e es)
  have "0 \<le> sum_list (map (\<lambda>e. if e \<noteq> None then 1 else (0 :: int)) es)" by (rule sum_list_nonneg) auto
  with Cons show ?case by (cases e) auto
qed simp

lemma error_fence_Inr:
  assumes "collectives_ok T" "error_fence T message errors = Inr ()"
  shows "set errors \<subseteq> {None}"
proof (cases "tp_group T")
  case None
  with assms(2) show ?thesis by (auto simp: error_fence_def Let_def split: if_splits)
next
  case (Some g)
  then have "sum_list (map (\<lambda>e. if e \<noteq> None then 1 else 0) errors) = (0 :: int)"
    using assms by (auto simp: error_fence_def Let_def collectives_ok_def split: if_splits)
  then show ?thesis unfolding sum_list_flags .
qed

lemma read_batch_right:
  assumes del: "delivers T path file ds" and views: "views_ok ds views" "length os = length ds"
    and ds: "\<forall>d \<in> set ds. desc_ok file d" "distinct (map ds_name ds)"
    and os: "\<forall>i < length ds. 0 \<le> os ! i \<and> os ! i < int (world T)"
    and shape: "length bases = world T" "\<forall>b \<in> set bases. 0 < b" "length (gs_policies s) = world T"
    and run: "read_batch T path ds os views bases s = (s1, Inr ())"
  shows "length (gs_policies s1) = world T
    \<and> (\<forall>i x. in_view ds views i x \<longrightarrow> right_at file ds views bases (gs_memory s1) (nat (os ! i)) x)"
proof -
  let ?xs = "zip [0..int (world T) - 1] (zip bases (gs_policies s))"
  obtain mem ps rs where fold: "foldl (rank_step T path ds views os) (gs_memory s, [], []) ?xs = (mem, ps, rs)"
    by (metis prod_cases3)
  have lx: "length ?xs = world T" using shape by simp
  have nth: "?xs ! r = (int r, bases ! r, gs_policies s ! r)" if "r < world T" for r
    using that shape by simp
  have "\<forall>x \<in> set ?xs. 0 < fst (snd x)" using shape(2) by (auto elim!: in_set_zipE)
  moreover have "distinct (map fst ?xs)" using shape by simp
  ultimately have "length ps = world T" "length rs = world T"
    and right: "set rs \<subseteq> {Inr ()} \<longrightarrow> (\<forall>x \<in> set ?xs. \<forall>(f, a) \<in> slab_moves ds views os (fst (snd x)) (fst x).
         mem (fst x) a = file ! nat f)"
    using rank_fold_delivers [OF del views ds fold] lx by auto
  have s1: "s1 = s\<lparr>gs_memory := mem, gs_policies := ps\<rparr>" and
    fence: "error_fence T ''a peer failed while reading recovery safetensors'' (map load_error rs) = Inr ()"
    using run fold by (auto simp: read_batch_def)
  have ok: "set rs \<subseteq> {Inr ()}"
    using error_fence_Inr [OF _ fence] del by (auto simp: delivers_def)
  have "right_at file ds views bases mem (nat (os ! i)) x" if "in_view ds views i x" for i x
  proof (rule right_atI [OF views(1) that])
    let ?r = "nat (os ! i)"
    have r: "?r < world T" "int ?r = os ! i" using os that by auto
    have "(ds_file_offset (ds ! i) + (x - views ! i), bases ! ?r + x) \<in> slab_moves ds views os (bases ! ?r) (int ?r)"
      using that views(1) r by (subst mem_slab_moves) (auto simp: views_ok_def intro!: exI [of _ i])
    moreover have "(int ?r, bases ! ?r, gs_policies s ! ?r) \<in> set ?xs" using nth [OF r(1)] r(1) lx by (metis nth_mem)
    ultimately show "mem (int ?r) (bases ! ?r + x) = file ! nat (ds_file_offset (ds ! i) + (x - views ! i))"
      using right ok by fastforce
  qed
  with s1 \<open>length ps = world T\<close> show ?thesis by simp
qed

lemma share_batch_right:
  assumes ok: "collectives_ok T" and views: "views_ok ds views" "length os = length ds"
    and os: "\<forall>i < length ds. 0 \<le> os ! i \<and> os ! i < int (world T)"
    and shape: "length bases = world T"
    and mem: "\<forall>i x. in_view ds views i x \<longrightarrow> right_at file ds views bases (gs_memory s1) (nat (os ! i)) x"
    and run: "share_batch T ds os views bases s1 = Inr s2"
  shows "gs_policies s2 = gs_policies s1
    \<and> (\<forall>r < world T. \<forall>i x. in_view ds views i x \<longrightarrow> right_at file ds views bases (gs_memory s2) r x)"
proof (cases "tp_group T")
  case None
  then have "s2 = s1" "world T = 1" using run by (auto simp: share_batch_def world_def)
  moreover from this os have "\<forall>i < length ds. os ! i = 0" by force
  ultimately show ?thesis using mem by simp
next
  case (Some g)
  then have w: "world T = length g" and b: "broadcasts T g" using ok by (auto simp: world_def collectives_ok_def)
  have len: "length views = length ds" using views(1) by (simp add: views_ok_def)
  from run Some obtain calls where
    calls: "broadcast_slab_regions (hd bases) (sum_list (map ds_length ds)) (zip (map ((+) (hd bases)) views) (map ds_length ds))
      os (tp_collective_bytes T) = Inr calls" and
    s2: "s2 = s1\<lparr>gs_memory := foldl (broadcast_call T g bases) (gs_memory s1) calls\<rparr>"
    by (auto simp: share_batch_def lift_group_def split: sum.splits)
  note cover = broadcast_calls_cover [OF calls len views(2)]
  have "a < b \<and> (\<forall>x. a \<le> x \<and> x < b \<longrightarrow> (\<exists>i. in_view ds views i x \<and> os ! i = owner))"
    if c: "(owner, a, b) \<in> set calls" for owner a b
  proof (intro conjI allI impI)
    show "a < b" using cover(2) c by auto
    fix x assume "a \<le> x \<and> x < b"
    with c have "\<exists>c \<in> set calls. (owner, x) \<in> call_bytes c" by (force simp: call_bytes_def)
    then show "\<exists>i. in_view ds views i x \<and> os ! i = owner" using cover(1) [of owner x] by blast
  qed
  then have "\<forall>(owner, a, b) \<in> set calls. a < b \<and>
      (\<forall>x. a \<le> x \<and> x < b \<longrightarrow> (\<exists>i. in_view ds views i x \<and> os ! i = owner))" by blast
  from broadcast_fold_right [OF b _ views(1) _ this mem, of "{}"] os shape w
  have right: "\<forall>x \<in> snd ` (\<Union>c \<in> set calls. call_bytes c). \<forall>r < length g. right_at file ds views bases (gs_memory s2) r x"
    by (simp add: s2)
  have "right_at file ds views bases (gs_memory s2) r x" if "r < world T" "in_view ds views i x" for r i x
  proof -
    have "\<exists>c \<in> set calls. (os ! i, x) \<in> call_bytes c" using cover(1) [of "os ! i" x] that(2) by blast
    then have "x \<in> snd ` (\<Union>c \<in> set calls. call_bytes c)" by force
    with right that(1) w show ?thesis by auto
  qed
  then show ?thesis by (simp add: s2)
qed

definition content :: "byte list \<Rightarrow> descriptor \<Rightarrow> byte list" where
  "content file d = read_at file (nat (ds_file_offset d)) (nat (ds_length d))"

definition slabs_ok :: "transport \<Rightarrow> (nat \<Rightarrow> int list) \<Rightarrow> bool" where
  "slabs_ok T slabs \<longleftrightarrow> (\<forall>k. length (slabs k) = world T \<and> (\<forall>b \<in> set (slabs k). 0 < b))"

lemma read_mem_right:
  assumes "desc_ok file (ds ! i)" "i < length ds"
    and "\<forall>x. in_view ds views i x \<longrightarrow> right_at file ds views bases mem r x"
  shows "read_mem mem (int r) (bases ! r + views ! i) (nat (ds_length (ds ! i))) = content file (ds ! i)"
proof (rule nth_equalityI)
  show len: "length (read_mem mem (int r) (bases ! r + views ! i) (nat (ds_length (ds ! i)))) = length (content file (ds ! i))"
    using assms(1) by (auto simp: content_def read_at_def desc_ok_def min_def)
  fix k assume "k < length (read_mem mem (int r) (bases ! r + views ! i) (nat (ds_length (ds ! i))))"
  then have k: "int k < ds_length (ds ! i)" by simp
  then have "in_view ds views i (views ! i + int k)" using assms(2) by simp
  with assms(3) have at: "mem (int r) (bases ! r + (views ! i + int k)) = file ! nat (ds_file_offset (ds ! i) + int k)"
    unfolding right_at_def by fastforce
  show "read_mem mem (int r) (bases ! r + views ! i) (nat (ds_length (ds ! i))) ! k = content file (ds ! i) ! k"
  proof -
    have "k < nat (ds_length (ds ! i))" "nat (ds_file_offset (ds ! i)) \<le> length file"
      "nat (ds_file_offset (ds ! i) + int k) = nat (ds_file_offset (ds ! i)) + k"
      using k assms(1) by (auto simp: desc_ok_def)
    with at show ?thesis by (simp add: read_mem_def content_def read_at_def add.assoc)
  qed
qed

lemma bind_group_Inr: "bind_group r f = Inr y \<longleftrightarrow> (\<exists>x. r = Inr x \<and> f x = Inr y)"
  by (cases r) (auto simp: bind_group_def)

lemma lift_group_Inr: "lift_group T r = Inr x \<longleftrightarrow> r = Inr x"
  by (cases r) (auto simp: lift_group_def)

text \<open>A failure is fenced when no rank goes on alone: every rank of the group raises.\<close>

definition fenced :: "transport \<Rightarrow> exn option list \<Rightarrow> bool" where
  "fenced T es \<longleftrightarrow> length es = world T \<and> None \<notin> set es"

lemma lift_group_fenced: "lift_group T r = Inl es \<Longrightarrow> fenced T es"
  by (cases r) (auto simp: lift_group_def fenced_def)

lemma bind_group_Inl: "bind_group r f = Inl es \<longleftrightarrow> r = Inl es \<or> (\<exists>x. r = Inr x \<and> f x = Inl es)"
  by (cases r) (auto simp: bind_group_def)

lemma rank_fold_length:
  "foldl (rank_step T path ds views os) (mem, ps, rs) xs = (mem', ps', rs') \<Longrightarrow> length rs' = length rs + length xs"
proof (induction xs arbitrary: mem ps rs)
  case (Cons x xs)
  obtain m1 p1 r1 where step: "rank_step T path ds views os (mem, ps, rs) x = (m1, p1, r1)" by (metis prod_cases3)
  then have "length r1 = Suc (length rs)" by (auto simp: rank_step_def split: prod.splits)
  with Cons.IH [of m1 p1 r1] Cons.prems step show ?case by simp
qed simp

lemma error_fence_fenced: "error_fence T message errors = Inl es \<Longrightarrow> length errors = world T \<Longrightarrow> fenced T es"
  by (auto simp: error_fence_def Let_def fenced_def split: if_splits)

lemma read_batch_fenced:
  assumes "length bases = world T" "length (gs_policies s) = world T" "read_batch T path ds os views bases s = (s1, Inl es)"
  shows "fenced T es"
proof -
  obtain mem ps rs where fold: "foldl (rank_step T path ds views os) (gs_memory s, [], [])
      (zip [0..int (world T) - 1] (zip bases (gs_policies s))) = (mem, ps, rs)" by (metis prod_cases3)
  have "length rs = world T" using rank_fold_length [OF fold] assms(1,2) by simp
  with assms(3) fold show ?thesis by (auto simp: read_batch_def intro: error_fence_fenced)
qed

lemma share_batch_fenced: "share_batch T ds os views bases s = Inl es \<Longrightarrow> fenced T es"
  by (auto simp: share_batch_def lift_group_fenced split: option.splits)

lemma read_mem_part:
  "a + n \<le> m \<Longrightarrow> read_mem mem dev (p + int a) n = take n (drop a (read_mem mem dev p m))"
  by (rule nth_equalityI) (auto simp: read_mem_def add.assoc)

lemma read_at_part: "a + n \<le> m \<Longrightarrow> read_at file (k + a) n = take n (drop a (read_at file k m))"
  by (simp add: read_at_def drop_take min_def add.commute)

lemma samples_match:
  assumes "0 < sample" "0 \<le> ds_length d" "0 \<le> ds_file_offset d" "(a, n) \<in> set (sample_segments sample d)"
    and "read_mem mem dev p (nat (ds_length d)) = content file d"
  shows "read_mem mem dev (p + a) (nat n) = read_at file (nat (ds_file_offset d + a)) (nat n)"
proof -
  from assms(1,2,4) have a: "0 \<le> a" "0 \<le> n" "a + n \<le> ds_length d"
    by (auto simp: sample_segments_def Let_def split: if_splits)
  then have "nat a + nat n \<le> nat (ds_length d)" by linarith
  moreover have "nat (ds_file_offset d + a) = nat (ds_file_offset d) + nat a" using a assms(3) by simp
  ultimately show ?thesis
    using read_mem_part [of "nat a" "nat n" "nat (ds_length d)" mem dev p] a assms(5)
      read_at_part [of "nat a" "nat n" "nat (ds_length d)" "file" "nat (ds_file_offset d)"]
    by (simp add: content_def)
qed

lemma verify_samples_pass:
  assumes "length views = length ds" "\<forall>d \<in> set ds. desc_ok file d"
    and "\<forall>i < length ds. read_mem mem dev (base + views ! i) (nat (ds_length (ds ! i))) = content file (ds ! i)"
  shows "\<not> isl (verify_tensor_samples file ds (map ((+) base) views) sample dev mem)"
proof (cases "sample \<le> 0")
  case False
  define segments where "segments = concat (map (\<lambda>(d, p). map (\<lambda>(a, n). (ds_file_offset d + a, p + a, nat n))
      (sample_segments sample d)) (zip ds (map ((+) base) views)))"
  have "read_mem mem dev p n = read_at file (nat off) n" if "(off, p, n) \<in> set segments" for off p n
  proof -
    from that obtain i a k where i: "i < length ds" "(a, k) \<in> set (sample_segments sample (ds ! i))"
      "off = ds_file_offset (ds ! i) + a" "p = base + views ! i + a" "n = nat k"
      using assms(1) by (auto simp: segments_def set_zip)
    with samples_match [OF _ _ _ i(2), of mem dev "base + views ! i" "file"] assms(2,3) False
    show ?thesis by (auto simp: desc_ok_def)
  qed
  then have eq: "map (\<lambda>(_, p, n). read_mem mem dev p n) segments = map (\<lambda>(off, _, n). read_at file (nat off) n) segments"
    by (intro map_cong [OF refl]) auto
  show ?thesis
    unfolding verify_tensor_samples_def Let_def segments_def [symmetric] eq using False assms(1) by simp
qed (simp add: verify_tensor_samples_def)

lemma move_batch_exact:
  assumes del: "delivers T path file ds" and len: "length os = length ds"
    and ds: "\<forall>d \<in> set ds. desc_ok file d" "distinct (map ds_name ds)"
    and os: "\<forall>i < length ds. 0 \<le> os ! i \<and> os ! i < int (world T)"
    and views: "views_ok ds views" and bases: "length bases = world T" "\<forall>b \<in> set bases. 0 < b"
    and shape: "length (gs_policies s) = world T"
  shows "case move_batch T path file ds os views bases s of
      Inl es \<Rightarrow> fenced T es
    | Inr s2 \<Rightarrow> length (gs_policies s2) = world T \<and> (\<forall>r < world T. \<forall>i < length ds.
        read_mem (gs_memory s2) (int r) (bases ! r + views ! i) (nat (ds_length (ds ! i))) = content file (ds ! i))"
proof -
  obtain s1 r where read: "read_batch T path ds os views bases s = (s1, r)" by fastforce
  show ?thesis
  proof (cases r)
    case (Inl es)
    then show ?thesis using read read_batch_fenced [OF bases(1) shape read [unfolded Inl]]
      by (simp add: move_batch_def bind_group_def)
  next
    case read_ok: (Inr u)
    with read have "read_batch T path ds os views bases s = (s1, Inr ())" by simp
    note r1 = read_batch_right [OF del views len ds os bases shape this]
    show ?thesis
    proof (cases "share_batch T ds os views bases s1")
      case (Inl es)
      with read read_ok share_batch_fenced [OF Inl] show ?thesis by (simp add: move_batch_def bind_group_def)
    next
      case (Inr s2)
      have "collectives_ok T" using del by (simp add: delivers_def)
      note r2 = share_batch_right [OF this views len os bases(1) conjunct2 [OF r1] Inr]
      then have bytes: "read_mem (gs_memory s2) (int r) (bases ! r + views ! i) (nat (ds_length (ds ! i))) = content file (ds ! i)"
        if "r < world T" "i < length ds" for r i
        using ds(1) that by (intro read_mem_right) auto
      then have "\<not> isl (verify_tensor_samples file ds (map ((+) (bases ! r)) views) (tp_verify_bytes T) (int r) (gs_memory s2))"
        if "r < world T" for r
        using views ds(1) that by (intro verify_samples_pass) (auto simp: views_ok_def)
      then have "verify_batch T file ds views bases s2 = Inr ()"
        using bases(1) by (auto simp: verify_batch_def Let_def list_all_length)
      with read read_ok Inr r1 r2 bytes show ?thesis by (simp add: move_batch_def bind_group_def)
    qed
  qed
qed

lemma load_batch_exact:
  assumes del: "delivers T path file ds" and len: "length os = length ds"
    and ds: "\<forall>d \<in> set ds. desc_ok file d" "distinct (map ds_name ds)"
    and os: "\<forall>i < length ds. 0 \<le> os ! i \<and> os ! i < int (world T)"
    and shape: "slabs_ok T slabs" "length (gs_policies s) = world T"
  shows "case load_batch T slabs path file prefix ds os s of
      Inl es \<Rightarrow> fenced T es
    | Inr (s', items) \<Rightarrow> length (gs_policies s') = world T
        \<and> items = map (\<lambda>d. Tensor (prefix @ ds_name d) (replicate (world T) (content file d))) ds"
proof -
  let ?bases = "slabs (gs_slabs s)"
  let ?check = "bind_res (storage_views (sum_list (map ds_length ds)) ds True) (\<lambda>views.
         bind_res (each_res (\<lambda>(d, v). bind_res (validate_descriptor_size (tp_element_size T) d)
            (\<lambda>dtype. tp_typed_view T dtype (ds_shape d) v (ds_length d))) (zip ds views)) (\<lambda>_. Inr views))"
  have bases: "length ?bases = world T" "\<forall>b \<in> set ?bases. 0 < b" using shape(1) by (auto simp: slabs_ok_def)
  show ?thesis
  proof (cases ?check)
    case (Inl e)
    have "load_batch T slabs path file prefix ds os s = Inl (replicate (world T) (Some e))"
      unfolding load_batch_def Let_def Inl by (simp add: lift_group_def bind_group_def)
    then show ?thesis by (simp add: fenced_def)
  next
    case (Inr views)
    then have "storage_views (sum_list (map ds_length ds)) ds True = Inr views" by auto
    with ds(1) have ok: "views_ok ds views" by (auto intro!: storage_views_ok simp: desc_ok_def)
    then have lv: "length views = length ds" by (simp add: views_ok_def)
    let ?move = "move_batch T path file ds os views ?bases (s\<lparr>gs_slabs := Suc (gs_slabs s)\<rparr>)"
    have move: "case ?move of Inl es \<Rightarrow> fenced T es
      | Inr s2 \<Rightarrow> length (gs_policies s2) = world T \<and> (\<forall>r < world T. \<forall>i < length ds.
        read_mem (gs_memory s2) (int r) (?bases ! r + views ! i) (nat (ds_length (ds ! i))) = content file (ds ! i))"
      by (rule move_batch_exact [OF del len ds os ok bases]) (simp add: shape(2))
    let ?tensors = "\<lambda>s2. map (\<lambda>(d, v). Tensor (prefix @ ds_name d)
        (map (\<lambda>(rank, base). read_mem (gs_memory s2) rank (base + v) (nat (ds_length d)))
          (zip [0..int (world T) - 1] ?bases))) (zip ds views)"
    have load: "load_batch T slabs path file prefix ds os s = bind_group ?move (\<lambda>s2. Inr (s2, ?tensors s2))"
      unfolding load_batch_def Let_def Inr by (simp add: lift_group_def bind_group_def)
    have "?tensors s2 = map (\<lambda>d. Tensor (prefix @ ds_name d) (replicate (world T) (content file d))) ds"
      if "\<forall>r < world T. \<forall>i < length ds.
        read_mem (gs_memory s2) (int r) (?bases ! r + views ! i) (nat (ds_length (ds ! i))) = content file (ds ! i)" for s2
      using that lv bases(1) by (auto intro!: nth_equalityI)
    with move show ?thesis unfolding load by (cases ?move) (auto simp: bind_group_def)
  qed
qed

section \<open>Files\<close>

definition handed :: "transport \<Rightarrow> string \<Rightarrow> byte list \<Rightarrow> string \<Rightarrow> (string \<Rightarrow> bool) \<Rightarrow> descriptor \<Rightarrow> item" where
  "handed T path file prefix file_names d =
     (if file_names (ds_name d) then FileSource (prefix @ ds_name d) path d
      else Tensor (prefix @ ds_name d) (replicate (world T) (content file d)))"

lemma delivers_subset: "delivers T path file ds \<Longrightarrow> set xs \<subseteq> set ds \<Longrightarrow> delivers T path file xs"
  by (auto simp: delivers_def torch_delivers_def split: option.splits)

lemma file_owners_range:
  assumes "file_owners file_names ds w rotation = Inr os" "distinct (map ds_name ds)"
  shows "length os = length ds \<and> (\<forall>i < length ds. \<not> file_names (ds_name (ds ! i)) \<longrightarrow> 0 \<le> os ! i \<and> os ! i < w)"
proof -
  let ?ord = "filter (\<lambda>d. \<not> file_names (ds_name d)) ds"
  from assms(1) obtain os' where os': "owners ?ord w rotation True = Inr os'" and
    os: "os = map (\<lambda>d. case dict_get (dict_of (zip (map ds_name ?ord) os')) (ds_name d) of Some o' \<Rightarrow> o' | None \<Rightarrow> - 1) ds"
    by (auto simp: file_owners_def Let_def)
  have range: "length os' = length ?ord" "\<forall>r \<in> set os'. 0 \<le> r \<and> r < w" using owners_partition [OF os'] by auto
  have "distinct (map ds_name ?ord)" using assms(2) by (rule distinct_map_filter)
  then have d: "dict_of (zip (map ds_name ?ord) os') = zip (map ds_name ?ord) os'"
    using range(1) by (intro dict_of_distinct) (simp add: dict_ok_def dict_keys_def)
  have "0 \<le> os ! i \<and> os ! i < w" if i: "i < length ds" "\<not> file_names (ds_name (ds ! i))" for i
  proof -
    have "ds_name (ds ! i) \<in> set (map ds_name ?ord)" using i by auto
    then obtain v where v: "map_of (zip (map ds_name ?ord) os') (ds_name (ds ! i)) = Some v"
      using range(1) by (metis length_map map_of_zip_is_Some)
    then have "v \<in> set os'" by (metis map_of_SomeD set_zip_rightD)
    with v range(2) i(1) show ?thesis by (simp add: os d)
  qed
  then show ?thesis by (simp add: os)
qed

definition handed_over ::
  "transport \<Rightarrow> (descriptor \<Rightarrow> item) \<Rightarrow> descriptor list \<Rightarrow> (group_state \<times> item list) group_res \<Rightarrow> bool" where
  "handed_over T f ds r \<longleftrightarrow>
     (case r of Inl es \<Rightarrow> fenced T es | Inr (s, items) \<Rightarrow> length (gs_policies s) = world T \<and> items = map f ds)"

lemma batch_item_exact:
  assumes del: "delivers T path file ds" and ds: "\<forall>d \<in> set ds. desc_ok file d" "distinct (map ds_name ds)"
    and os: "length os = length ds" "\<forall>i < length ds. \<not> file_names (ds_name (ds ! i)) \<longrightarrow> 0 \<le> os ! i \<and> os ! i < int (world T)"
    and slabs: "slabs_ok T slabs"
    and range: "a < e" "e \<le> length ds" "batch_ok max_bytes file_names ds (a, e)"
    and r: "handed_over T (handed T path file prefix file_names) (take a ds) r"
  shows "handed_over T (handed T path file prefix file_names) (take e ds)
    (batch_item_step T slabs path file prefix file_names ds os r (a, e))"
proof (cases r)
  case (Inl es)
  with r show ?thesis by (simp add: handed_over_def batch_item_step_def bind_group_def)
next
  case (Inr x)
  then obtain s items where r': "r = Inr (s, items)" "length (gs_policies s) = world T"
    "items = map (handed T path file prefix file_names) (take a ds)" using r by (auto simp: handed_over_def)
  let ?batch = "take (e - a) (drop a ds)" and ?os = "take (e - a) (drop a os)"
  have hd: "hd ?batch = ds ! a" using range by (simp add: hd_drop_conv_nth)
  have sub: "set ?batch \<subseteq> set ds" by (meson in_set_dropD in_set_takeD subsetI)
  have take: "take e ds = take a ds @ ?batch"
    using range by (metis add_diff_inverse_nat less_imp_le_nat linorder_not_le take_add)
  show ?thesis
  proof (cases "file_names (ds_name (ds ! a))")
    case True
    then have "e = Suc a" using range(3) by (simp add: batch_ok_def)
    moreover have "fenced T es" if "lift_group T (validate_descriptor_size (tp_element_size T) (ds ! a)) = Inl es" for es
      using that by (rule lift_group_fenced)
    ultimately show ?thesis using True hd r' range
      by (cases "lift_group T (validate_descriptor_size (tp_element_size T) (ds ! a))")
        (auto simp: handed_over_def batch_item_step_def bind_group_def handed_def take_Suc_conv_app_nth Let_def)
  next
    case False
    then have plain: "\<forall>i \<in> {a..<e}. \<not> file_names (ds_name (ds ! i))" using range(3) by (simp add: batch_ok_def)
    have "distinct (map ds_name ?batch)" using ds(2) by (metis distinct_drop distinct_take drop_map take_map)
    moreover have "\<forall>i < length ?batch. 0 \<le> ?os ! i \<and> ?os ! i < int (world T)" using os plain range by auto
    ultimately have load: "case load_batch T slabs path file prefix ?batch ?os s of
        Inl es \<Rightarrow> fenced T es
      | Inr (s', items) \<Rightarrow> length (gs_policies s') = world T
          \<and> items = map (\<lambda>d. Tensor (prefix @ ds_name d) (replicate (world T) (content file d))) ?batch"
      using load_batch_exact [OF delivers_subset [OF del sub] _ _ _ _ slabs r'(2), where os = ?os] os(1) ds(1) sub range
      by auto
    have "\<forall>d \<in> set ?batch. \<not> file_names (ds_name d)" using plain range by (auto simp: in_set_conv_nth)
    then have "map (\<lambda>d. Tensor (prefix @ ds_name d) (replicate (world T) (content file d))) ?batch =
        map (handed T path file prefix file_names) ?batch" by (simp add: handed_def)
    with load False hd r' take show ?thesis
      by (cases "load_batch T slabs path file prefix ?batch ?os s")
        (auto simp: handed_over_def batch_item_step_def bind_group_def Let_def)
  qed
qed

lemma load_file_exact:
  assumes "delivers T path file ds" "\<forall>d \<in> set ds. desc_ok file d" "distinct (map ds_name ds)"
    and "slabs_ok T slabs" "length (gs_policies s) = world T"
  shows "handed_over T (handed T path file prefix file_names) ds (load_file T slabs path file prefix file_names ds k s)"
proof -
  have fold: "handed_over T (handed T path file prefix file_names) ds
      (foldl (batch_item_step T slabs path file prefix file_names ds os) r ranges)"
    if "length os = length ds" "\<forall>i < length ds. \<not> file_names (ds_name (ds ! i)) \<longrightarrow> 0 \<le> os ! i \<and> os ! i < int (world T)"
      "chain a ranges (length ds)" "\<forall>r \<in> set ranges. batch_ok (tp_staging_bytes T) file_names ds r"
      "handed_over T (handed T path file prefix file_names) (take a ds) r" for os ranges a r
    using that
  proof (induction ranges arbitrary: a r)
    case (Cons x ranges)
    obtain e where x: "x = (a, e)" "a < e" "chain e ranges (length ds)" using Cons.prems(3) by (cases x) auto
    have "handed_over T (handed T path file prefix file_names) (take e ds)
        (batch_item_step T slabs path file prefix file_names ds os r (a, e))"
      using Cons.prems x chain_le [OF x(3)] by (intro batch_item_exact [OF assms(1-3) _ _ assms(4)]) auto
    from Cons.IH [OF Cons.prems(1,2) x(3) _ this] Cons.prems(4) show ?case by (simp add: x(1))
  qed simp
  show ?thesis
  proof (cases "file_owners file_names ds (int (world T)) (k mod int (world T))")
    case (Inl e)
    then show ?thesis by (simp add: load_file_def handed_over_def lift_group_def bind_group_def fenced_def)
  next
    case os: (Inr os)
    show ?thesis
    proof (cases "descriptor_batches ds (tp_staging_bytes T) file_names")
      case (Inl e)
      with os show ?thesis by (simp add: load_file_def handed_over_def lift_group_def bind_group_def fenced_def)
    next
      case (Inr ranges)
      have "handed_over T (handed T path file prefix file_names) ds
          (foldl (batch_item_step T slabs path file prefix file_names ds os) (Inr (s, [])) ranges)"
        using file_owners_range [OF os assms(3)] descriptor_batches_chain [OF Inr] assms(5)
        by (intro fold [where a = 0]) (auto simp: handed_over_def)
      with os Inr show ?thesis by (simp add: load_file_def lift_group_def bind_group_def)
    qed
  qed
qed

lemma selected_descriptors_ok:
  assumes "selected_descriptors L S path file = Inr ds"
  shows "(\<forall>d \<in> set ds. desc_ok file d) \<and> distinct (map ds_name ds)"
proof -
  from assms obtain ds0 where ds0: "descriptors L file (abspath (sl_directory S) path) (sl_index S) (sl_prefixes S) = Inr ds0"
    and ds: "ds = sort_key ds_file_offset (filter (\<lambda>d. \<not> sl_skips S (ds_name d)) ds0)"
    by (auto simp: selected_descriptors_def)
  from descriptors_facts [OF ds0] obtain data_offset header where
    h: "read_safetensors_header L file = Inr (data_offset, header)" "distinct (map ds_name ds0)"
    "\<forall>d \<in> set ds0. data_offset \<le> ds_file_offset d \<and> 0 \<le> ds_length d \<and> ds_file_offset d + ds_length d \<le> int (length file)"
    by blast
  have "\<forall>d \<in> set ds. desc_ok file d" using h(3) read_header_Inr [OF h(1)] by (auto simp: ds desc_ok_def)
  moreover have "distinct (map ds_name (filter (\<lambda>d. \<not> sl_skips S (ds_name d)) ds0))"
    using h(2) by (rule distinct_map_filter)
  then have "distinct (map ds_name ds)" unfolding ds by (metis mset_eq_imp_distinct_iff mset_map mset_sort)
  ultimately show ?thesis by blast
qed

lemma file_step_Inl: "foldl (file_step L T slabs S) (Inl es) fs = Inl es"
  by (induction fs) (auto simp: file_step_def bind_group_def)

lemma file_fold_exact:
  assumes del: "\<forall>(k, path, file) \<in> set fs. \<forall>ds. selected_descriptors L S path file = Inr ds \<longrightarrow> delivers T path file ds"
    and slabs: "slabs_ok T slabs" and s: "length (gs_policies s) = world T" "distinct seen"
    and run: "foldl (file_step L T slabs S) (Inr (s, items, seen)) fs = Inr (s', items', seen')"
  shows "\<exists>dss. list_all2 (\<lambda>(_, path, file) ds. selected_descriptors L S path file = Inr ds) fs dss
    \<and> items' = items @ concat (map2 (\<lambda>(_, path, file). map (handed T path file (sl_prefix S) (file_backed S))) fs dss)
    \<and> seen' = seen @ map ds_name (concat dss) \<and> distinct seen'"
  using del s run
proof (induction fs arbitrary: s items seen)
  case (Cons f fs)
  obtain k path "file" where f: "f = (k, path, file)" by (metis prod_cases3)
  obtain x where step: "file_step L T slabs S (Inr (s, items, seen)) f = Inr x"
    using Cons.prems(4) by (cases "file_step L T slabs S (Inr (s, items, seen)) f") (auto simp: file_step_Inl)
  from step obtain ds s1 new where
    ds: "selected_descriptors L S path file = Inr ds" and fresh: "\<not> list_ex (\<lambda>d. ds_name d \<in> set seen) ds" and
    load: "load_file T slabs path file (sl_prefix S) (file_backed S) ds k s = Inr (s1, new)" and
    x: "x = (s1, items @ new, seen @ map ds_name ds)"
    by (auto simp: f file_step_def bind_group_Inr lift_group_Inr split: if_splits)
  have d: "delivers T path file ds" using Cons.prems(1) ds by (auto simp: f)
  note ok = selected_descriptors_ok [OF ds]
  have new: "new = map (handed T path file (sl_prefix S) (file_backed S)) ds" "length (gs_policies s1) = world T"
    using load_file_exact [OF d _ _ slabs Cons.prems(2), of "sl_prefix S" "file_backed S" k] ok load
    by (auto simp: handed_over_def)
  have "distinct (seen @ map ds_name ds)" using Cons.prems(3) ok fresh by (auto simp: list_ex_iff)
  from Cons.IH [OF _ new(2) this, of "items @ new"] Cons.prems step x obtain dss where
    "list_all2 (\<lambda>(_, path, file) ds. selected_descriptors L S path file = Inr ds) fs dss"
    "items' = (items @ new) @ concat (map2 (\<lambda>(_, path, file). map (handed T path file (sl_prefix S) (file_backed S))) fs dss)"
    "seen' = (seen @ map ds_name ds) @ map ds_name (concat dss)" "distinct seen'" by auto
  with ds new(1) show ?case by (intro exI [of _ "ds # dss"]) (simp add: f)
qed simp

text \<open>
  C5: When the iterator finishes, it has handed out every selected tensor of every file exactly
  once, files in sorted order and tensors in physical order, under its prefixed name; and every
  rank of the group holds the bytes of the checkpoint for it, whichever rank read them and
  through whichever reader, or the tensor is handed out as the file range it names.
\<close>

theorem recovery_weights_exact:
  assumes "\<forall>(path, file) \<in> set files. \<forall>ds. selected_descriptors L S path file = Inr ds \<longrightarrow> delivers T path file ds"
    and "slabs_ok T slabs"
    and "recovery_weights_iterator L T slabs S files s = Inr (s', items)"
  shows "\<exists>dss. list_all2 (\<lambda>(path, file) ds. selected_descriptors L S path file = Inr ds) (sort_key fst files) dss
    \<and> items = concat (map2 (\<lambda>(path, file). map (handed T path file (sl_prefix S) (file_backed S))) (sort_key fst files) dss)
    \<and> distinct (map ds_name (concat dss))"
proof -
  let ?ordered = "sort_key fst files"
  let ?fs = "zip [0..int (length ?ordered) - 1] ?ordered"
  from assms(3) obtain seen where fold:
    "foldl (file_step L T slabs S) (Inr (s\<lparr>gs_policies := replicate (world T) []\<rparr>, [], [])) ?fs = Inr (s', items, seen)"
    by (auto simp: recovery_weights_iterator_def Let_def bind_group_Inr)
  have "\<forall>(k, path, file) \<in> set ?fs. \<forall>ds. selected_descriptors L S path file = Inr ds \<longrightarrow> delivers T path file ds"
  proof
    fix x assume "x \<in> set ?fs"
    then have "snd x \<in> set files" by (metis prod.collapse set_sort set_zip_rightD)
    with assms(1) show "case x of (k, path, file) \<Rightarrow> \<forall>ds. selected_descriptors L S path file = Inr ds \<longrightarrow> delivers T path file ds"
      by (auto split: prod.splits)
  qed
  from file_fold_exact [OF this assms(2) _ _ fold] obtain dss where
    dss: "list_all2 (\<lambda>(_, path, file) ds. selected_descriptors L S path file = Inr ds) ?fs dss"
    "items = concat (map2 (\<lambda>(_, path, file). map (handed T path file (sl_prefix S) (file_backed S))) ?fs dss)"
    "distinct (map ds_name (concat dss))" by auto
  have fs: "map snd ?fs = ?ordered" by simp
  have "list_all2 (\<lambda>(path, file) ds. selected_descriptors L S path file = Inr ds) (map snd ?fs) dss"
    unfolding list_all2_map1 by (rule list_all2_mono [OF dss(1)]) auto
  moreover have "map2 (\<lambda>(_, path, file). map (handed T path file (sl_prefix S) (file_backed S))) ?fs dss =
      map2 (\<lambda>(path, file). map (handed T path file (sl_prefix S) (file_backed S))) (map snd ?fs) dss"
    unfolding zip_map1 map_map by (rule map_cong [OF refl]) auto
  ultimately show ?thesis using dss(2,3) unfolding fs by (intro exI [of _ dss]) simp
qed

lemma file_step_fenced:
  assumes "\<forall>ds. selected_descriptors L S path file = Inr ds \<longrightarrow> delivers T path file ds" "slabs_ok T slabs"
    and "length (gs_policies s) = world T"
  shows "case file_step L T slabs S (Inr (s, items, seen)) (k, path, file) of
      Inl es \<Rightarrow> fenced T es | Inr (s1, _, _) \<Rightarrow> length (gs_policies s1) = world T"
proof (cases "selected_descriptors L S path file")
  case (Inl e)
  then show ?thesis by (simp add: file_step_def bind_group_def lift_group_def fenced_def)
next
  case (Inr ds)
  have "handed_over T (handed T path file (sl_prefix S) (file_backed S)) ds
      (load_file T slabs path file (sl_prefix S) (file_backed S) ds k s)"
    using selected_descriptors_ok [OF Inr] assms Inr by (intro load_file_exact) auto
  then show ?thesis
    using Inr by (auto simp: file_step_def bind_group_def lift_group_def fenced_def handed_over_def
        split: sum.splits prod.splits)
qed

lemma file_fold_fenced:
  assumes "\<forall>(k, path, file) \<in> set fs. \<forall>ds. selected_descriptors L S path file = Inr ds \<longrightarrow> delivers T path file ds"
    and "slabs_ok T slabs" "length (gs_policies s) = world T"
    and "foldl (file_step L T slabs S) (Inr (s, items, seen)) fs = Inl es"
  shows "fenced T es"
  using assms(1,3,4)
proof (induction fs arbitrary: s items seen)
  case (Cons f fs)
  obtain k path "file" where f: "f = (k, path, file)" by (metis prod_cases3)
  have step: "case file_step L T slabs S (Inr (s, items, seen)) f of
      Inl es \<Rightarrow> fenced T es | Inr (s1, _, _) \<Rightarrow> length (gs_policies s1) = world T"
    unfolding f using Cons.prems(1,2) assms(2) by (intro file_step_fenced) (auto simp: f)
  show ?case
  proof (cases "file_step L T slabs S (Inr (s, items, seen)) f")
    case (Inl es')
    with Cons.prems(3) step show ?thesis by (simp add: file_step_Inl)
  next
    case (Inr x)
    with step Cons.prems Cons.IH show ?thesis by (cases x) auto
  qed
qed simp


section \<open>All ranks make the same calls\<close>

definition shift_row :: "int \<Rightarrow> int \<times> int \<times> int \<Rightarrow> int \<times> int \<times> int" where
  "shift_row k r = (case r of (p, n, owner) \<Rightarrow> (p + k, n, owner))"

lemma sort_shift: "sort (map (shift_row k) rows) = map (shift_row k) (sort rows)"
proof (rule properties_for_sort)
  have "sorted (map (shift_row k) rs)" if "sorted rs" for rs
    using that by (induction rs) (auto simp: shift_row_def less_eq_prod_def split: prod.splits)
  then show "sorted (map (shift_row k) (sort rows))" by simp
qed simp

lemma region_step_shift:
  "region_step (base + k) (limit + k) (map (shift_row k) regions) (shift_row k row) =
     map_sum id (map (shift_row k)) (region_step base limit regions row)"
proof -
  obtain p n owner where row: "row = (p, n, owner)" by (metis prod_cases3)
  show ?thesis
    by (cases "regions = []")
      (auto simp: region_step_def row shift_row_def last_map map_butlast split: prod.splits)
qed

lemma region_fold_shift:
  "fold_res (region_step (base + k) (limit + k)) (map (shift_row k) regions) (map (shift_row k) rows) =
     map_sum id (map (shift_row k)) (fold_res (region_step base limit) regions rows)"
proof (induction rows arbitrary: regions)
  case (Cons row rows)
  show ?case
    by (cases "region_step base limit regions row") (simp_all add: region_step_shift Cons.IH)
qed simp

lemma broadcast_calls_agree:
  "broadcast_slab_regions (base + k) numel (map (\<lambda>(p, n). (p + k, n)) storages) os m =
     broadcast_slab_regions base numel storages os m"
proof -
  let ?rows = "map (\<lambda>((p, n), owner). (p, n, owner)) (filter (\<lambda>((_, n), _). n > 0) (zip storages os))"
  have rows: "map (\<lambda>((p, n), owner). (p, n, owner))
      (filter (\<lambda>((_, n), _). n > 0) (zip (map (\<lambda>(p, n). (p + k, n)) storages) os)) = map (shift_row k) ?rows"
    by (simp add: zip_map1 filter_map o_def shift_row_def case_prod_beta)
      (rule map_cong [OF filter_cong [OF refl]], auto)
  have fold: "fold_res (region_step (base + k) (base + k + numel)) [] (map (shift_row k) (sort ?rows)) =
      map_sum id (map (shift_row k)) (fold_res (region_step base (base + numel)) [] (sort ?rows))"
    using region_fold_shift [of base k "base + numel" "[]" "sort ?rows"] by (simp add: algebra_simps)
  show ?thesis
    unfolding broadcast_slab_regions_def rows sort_shift fold
    by (cases "fold_res (region_step base (base + numel)) [] (sort ?rows)")
      (auto simp: shift_row_def o_def intro!: arg_cong [where f = concat] map_cong split: prod.splits)
qed

section \<open>An instance\<close>

text \<open>A reader that copies its extents one after the other, and a broadcast over a list of global ranks.\<close>

definition copy_all :: "byte list \<Rightarrow> hydration_extent list \<Rightarrow> int \<Rightarrow> device_memory \<Rightarrow> device_memory" where
  "copy_all file es dev mem = foldl (\<lambda>m e. write_mem m dev (he_destination e)
     (read_at file (nat (he_file_offset e)) (nat (he_length e)))) mem es"

lemma copy_all_delivered:
  "\<forall>e \<in> set es. in_file file e \<Longrightarrow> separate (moved es) \<Longrightarrow> delivered file dev (moved es) mem (copy_all file es dev mem)"
proof (induction es arbitrary: mem)
  case (Cons e es)
  let ?mem = "write_mem mem dev (he_destination e) (read_at file (nat (he_file_offset e)) (nat (he_length e)))"
  have "delivered file dev (moved [e]) mem ?mem"
    using Cons.prems(1) by (auto simp: in_file_def extent_valid_def intro!: write_mem_delivered)
  moreover have "delivered file dev (moved es) ?mem (copy_all file es dev ?mem)"
    using Cons.prems by (intro Cons.IH) (auto intro: separate_subset)
  ultimately have "delivered file dev (moved [e] \<union> moved es) mem (copy_all file es dev ?mem)"
    using Cons.prems(2) by (intro delivered_Un) simp_all
  then show ?case by (simp add: copy_all_def)
qed (simp add: copy_all_def)

definition plain_broadcast :: "int list \<Rightarrow> int \<Rightarrow> (int \<times> nat) list \<Rightarrow> device_memory \<Rightarrow> device_memory" where
  "plain_broadcast g src ranges mem =
     (let k = length (takeWhile (\<lambda>x. x \<noteq> src) g) in
      (\<lambda>d a. if 0 \<le> d \<and> d < int (length g) \<and> fst (ranges ! nat d) \<le> a \<and> a < fst (ranges ! nat d) + int (snd (ranges ! nat d))
             then mem (int k) (fst (ranges ! k) + (a - fst (ranges ! nat d))) else mem d a))"

lemma takeWhile_nth: "distinct xs \<Longrightarrow> k < length xs \<Longrightarrow> length (takeWhile (\<lambda>x. x \<noteq> xs ! k) xs) = k"
proof (induction xs arbitrary: k)
  case (Cons x xs)
  then show ?case by (cases k) (auto simp: nth_mem)
qed simp

definition demo_mounts :: mounts where
  "demo_mounts path = Inr (path, ''8:1'', [''36 1 8:1 / / rw - ext4 /dev/sda1 rw''])"

definition demo_transport :: "mounts \<Rightarrow> transport" where
  "demo_transport mounts =
     \<lparr>tp_library = Some demo_library, tp_backend = ''auto'', tp_chunk_bytes = 4096, tp_queue_depth = 1,
      tp_staging_bytes = 4, tp_collective_bytes = 4096, tp_verify_bytes = 2, tp_mounts = mounts,
      tp_transfer = (\<lambda>path es backend dev mem. copy_all demo_shard es dev mem),
      tp_get_tensor = (\<lambda>path name. Inl (KeyErr name)), tp_element_size = (\<lambda>dtype. Some 1),
      tp_typed_view = (\<lambda>dtype shape off n. Inr ()), tp_group = Some [4, 7],
      tp_all_reduce = sum_list, tp_broadcast = plain_broadcast [4, 7]\<rparr>"

definition demo_selection :: selection where
  "demo_selection = \<lparr>sl_directory = ''/'', sl_index = None, sl_prefixes = None, sl_prefix = ''model.'',
     sl_skips = (\<lambda>_. False), sl_file_filter = None\<rparr>"

definition demo_state :: group_state where
  "demo_state = \<lparr>gs_memory = (\<lambda>_ _. 0), gs_policies = [], gs_slabs = 0\<rparr>"

definition demo_slabs :: "nat \<Rightarrow> int list" where
  "demo_slabs k = [1000, 5000]"

lemma demo_broadcasts: "broadcasts (demo_transport m) [4, 7]"
  unfolding broadcasts_def
proof (intro allI impI)
  fix k :: nat and starts :: "int list" and n :: nat and mem :: device_memory
  assume k: "k < length [4, 7 :: int]" and len: "length starts = length [4, 7 :: int]"
  have "length (takeWhile (\<lambda>x. x \<noteq> [4, 7] ! k) [4, 7 :: int]) = k" using k by (intro takeWhile_nth) auto
  then show "tp_broadcast (demo_transport m) ([4, 7] ! k) (map (\<lambda>p. (p, n)) starts) mem =
      (\<lambda>d a. if 0 \<le> d \<and> d < int (length [4, 7 :: int]) \<and> starts ! nat d \<le> a \<and> a < starts ! nat d + int n
        then mem (int k) (starts ! k + (a - starts ! nat d)) else mem d a)"
    using k len unfolding demo_transport_def plain_broadcast_def Let_def
    by (auto simp: fun_eq_iff nat_less_iff)
qed

lemma demo_delivers: "delivers (demo_transport m) path demo_shard ds"
proof -
  have "native_delivers (demo_transport m) demo_library path demo_shard"
    unfolding native_delivers_def
    by (auto simp: demo_transport_def split: sum.splits intro: copy_all_delivered delivered_confined [OF copy_all_delivered])
  then show ?thesis
    using demo_broadcasts by (simp add: delivers_def collectives_ok_def) (simp add: demo_transport_def)
qed

lemma demo_slabs_ok: "slabs_ok (demo_transport m) demo_slabs"
  by (simp add: slabs_ok_def demo_slabs_def world_def demo_transport_def)

theorem recovery_weights_exact_witness:
  "\<exists>s' ds. recovery_weights_iterator plain_lib (demo_transport demo_mounts) demo_slabs demo_selection [(''/m'', demo_shard)] demo_state
       = Inr (s', [Tensor ''model.a'' [[1, 2], [1, 2]], Tensor ''model.b'' [[3, 4, 5], [3, 4, 5]]])
     \<and> selected_descriptors plain_lib demo_selection ''/m'' demo_shard = Inr ds
     \<and> map (handed (demo_transport demo_mounts) ''/m'' demo_shard ''model.'' (file_backed demo_selection)) ds =
         [Tensor ''model.a'' [[1, 2], [1, 2]], Tensor ''model.b'' [[3, 4, 5], [3, 4, 5]]]"
proof -
  let ?run = "recovery_weights_iterator plain_lib (demo_transport demo_mounts) demo_slabs demo_selection [(''/m'', demo_shard)] demo_state"
  let ?items = "[Tensor ''model.a'' [[1, 2], [1, 2]], Tensor ''model.b'' [[3, 4, 5], [3, 4, 5]]]"
  have "case ?run of Inl _ \<Rightarrow> False | Inr (_, items) \<Rightarrow> items = ?items" by code_simp
  then obtain s' where run: "?run = Inr (s', ?items)" by (auto split: sum.splits prod.splits)
  have "\<forall>(path, file) \<in> set [(''/m'', demo_shard)]. \<forall>ds. selected_descriptors plain_lib demo_selection path file = Inr ds
      \<longrightarrow> delivers (demo_transport demo_mounts) path file ds"
    using demo_delivers by simp
  from recovery_weights_exact [OF this demo_slabs_ok run] obtain ds where
    "selected_descriptors plain_lib demo_selection ''/m'' demo_shard = Inr ds"
    "?items = map (handed (demo_transport demo_mounts) ''/m'' demo_shard ''model.'' (file_backed demo_selection)) ds"
    by (auto simp: list_all2_Cons1 demo_selection_def)
  with run show ?thesis by metis
qed


end
