(* ===== verification/Cold_Replay.thy ===== *)
theory Cold_Replay
  imports Cold_Delivery
begin

text \<open>
  Replay of recorded weight copies, from \<^verbatim>\<open>coldsnap_recovery_loader.py\<close>: strided views of
  checkpoint tensors are read straight from the local file into a packed slab and copied on into
  the tensors of the model. The theory has the plan of the packed reads, its execution on one rank
  and on the group, and the proof that the destinations receive the bytes of the checkpoint.
\<close>

section \<open>Recorded copies\<close>

record recovery_copy =
  rc_source_name :: string
  rc_source_path :: string
  rc_source_dtype :: string
  rc_source_shape :: "int list"
  rc_source_file_offset :: int
  rc_source_length :: int
  rc_view_dtype :: string
  rc_view_offset :: int
  rc_view_shape :: "int list"
  rc_view_stride :: "int list"
  rc_destination_name :: string
  rc_destination_dtype :: string
  rc_destination_shape :: "int list"
  rc_destination_offset :: int
  rc_destination_view_shape :: "int list"
  rc_destination_view_stride :: "int list"
  rc_copy_bytes :: int

type_synonym source_key = "string \<times> string \<times> string \<times> int list \<times> int \<times> int"

definition source_key :: "recovery_copy \<Rightarrow> source_key" where
  "source_key c = (rc_source_name c, rc_source_path c, rc_source_dtype c, rc_source_shape c,
     rc_source_file_offset c, rc_source_length c)"

definition copy_order :: "recovery_copy \<Rightarrow> string \<times> int \<times> string \<times> string \<times> int \<times> int" where
  "copy_order c = (rc_source_path c, rc_source_file_offset c, rc_source_name c, rc_destination_name c,
     rc_destination_offset c, rc_view_offset c)"

text \<open>
  What replay uses of torch: the element size of a dtype that the installed version has, and
  \<^verbatim>\<open>destination.copy_(source)\<close> on the memory of a device.
\<close>

record typed_view =
  tv_dtype :: string
  tv_size :: int
  tv_address :: int
  tv_shape :: "int list"
  tv_stride :: "int list"

record torch =
  th_size :: "string \<Rightarrow> int option"
  th_copy :: "typed_view \<Rightarrow> typed_view \<Rightarrow> int \<Rightarrow> device_memory \<Rightarrow> device_memory \<times> unit res"

definition dtype_from_string :: "torch \<Rightarrow> string \<Rightarrow> int res" where
  "dtype_from_string R value =
     (if \<not> starts_with value ''torch.'' then Inl (RuntimeErr ''invalid recovery replay dtype'')
      else opt_res (RuntimeErr ''installed torch lacks recovery replay dtype'') (th_size R (drop 6 value)))"

text \<open>A tensor of the process: its first byte, its size, and the storage that backs it.\<close>

record live_tensor =
  lt_pointer :: int
  lt_bytes :: int
  lt_storage_pointer :: int
  lt_storage_bytes :: int

definition span_elements :: "int list \<Rightarrow> int list \<Rightarrow> int" where
  "span_elements shape stride =
     (if list_ex (\<lambda>d. d = 0) shape then 0
      else sum_list (map (\<lambda>(d, s). (d - 1) * s) (zip shape stride)) + 1)"

definition typed_storage_view ::
  "torch \<Rightarrow> live_tensor \<Rightarrow> int \<Rightarrow> string \<Rightarrow> int list \<Rightarrow> int list \<Rightarrow> typed_view res" where
  "typed_storage_view R tensor offset dtype shape stride =
     bind_res (dtype_from_string R dtype) (\<lambda>element_size.
     let span_bytes = span_elements shape stride * element_size;
         byte_offset = lt_pointer tensor - lt_storage_pointer tensor + offset in
     if length shape \<noteq> length stride \<or> list_ex (\<lambda>d. d < 0) shape
     then Inl (RuntimeErr ''recovery replay view has an invalid shape'')
     else if list_ex (\<lambda>s. s < 0) stride then Inl (RuntimeErr ''recovery replay view has a negative stride'')
     else if offset < 0 \<or> offset + span_bytes > lt_bytes tensor
     then Inl (RuntimeErr ''recovery replay view exceeds its live tensor'')
     else if byte_offset < 0 \<or> byte_offset mod element_size \<noteq> 0
     then Inl (RuntimeErr ''recovery replay view has an invalid storage offset'')
     else if byte_offset + span_bytes > lt_storage_bytes tensor
     then Inl (RuntimeErr ''recovery replay view exceeds its backing storage'')
     else Inr \<lparr>tv_dtype = dtype, tv_size = element_size,
            tv_address = lt_storage_pointer tensor + byte_offset div element_size * element_size,
            tv_shape = shape, tv_stride = stride\<rparr>)"

definition replay_view_span_bytes :: "torch \<Rightarrow> recovery_copy \<Rightarrow> int res" where
  "replay_view_span_bytes R c =
     bind_res (dtype_from_string R (rc_view_dtype c)) (\<lambda>element_size.
     if length (rc_view_shape c) \<noteq> length (rc_view_stride c) \<or> list_ex (\<lambda>d. d < 0) (rc_view_shape c)
     then Inl (RuntimeErr ''recovery replay source view has an invalid shape'')
     else if list_ex (\<lambda>s. s < 0) (rc_view_stride c)
     then Inl (RuntimeErr ''recovery replay source view has a negative stride'')
     else Inr (span_elements (rc_view_shape c) (rc_view_stride c) * element_size))"

section \<open>The packed layout\<close>

definition contiguous_stride :: "int list \<Rightarrow> int list" where
  "contiguous_stride shape = snd (foldr (\<lambda>d (running, stride). (running * d, running # stride)) shape (1, []))"

definition pack_step :: "torch \<Rightarrow> int list \<times> int \<Rightarrow> recovery_copy \<Rightarrow> (int list \<times> int) res" where
  "pack_step R s c =
     bind_res (dtype_from_string R (rc_view_dtype c)) (\<lambda>element_size.
     let start = (snd s + element_size - 1) div element_size * element_size
     in Inr (fst s @ [start], start + prod_list (rc_view_shape c) * element_size))"

definition replay_pack_layout :: "torch \<Rightarrow> recovery_copy list \<Rightarrow> (int list \<times> int) res" where
  "replay_pack_layout R copies = fold_res (pack_step R) ([], 0) copies"

text \<open>
  The trailing dimensions that lie contiguously in the source, from the last one on: how many, and
  the number of elements they hold.
\<close>

fun contiguous_suffix :: "(int \<times> int) list \<Rightarrow> int \<Rightarrow> nat \<times> int" where
  "contiguous_suffix [] elements = (0, elements)"
| "contiguous_suffix ((d, s) # rest) elements =
     (if d = 1 then (case contiguous_suffix rest elements of (n, e) \<Rightarrow> (Suc n, e))
      else if s \<noteq> elements then (0, elements)
      else (case contiguous_suffix rest (elements * d) of (n, e) \<Rightarrow> (Suc n, e)))"

definition view_suffix :: "recovery_copy \<Rightarrow> nat \<times> int" where
  "view_suffix c = contiguous_suffix (rev (zip (rc_view_shape c) (rc_view_stride c))) 1"

definition prefix_rank :: "recovery_copy \<Rightarrow> nat" where
  "prefix_rank c = length (rc_view_shape c) - fst (view_suffix c)"

definition packed_copy_extent_geometry :: "torch \<Rightarrow> recovery_copy \<Rightarrow> (int \<times> int \<times> int) res" where
  "packed_copy_extent_geometry R c =
     bind_res (dtype_from_string R (rc_view_dtype c)) (\<lambda>element_size.
     if length (rc_view_shape c) \<noteq> length (rc_view_stride c) \<or> list_ex (\<lambda>d. d \<le> 0) (rc_view_shape c)
     then Inl (RuntimeErr ''recovery packed source view has an invalid shape'')
     else if list_ex (\<lambda>s. s < 0) (rc_view_stride c)
     then Inl (RuntimeErr ''recovery packed source view has a negative stride'')
     else Inr (prod_list (take (prefix_rank c) (rc_view_shape c)), snd (view_suffix c), element_size))"

record packed_extent =
  pe_file_offset :: int
  pe_packed_offset :: int
  pe_length :: int

fun source_elements :: "int \<Rightarrow> (int \<times> int) list \<Rightarrow> int" where
  "source_elements remaining [] = 0"
| "source_elements remaining ((d, s) # rest) = remaining mod d * s + source_elements (remaining div d) rest"

definition join_extent :: "packed_extent list \<Rightarrow> packed_extent \<Rightarrow> packed_extent list" where
  "join_extent extents item =
     (if extents \<noteq> [] \<and> pe_file_offset (last extents) + pe_length (last extents) = pe_file_offset item
           \<and> pe_packed_offset (last extents) + pe_length (last extents) = pe_packed_offset item
      then butlast extents @ [(last extents)\<lparr>pe_length := pe_length (last extents) + pe_length item\<rparr>]
      else extents @ [item])"

definition packed_copy_extents :: "torch \<Rightarrow> recovery_copy \<Rightarrow> int \<Rightarrow> packed_extent list res" where
  "packed_copy_extents R c packed_offset =
     bind_res (packed_copy_extent_geometry R c) (\<lambda>(extent_count, contiguous_elements, element_size).
     let outer = rev (zip (take (prefix_rank c) (rc_view_shape c)) (take (prefix_rank c) (rc_view_stride c)));
         extent_bytes = contiguous_elements * element_size;
         item = (\<lambda>linear_index. \<lparr>pe_file_offset = rc_source_file_offset c + rc_view_offset c
                      + source_elements linear_index outer * element_size,
                   pe_packed_offset = packed_offset + linear_index * extent_bytes, pe_length = extent_bytes\<rparr>) in
     if extent_count * extent_bytes \<noteq> prod_list (rc_view_shape c) * element_size
     then Inl (RuntimeErr ''recovery packed source geometry changed'')
     else Inr (foldl join_extent [] (map item [0..extent_count - 1])))"

section \<open>Which plans are replayed locally\<close>

text \<open>The result \<^term>\<open>None\<close> is the early return of \<^verbatim>\<open>False\<close>.\<close>

definition qualify_step :: "torch \<Rightarrow> int \<Rightarrow> (int \<times> int) option \<Rightarrow> recovery_copy \<Rightarrow> (int \<times> int) option res" where
  "qualify_step R max_extents s c =
     (case s of None \<Rightarrow> Inr None
      | Some (extent_count, packed_bytes) \<Rightarrow>
          bind_res (packed_copy_extent_geometry R c) (\<lambda>(count, contiguous_elements, element_size).
          if extent_count + count > max_extents then Inr None
          else Inr (Some (extent_count + count, packed_bytes + count * contiguous_elements * element_size))))"

definition rank_local_packed_replay_qualified :: "torch \<Rightarrow> recovery_copy list \<Rightarrow> int \<Rightarrow> int \<Rightarrow> bool res" where
  "rank_local_packed_replay_qualified R copies max_extents min_extent_bytes =
     bind_res (fold_res (qualify_step R max_extents) (Some (0, 0)) copies) (\<lambda>s.
     case s of None \<Rightarrow> Inr False
     | Some (extent_count, packed_bytes) \<Rightarrow>
         Inr (extent_count \<noteq> 0 \<and> packed_bytes div extent_count \<ge> min_extent_bytes))"

definition aggregate_step ::
  "torch \<Rightarrow> (source_key, int \<times> int) dict \<Rightarrow> recovery_copy \<Rightarrow> (source_key, int \<times> int) dict res" where
  "aggregate_step R d c =
     bind_res (packed_copy_extent_geometry R c) (\<lambda>(count, contiguous_elements, element_size).
     Inr (dict_put (source_key c)
       ((case dict_get d (source_key c) of None \<Rightarrow> 0 | Some (n, _) \<Rightarrow> n) + count * contiguous_elements * element_size,
        rc_source_length c) d))"

definition plan_step ::
  "torch \<Rightarrow> int \<Rightarrow> int \<Rightarrow> (source_key, int \<times> int) dict option \<Rightarrow> recovery_copy list \<Rightarrow>
   (source_key, int \<times> int) dict option res" where
  "plan_step R max_extents min_extent_bytes s copies =
     (case s of None \<Rightarrow> Inr None
      | Some d \<Rightarrow>
          bind_res (rank_local_packed_replay_qualified R copies max_extents min_extent_bytes) (\<lambda>ok.
          if \<not> ok then Inr None
          else bind_res (fold_res (aggregate_step R) d copies) (\<lambda>d'. Inr (Some d'))))"

definition rank_local_packed_replay_plans_qualified ::
  "torch \<Rightarrow> recovery_copy list list \<Rightarrow> int \<Rightarrow> int \<Rightarrow> bool res" where
  "rank_local_packed_replay_plans_qualified R plans max_extents min_extent_bytes =
     bind_res (fold_res (plan_step R max_extents min_extent_bytes) (Some []) plans) (\<lambda>s.
     case s of None \<Rightarrow> Inr False
     | Some d \<Rightarrow> Inr (list_all (\<lambda>(_, logical_bytes, source_length). logical_bytes \<le> source_length) d))"

section \<open>Copies into the model\<close>

abbreviation numel :: "typed_view \<Rightarrow> int" where
  "numel v \<equiv> prod_list (tv_shape v)"

text \<open>
  One copy of a loop: the views that the code rebuilds for it, as destination and source, or what
  it raises before the copy.
\<close>

definition run_copy ::
  "torch \<Rightarrow> int \<Rightarrow> device_memory \<times> int res \<Rightarrow> (typed_view \<times> typed_view) res \<Rightarrow> int \<Rightarrow> device_memory \<times> int res" where
  "run_copy R dev s views copied =
     (case s of
        (mem, Inl e) \<Rightarrow> (mem, Inl e)
      | (mem, Inr so_far) \<Rightarrow>
          (case views of
             Inl e \<Rightarrow> (mem, Inl e)
           | Inr (destination, source) \<Rightarrow>
               (case th_copy R destination source dev mem of
                  (mem1, Inl e) \<Rightarrow> (mem1, Inl e)
                | (mem1, Inr _) \<Rightarrow> (mem1, Inr (so_far + copied)))))"

definition destination_view :: "torch \<Rightarrow> (string, live_tensor) dict \<Rightarrow> recovery_copy \<Rightarrow> typed_view res" where
  "destination_view R destinations c =
     bind_res (opt_res (KeyErr (rc_destination_name c)) (dict_get destinations (rc_destination_name c))) (\<lambda>tensor.
     typed_storage_view R tensor (rc_destination_offset c) (rc_destination_dtype c)
       (rc_destination_view_shape c) (rc_destination_view_stride c))"

definition packed_view :: "torch \<Rightarrow> live_tensor \<Rightarrow> recovery_copy \<Rightarrow> int \<Rightarrow> typed_view res" where
  "packed_view R slab c offset =
     typed_storage_view R slab offset (rc_view_dtype c) (rc_view_shape c) (contiguous_stride (rc_view_shape c))"

definition source_view ::
  "torch \<Rightarrow> (source_key, live_tensor) dict \<Rightarrow> (source_key, int) dict \<Rightarrow> recovery_copy \<Rightarrow> typed_view res" where
  "source_view R source_tensors base_offsets c =
     bind_res (opt_res (KeyErr (rc_source_name c)) (dict_get source_tensors (source_key c))) (\<lambda>tensor.
     typed_storage_view R tensor
       (rc_view_offset c - (case dict_get base_offsets (source_key c) of None \<Rightarrow> 0 | Some b \<Rightarrow> b))
       (rc_view_dtype c) (rc_view_shape c) (rc_view_stride c))"

definition apply_packed_step ::
  "torch \<Rightarrow> int \<Rightarrow> live_tensor \<Rightarrow> (string, live_tensor) dict \<Rightarrow> device_memory \<times> int res \<Rightarrow>
   recovery_copy \<times> int \<Rightarrow> device_memory \<times> int res" where
  "apply_packed_step R dev slab destinations s item =
     (case item of (c, offset) \<Rightarrow>
        run_copy R dev s
          (bind_res (packed_view R slab c offset) (\<lambda>source.
           bind_res (destination_view R destinations c) (\<lambda>destination.
           if tv_shape source \<noteq> tv_shape destination \<or> numel destination * tv_size destination \<noteq> rc_copy_bytes c
           then Inl (RuntimeErr ''recovery packed replay copy metadata changed'')
           else Inr (destination, source))))
          (rc_copy_bytes c))"

definition apply_packed_recovery_copies ::
  "torch \<Rightarrow> int \<Rightarrow> recovery_copy list \<Rightarrow> live_tensor \<Rightarrow> (string, live_tensor) dict \<Rightarrow> device_memory \<Rightarrow>
   device_memory \<times> int res" where
  "apply_packed_recovery_copies R dev copies slab destinations mem =
     (case replay_pack_layout R copies of
        Inl e \<Rightarrow> (mem, Inl e)
      | Inr (offsets, packed_bytes) \<Rightarrow>
          if lt_bytes slab < packed_bytes
          then (mem, Inl (RuntimeErr ''recovery replay peer receive slab is too small''))
          else foldl (apply_packed_step R dev slab destinations) (mem, Inr 0) (zip copies offsets))"

definition apply_step ::
  "torch \<Rightarrow> int \<Rightarrow> (source_key, live_tensor) dict \<Rightarrow> (string, live_tensor) dict \<Rightarrow> (source_key, int) dict \<Rightarrow>
   device_memory \<times> int res \<Rightarrow> recovery_copy \<Rightarrow> device_memory \<times> int res" where
  "apply_step R dev source_tensors destinations base_offsets s c =
     run_copy R dev s
       (bind_res (source_view R source_tensors base_offsets c) (\<lambda>source.
        bind_res (destination_view R destinations c) (\<lambda>destination.
        if tv_shape source \<noteq> tv_shape destination \<or> numel source \<noteq> numel destination
           \<or> numel destination * tv_size destination \<noteq> rc_copy_bytes c
        then Inl (RuntimeErr ''recovery replay copy metadata changed'')
        else Inr (destination, source))))
       (rc_copy_bytes c)"

definition apply_recovery_copies ::
  "torch \<Rightarrow> int \<Rightarrow> recovery_copy list \<Rightarrow> (source_key, live_tensor) dict \<Rightarrow> (string, live_tensor) dict \<Rightarrow>
   (source_key, int) dict \<Rightarrow> device_memory \<Rightarrow> device_memory \<times> int res" where
  "apply_recovery_copies R dev copies source_tensors destinations base_offsets mem =
     foldl (apply_step R dev source_tensors destinations base_offsets) (mem, Inr 0) copies"

definition pack_copy_step ::
  "torch \<Rightarrow> int \<Rightarrow> (source_key, live_tensor) dict \<Rightarrow> live_tensor \<Rightarrow> device_memory \<times> int res \<Rightarrow>
   recovery_copy \<times> int \<Rightarrow> device_memory \<times> int res" where
  "pack_copy_step R dev source_tensors slab s item =
     (case item of (c, offset) \<Rightarrow>
        run_copy R dev s
          (bind_res (source_view R source_tensors [] c) (\<lambda>source.
           bind_res (packed_view R slab c offset) (\<lambda>destination. Inr (destination, source)))) 0)"

definition pack_recovery_copies ::
  "torch \<Rightarrow> int \<Rightarrow> recovery_copy list \<Rightarrow> (source_key, live_tensor) dict \<Rightarrow> live_tensor \<Rightarrow> device_memory \<Rightarrow>
   device_memory \<times> int res" where
  "pack_recovery_copies R dev copies source_tensors slab mem =
     (case replay_pack_layout R copies of
        Inl e \<Rightarrow> (mem, Inl e)
      | Inr (offsets, packed_bytes) \<Rightarrow>
          if lt_bytes slab < packed_bytes
          then (mem, Inl (RuntimeErr ''recovery replay peer-pack slab is too small''))
          else (case foldl (pack_copy_step R dev source_tensors slab) (mem, Inr 0) (zip copies offsets) of
                  (mem1, r) \<Rightarrow> (mem1, bind_res r (\<lambda>_. Inr packed_bytes))))"

section \<open>Packed replay\<close>

definition packed_work_step ::
  "torch \<Rightarrow> int \<Rightarrow> recovery_copy list list \<times> recovery_copy list \<times> int \<Rightarrow> recovery_copy \<Rightarrow>
   (recovery_copy list list \<times> recovery_copy list \<times> int) res" where
  "packed_work_step R staging_bytes s c =
     (case s of (work, batch, batch_bytes) \<Rightarrow>
      bind_res (dtype_from_string R (rc_view_dtype c)) (\<lambda>element_size.
      let logical_bytes = element_size * prod_list (rc_view_shape c);
          aligned_start = (batch_bytes + element_size - 1) div element_size * element_size;
          (work, batch, aligned_start) =
            (if batch \<noteq> [] \<and> aligned_start + logical_bytes > staging_bytes
             then (work @ [batch], [], 0) else (work, batch, aligned_start)) in
      if logical_bytes > staging_bytes
      then Inl (RuntimeErr ''recovery packed source view exceeds staging budget'')
      else Inr (work, batch @ [c], aligned_start + logical_bytes)))"

definition group_copies :: "(recovery_copy \<Rightarrow> 'k) \<Rightarrow> recovery_copy list \<Rightarrow> ('k, recovery_copy list) dict" where
  "group_copies key copies =
     foldl (\<lambda>d c. dict_put (key c) ((case dict_get d (key c) of None \<Rightarrow> [] | Some cs \<Rightarrow> cs) @ [c]) d) [] copies"

definition path_work ::
  "torch \<Rightarrow> int \<Rightarrow> string \<times> recovery_copy list \<Rightarrow> (string \<times> recovery_copy list) list res" where
  "path_work R staging_bytes item =
     (case item of (path, rows) \<Rightarrow>
      bind_res (fold_res (packed_work_step R staging_bytes) ([], [], 0) (sort_key copy_order rows)) (\<lambda>(work, batch, _).
      Inr (map (Pair path) (work @ (if batch \<noteq> [] then [batch] else [])))))"

definition rank_local_packed_work ::
  "torch \<Rightarrow> recovery_copy list \<Rightarrow> int \<Rightarrow> (string \<times> recovery_copy list) list res" where
  "rank_local_packed_work R copies staging_bytes =
     bind_res (traverse (path_work R staging_bytes) (sort_key fst (group_copies rc_source_path copies)))
       (\<lambda>works. Inr (concat works))"

text \<open>The ranges of one copy, and their coalescing with those before.\<close>

definition native_extent_step ::
  "int \<Rightarrow> recovery_copy \<Rightarrow> hydration_extent list \<Rightarrow> packed_extent \<Rightarrow> hydration_extent list res" where
  "native_extent_step base c extents item =
     (if pe_file_offset item < rc_source_file_offset c
         \<or> pe_file_offset item + pe_length item > rc_source_file_offset c + rc_source_length c
      then Inl (RuntimeErr ''recovery packed source extent changed'')
      else bind_res (hydration_extent_init (plain_extent (pe_file_offset item) (base + pe_packed_offset item) (pe_length item)))
        (\<lambda>extent.
        if extents \<noteq> []
           \<and> he_file_offset (last extents) + he_length (last extents) = he_file_offset extent
           \<and> he_destination (last extents) + he_length (last extents) = he_destination extent
        then bind_res (hydration_extent_init (plain_extent (he_file_offset (last extents))
                 (he_destination (last extents)) (he_length (last extents) + he_length extent)))
               (\<lambda>e. Inr (butlast extents @ [e]))
        else Inr (extents @ [extent])))"

definition copy_extents_step ::
  "torch \<Rightarrow> int \<Rightarrow> hydration_extent list \<Rightarrow> recovery_copy \<times> int \<Rightarrow> hydration_extent list res" where
  "copy_extents_step R base extents item =
     (case item of (c, offset) \<Rightarrow>
      bind_res (packed_copy_extents R c offset) (\<lambda>items. fold_res (native_extent_step base c) extents items))"

definition packed_batch_step ::
  "torch \<Rightarrow> transport \<Rightarrow> native_library \<Rightarrow> int \<Rightarrow> int \<Rightarrow> int \<Rightarrow> (string, live_tensor) dict \<Rightarrow>
   (device_memory \<times> policy) \<times> int res \<Rightarrow> string \<times> recovery_copy list \<Rightarrow> (device_memory \<times> policy) \<times> int res" where
  "packed_batch_step R T lib dev base slab_bytes destinations s item =
     (case (s, item) of
        ((m, Inl e), _) \<Rightarrow> (m, Inl e)
      | ((m, Inr replayed), (path, copies)) \<Rightarrow>
          (case bind_res (replay_pack_layout R copies) (\<lambda>(offsets, packed_bytes).
                bind_res (fold_res (copy_extents_step R base) [] (zip copies offsets)) (\<lambda>extents.
                Inr (packed_bytes, extents))) of
             Inl e \<Rightarrow> (m, Inl e)
           | Inr (packed_bytes, extents) \<Rightarrow>
               (case native_hydrate_owned T lib path extents dev m of
                  (m1, Inl e) \<Rightarrow> (m1, Inl e)
                | ((mem1, policy1), Inr _) \<Rightarrow>
                    (case apply_packed_recovery_copies R dev copies
                            \<lparr>lt_pointer = base, lt_bytes = packed_bytes, lt_storage_pointer = base, lt_storage_bytes = slab_bytes\<rparr>
                            destinations mem1 of
                       (mem2, r) \<Rightarrow> ((mem2, policy1), bind_res r (\<lambda>n. Inr (replayed + n)))))))"

text \<open>
  The replay of one rank up to the status reduction. The outer result is what the rank raises
  before it would take part in the reduction, the inner one what it brings to it; \<open>alloc n\<close> is the
  address of the slab of \<open>n\<close> bytes.
\<close>

definition packed_replay_rank ::
  "torch \<Rightarrow> transport \<Rightarrow> native_library \<Rightarrow> int \<Rightarrow> (int \<Rightarrow> int) \<Rightarrow> recovery_copy list \<Rightarrow> (string, live_tensor) dict \<Rightarrow>
   device_memory \<times> policy \<Rightarrow> (device_memory \<times> policy) \<times> int res res" where
  "packed_replay_rank R T lib dev alloc copies destinations m =
     (case bind_res (rank_local_packed_work R copies (tp_staging_bytes T)) (\<lambda>work.
           if work = [] then Inl (RuntimeErr ''recovery rank-local packed replay has no source views'')
           else bind_res (traverse (\<lambda>(_, batch). replay_pack_layout R batch) work) (\<lambda>layouts.
             Inr (work, Max (set (map snd layouts))))) of
        Inl e \<Rightarrow> (m, Inl e)
      | Inr (work, largest) \<Rightarrow>
          (case foldl (packed_batch_step R T lib dev (alloc largest) largest destinations) (m, Inr 0) work of
             (m1, r) \<Rightarrow> (m1, Inr r)))"

section \<open>The replay of a group\<close>

text \<open>
  All ranks, each on its own device. A rank that raises before the status reduction does not take
  part in it; the others then wait there, which is \<^term>\<open>None\<close> in the result.
\<close>

record replay_rank =
  rr_alloc :: "int \<Rightarrow> int"
  rr_copies :: "recovery_copy list"
  rr_destinations :: "(string, live_tensor) dict"

definition replay_rank_step ::
  "torch \<Rightarrow> transport \<Rightarrow> native_library \<Rightarrow> device_memory \<times> policy list \<times> int res res list \<Rightarrow>
   int \<times> replay_rank \<times> policy \<Rightarrow> device_memory \<times> policy list \<times> int res res list" where
  "replay_rank_step R T lib s item =
     (case (s, item) of ((mem, policies, results), (rank, rr, policy)) \<Rightarrow>
        case packed_replay_rank R T lib rank (rr_alloc rr) (rr_copies rr) (rr_destinations rr) (mem, policy) of
          ((mem1, policy1), r) \<Rightarrow> (mem1, policies @ [policy1], results @ [r]))"

definition packed_replay ::
  "torch \<Rightarrow> transport \<Rightarrow> native_library \<Rightarrow> replay_rank list \<Rightarrow> device_memory \<times> policy list \<Rightarrow>
   (device_memory \<times> policy list) \<times> unit group_res" where
  "packed_replay R T lib ranks s =
     (case foldl (replay_rank_step R T lib) (fst s, [], []) (zip [0..int (world T) - 1] (zip ranks (snd s))) of
        (mem, policies, results) \<Rightarrow>
          ((mem, policies),
           if list_all (\<lambda>r. \<not> isl r) results
           then error_fence T ''a peer failed while reading packed recovery views'' (map (load_error \<circ> projr) results)
           else Inl (map load_error results)))"

section \<open>Strided views\<close>

text \<open>The elements of a strided view in row-major order, by their offsets.\<close>

fun view_offsets :: "int list \<Rightarrow> int list \<Rightarrow> int list" where
  "view_offsets (d # ds) (s # ss) = concat (map (\<lambda>i. map ((+) (i * s)) (view_offsets ds ss)) [0..d - 1])"
| "view_offsets _ _ = [0]"

lemma length_view_offsets:
  "length shape = length stride \<Longrightarrow> \<forall>d \<in> set shape. 0 \<le> d \<Longrightarrow> int (length (view_offsets shape stride)) = prod_list shape"
  by (induction shape stride rule: list_induct2) (auto simp: length_concat o_def sum_list_triv)

lemma concat_map_concat: "concat (map f (concat xss)) = concat (map (\<lambda>xs. concat (map f xs)) xss)"
  by (induction xss) auto

lemma view_offsets_append:
  "length p = length ps \<Longrightarrow>
   view_offsets (p @ q) (ps @ qs) = concat (map (\<lambda>a. map ((+) a) (view_offsets q qs)) (view_offsets p ps))"
proof (induction p ps rule: list_induct2)
  case (Cons d ds s ss)
  have "map ((+) (i * s)) (view_offsets (ds @ q) (ss @ qs)) =
      concat (map (\<lambda>a. map ((+) (i * s + a)) (view_offsets q qs)) (view_offsets ds ss))" for i
  proof -
    have "(+) (i * s + a) = (\<lambda>x. i * s + (a + x))" for a by (simp add: fun_eq_iff)
    then show ?thesis unfolding Cons.IH by (simp add: map_concat o_def)
  qed
  then show ?case by (simp add: concat_map_concat o_def)
next
  case Nil
  have "(+) (0 :: int) = id" by (simp add: fun_eq_iff)
  then show ?case by simp
qed

lemma nth_concat_blocks:
  assumes "\<forall>x \<in> set xs. length (f x) = n" "0 < n" "k div n < length xs"
  shows "concat (map f xs) ! k = f (xs ! (k div n)) ! (k mod n)"
  using assms
proof (induction xs arbitrary: k)
  case (Cons x xs)
  show ?case
  proof (cases "k < n")
    case False
    then have "k div n = Suc ((k - n) div n)" "k mod n = (k - n) mod n"
      using Cons.prems(2) by (simp_all add: le_div_geq le_mod_geq)
    with False Cons show ?thesis by (simp add: nth_append)
  qed (use Cons.prems in \<open>simp add: nth_append\<close>)
qed simp

lemma int_div_less_mult:
  assumes "(a :: int) < b * c" "0 < c"
  shows "a div c < b"
proof (rule ccontr)
  assume "\<not> a div c < b"
  then have "b * c \<le> a div c * c" using assms(2) by (simp add: mult_right_mono)
  also have "\<dots> \<le> a" using pos_mod_sign [OF assms(2), of a] div_mult_mod_eq [of a c] by linarith
  finally show False using assms(1) by simp
qed

text \<open>Row-major order by mixed-radix digits: the element at a linear index.\<close>

lemma view_offsets_nth:
  assumes "length p = length ps" "\<forall>d \<in> set p. 0 < d" "int k < prod_list p"
  shows "view_offsets p ps ! k = source_elements (int k) (rev (zip p ps))"
  using assms
proof (induction p arbitrary: ps k rule: rev_induct)
  case Nil
  then show ?case by simp
next
  case (snoc d p)
  from snoc.prems(1) obtain s ps' where ps: "ps = ps' @ [s]" "length p = length ps'"
    by (metis length_append_singleton length_Suc_conv_rev)
  have d: "0 < d" and pos: "\<forall>d \<in> set p. 0 < d" using snoc.prems(2) by auto
  define n where "n = nat d"
  have n: "int n = d" "0 < n" using d by (auto simp: n_def)
  let ?k = "k div n"
  have lt: "int ?k < prod_list p"
  proof -
    have "int k < prod_list p * d" using snoc.prems(3) by simp
    then have "int k div d < prod_list p" using d by (metis int_div_less_mult)
    then show ?thesis using n(1) by (simp add: zdiv_int)
  qed
  have inner: "map ((+) a) (view_offsets [d] [s]) = map (\<lambda>i. a + i * s) [0..d - 1]" for a
    by (simp add: concat_map_singleton o_def)
  have "view_offsets (p @ [d]) ps = concat (map (\<lambda>a. map (\<lambda>i. a + i * s) [0..d - 1]) (view_offsets p ps'))"
    unfolding ps(1) view_offsets_append [OF ps(2)] inner ..
  also have "\<dots> ! k = view_offsets p ps' ! ?k + int (k mod n) * s"
  proof (subst nth_concat_blocks [where n = n])
    have "\<forall>d \<in> set p. 0 \<le> d" using pos by auto
    then have "int (length (view_offsets p ps')) = prod_list p" by (rule length_view_offsets [OF ps(2)])
    with lt show "k div n < length (view_offsets p ps')" by linarith
  qed (use n in auto)
  also have "\<dots> = source_elements (int ?k) (rev (zip p ps')) + int (k mod n) * s"
    using snoc.IH [OF ps(2) pos lt] by simp
  finally show ?case using ps n(1) by (simp add: zdiv_int zmod_int)
qed

lemma concat_blocks_upto:
  assumes "0 < d" "0 < (e :: int)"
  shows "concat (map (\<lambda>i. map ((+) (i * e)) [0..e - 1]) [0..d - 1]) = [0..d * e - 1]"
proof (rule nth_equalityI)
  define n where "n = nat e"
  have n: "int n = e" "0 < n" using assms by (auto simp: n_def)
  show len: "length (concat (map (\<lambda>i. map ((+) (i * e)) [0..e - 1]) [0..d - 1])) = length [0..d * e - 1]"
    using assms by (simp add: length_concat o_def sum_list_triv nat_mult_distrib)
  fix k assume "k < length (concat (map (\<lambda>i. map ((+) (i * e)) [0..e - 1]) [0..d - 1]))"
  then have k: "int k < d * e" unfolding len using assms by simp
  then have lt: "int (k div n) < d" using int_div_less_mult [of "int k" d e] assms n(1) by (simp add: zdiv_int)
  then have "concat (map (\<lambda>i. map ((+) (i * e)) [0..e - 1]) [0..d - 1]) ! k = map ((+) (int (k div n) * e)) [0..e - 1] ! (k mod n)"
    using n by (subst nth_concat_blocks [where n = n]) auto
  also have "\<dots> = int (k div n) * e + int (k mod n)" using n by (simp flip: n(1))
  also have "\<dots> = int k" unfolding n(1) [symmetric] by (metis div_mult_mod_eq of_nat_add of_nat_mult)
  also have "\<dots> = [0..d * e - 1] ! k" using k by simp
  finally show "concat (map (\<lambda>i. map ((+) (i * e)) [0..e - 1]) [0..d - 1]) ! k = [0..d * e - 1] ! k" .
qed

lemma contiguous_suffix_ok:
  assumes "\<forall>x \<in> set xs. 0 < fst x" "length q = length qs" "0 < e"
    and "view_offsets q qs = [0..e - 1]" "e = prod_list q" "contiguous_suffix xs e = (n, e')"
  shows "n \<le> length xs \<and> 0 < e' \<and> e' = prod_list (map fst (rev (take n xs)) @ q)
    \<and> view_offsets (map fst (rev (take n xs)) @ q) (map snd (rev (take n xs)) @ qs) = [0..e' - 1]"
  using assms
proof (induction xs arbitrary: q qs e n)
  case (Cons x xs)
  obtain d s where x: "x = (d, s)" by fastforce
  have d: "0 < d" using Cons.prems(1) x by simp
  show ?case
  proof (cases "d = 1 \<or> s = e")
    case True
    define e1 where "e1 = (if d = 1 then e else e * d)"
    from True Cons.prems(6) obtain m where m: "contiguous_suffix xs e1 = (m, e')" "n = Suc m"
      by (auto simp: x e1_def split: if_splits prod.splits)
    have "view_offsets (d # q) (s # qs) = [0..e1 - 1]"
    proof (cases "d = 1")
      case True
      have "(+) (0 :: int) = id" by (simp add: fun_eq_iff)
      with True show ?thesis using Cons.prems(4) by (simp add: e1_def)
    next
      case False
      with True have "s = e" by simp
      with False show ?thesis
        using concat_blocks_upto [OF d Cons.prems(3)] Cons.prems(4) by (simp add: e1_def mult.commute)
    qed
    moreover have "e1 = prod_list (d # q)" using Cons.prems(5) by (simp add: e1_def)
    moreover have "0 < e1" using d Cons.prems(3) by (simp add: e1_def)
    ultimately show ?thesis
      using Cons.IH [of "d # q" "s # qs" e1 m] Cons.prems m by (simp add: x)
  qed (use Cons.prems in \<open>auto simp: x\<close>)
qed simp

definition view_ok :: "recovery_copy \<Rightarrow> bool" where
  "view_ok c \<longleftrightarrow> length (rc_view_shape c) = length (rc_view_stride c)
     \<and> (\<forall>d \<in> set (rc_view_shape c). 0 < d) \<and> (\<forall>s \<in> set (rc_view_stride c). 0 \<le> s)"

abbreviation copy_offsets :: "recovery_copy \<Rightarrow> int list" where
  "copy_offsets c \<equiv> view_offsets (rc_view_shape c) (rc_view_stride c)"

abbreviation outer_dimensions :: "recovery_copy \<Rightarrow> (int \<times> int) list" where
  "outer_dimensions c \<equiv> rev (zip (take (prefix_rank c) (rc_view_shape c)) (take (prefix_rank c) (rc_view_stride c)))"

lemma view_split:
  assumes "view_ok c"
  shows "0 < snd (view_suffix c)"
    and "snd (view_suffix c) = prod_list (drop (prefix_rank c) (rc_view_shape c))"
    and "copy_offsets c = concat (map (\<lambda>j. map ((+) (source_elements j (outer_dimensions c))) [0..snd (view_suffix c) - 1])
           [0..prod_list (take (prefix_rank c) (rc_view_shape c)) - 1])"
proof -
  let ?sh = "rc_view_shape c" and ?st = "rc_view_stride c" and ?p = "prefix_rank c"
  let ?xs = "rev (zip ?sh ?st)"
  have len: "length ?sh = length ?st" and pos: "\<forall>d \<in> set ?sh. 0 < d" using assms by (auto simp: view_ok_def)
  obtain n e where ne: "view_suffix c = (n, e)" by fastforce
  have "\<forall>x \<in> set ?xs. 0 < fst x" using pos by (auto elim: in_set_zipE)
  from contiguous_suffix_ok [OF this, of "[]" "[]" 1 n e] ne
  have suf: "n \<le> length ?sh" "0 < e" "e = prod_list (map fst (rev (take n ?xs)))"
    "view_offsets (map fst (rev (take n ?xs))) (map snd (rev (take n ?xs))) = [0..e - 1]"
    using len by (auto simp: view_suffix_def)
  have p: "?p = length ?sh - n" by (simp add: prefix_rank_def ne)
  have "rev (take n ?xs) = drop ?p (zip ?sh ?st)" using len p by (simp add: take_rev)
  then have drop: "map fst (rev (take n ?xs)) = drop ?p ?sh" "map snd (rev (take n ?xs)) = drop ?p ?st"
    using len by (simp_all add: drop_zip map_fst_zip map_snd_zip)
  show "0 < snd (view_suffix c)" "snd (view_suffix c) = prod_list (drop ?p ?sh)" using suf drop by (simp_all add: ne)
  have tp: "\<forall>d \<in> set (take ?p ?sh). 0 < d" using pos by (meson in_set_takeD)
  then have tn: "\<forall>d \<in> set (take ?p ?sh). 0 \<le> d" by auto
  have tl: "length (take ?p ?sh) = length (take ?p ?st)" using len by simp
  have outer: "view_offsets (take ?p ?sh) (take ?p ?st) =
      map (\<lambda>j. source_elements j (outer_dimensions c)) [0..prod_list (take ?p ?sh) - 1]"
  proof (rule nth_equalityI)
    show l: "length (view_offsets (take ?p ?sh) (take ?p ?st)) =
        length (map (\<lambda>j. source_elements j (outer_dimensions c)) [0..prod_list (take ?p ?sh) - 1])"
      using length_view_offsets [OF tl tn] by simp
    fix k assume "k < length (view_offsets (take ?p ?sh) (take ?p ?st))"
    then have "int k < prod_list (take ?p ?sh)" using length_view_offsets [OF tl tn] by simp
    then show "view_offsets (take ?p ?sh) (take ?p ?st) ! k =
        map (\<lambda>j. source_elements j (outer_dimensions c)) [0..prod_list (take ?p ?sh) - 1] ! k"
      using view_offsets_nth [OF tl tp, of k] nth_upto [of 0 k "prod_list (take ?p ?sh) - 1"] by simp
  qed
  have "copy_offsets c = view_offsets (take ?p ?sh @ drop ?p ?sh) (take ?p ?st @ drop ?p ?st)" by simp
  also have "\<dots> = concat (map (\<lambda>a. map ((+) a) [0..e - 1]) (view_offsets (take ?p ?sh) (take ?p ?st)))"
    unfolding view_offsets_append [OF tl] using suf(4) drop by simp
  finally show "copy_offsets c = concat (map (\<lambda>j. map ((+) (source_elements j (outer_dimensions c))) [0..snd (view_suffix c) - 1])
      [0..prod_list (take ?p ?sh) - 1])"
    unfolding outer by (simp add: ne o_def)
qed

section \<open>Packed reads move the view\<close>

text \<open>
  The moves of a view whose elements, in row-major order, go to consecutive places: \<open>view_moves f
  size offs dest\<close>.
\<close>

definition view_moves :: "int \<Rightarrow> int \<Rightarrow> int list \<Rightarrow> int \<Rightarrow> (int \<times> int) set" where
  "view_moves f element_size offs dest =
     (\<Union>k \<in> {..<length offs}. stretch (f + offs ! k * element_size) (dest + int k * element_size) element_size)"

definition packed_moves :: "packed_extent list \<Rightarrow> (int \<times> int) set" where
  "packed_moves es = (\<Union>e \<in> set es. stretch (pe_file_offset e) (pe_packed_offset e) (pe_length e))"

lemma view_moves_Nil [simp]: "view_moves f n [] dest = {}"
  by (simp add: view_moves_def)

lemma view_moves_snoc:
  "view_moves f n (xs @ [x]) dest = view_moves f n xs dest \<union> stretch (f + x * n) (dest + int (length xs) * n) n"
  by (simp add: view_moves_def lessThan_Suc nth_append Un_commute)

lemma view_moves_append:
  "view_moves f n (xs @ ys) dest = view_moves f n xs dest \<union> view_moves f n ys (dest + int (length xs) * n)"
proof (induction ys rule: rev_induct)
  case (snoc y ys)
  show ?case
    unfolding append_assoc [symmetric] view_moves_snoc snoc.IH by (simp add: algebra_simps Un_assoc)
qed simp

lemma view_moves_run:
  assumes "0 \<le> n" "0 \<le> e"
  shows "view_moves f n (map ((+) a) [0..e - 1]) dest = stretch (f + a * n) dest (e * n)"
proof -
  have "view_moves f n (map ((+) a) [0..int m - 1]) dest = stretch (f + a * n) dest (int m * n)" for m
  proof (induction m)
    case 0
    then show ?case by (simp add: stretch_def)
  next
    case (Suc m)
    have up: "[0..int (Suc m) - 1] = [0..int m - 1] @ [int m]" using upto_rec2 [of 0 "int m"] by simp
    have "stretch (f + a * n) dest (int (Suc m) * n) = stretch (f + a * n) dest (int m * n + n)"
      by (simp add: algebra_simps)
    also have "\<dots> = stretch (f + a * n) dest (int m * n) \<union> stretch (f + a * n + int m * n) (dest + int m * n) n"
      using assms(1) by (intro stretch_add) auto
    finally show ?case unfolding up map_append list.map view_moves_snoc Suc.IH by (simp add: distrib_right add.assoc)
  qed
  from this [of "nat e"] show ?thesis using assms(2) by simp
qed

lemma packed_moves_append [simp]: "packed_moves (xs @ ys) = packed_moves xs \<union> packed_moves ys"
  by (simp add: packed_moves_def)

lemma join_extent_ok:
  assumes "\<forall>e \<in> set es. 0 < pe_length e" "0 < pe_length x"
  shows "packed_moves (join_extent es x) = packed_moves es \<union> packed_moves [x]
    \<and> (\<forall>e \<in> set (join_extent es x). 0 < pe_length e)"
proof (cases "es = []")
  case False
  then obtain ys y where es: "es = ys @ [y]" by (metis append_butlast_last_id)
  have "0 < pe_length y" using assms(1) es by simp
  then show ?thesis
    using assms stretch_add [of "pe_length y" "pe_length x" "pe_file_offset y" "pe_packed_offset y"]
    by (auto simp: join_extent_def es packed_moves_def)
qed (use assms in \<open>simp add: join_extent_def packed_moves_def\<close>)

lemma packed_fold_ok:
  assumes n: "0 < n" and e: "0 < e"
    and item: "\<And>j. item j = \<lparr>pe_file_offset = f + g j * n, pe_packed_offset = dest + j * (e * n), pe_length = e * n\<rparr>"
  shows "packed_moves (foldl join_extent [] (map item [0..int m - 1])) =
      view_moves f n (concat (map (\<lambda>j. map ((+) (g j)) [0..e - 1]) [0..int m - 1])) dest
    \<and> (\<forall>x \<in> set (foldl join_extent [] (map item [0..int m - 1])). 0 < pe_length x)"
proof (induction m)
  case 0
  then show ?case by (simp add: packed_moves_def)
next
  case (Suc m)
  let ?xs = "foldl join_extent [] (map item [0..int m - 1])"
  let ?block = "\<lambda>j. map ((+) (g j)) [0..e - 1]"
  have up: "[0..int (Suc m) - 1] = [0..int m - 1] @ [int m]" using upto_rec2 [of 0 "int m"] by simp
  have len: "int (length (concat (map ?block [0..int m - 1]))) = int m * e"
    using e by (simp add: length_concat o_def sum_list_triv)
  have "0 < pe_length (item (int m))" using n e by (simp add: item)
  from join_extent_ok [OF _ this, of ?xs] Suc.IH
  have joined: "packed_moves (join_extent ?xs (item (int m))) = packed_moves ?xs \<union> packed_moves [item (int m)]"
    "\<forall>x \<in> set (join_extent ?xs (item (int m))). 0 < pe_length x" by auto
  have "view_moves f n (concat (map ?block ([0..int m - 1] @ [int m]))) dest =
      packed_moves ?xs \<union> stretch (f + g (int m) * n) (dest + int m * e * n) (e * n)"
    using n e Suc.IH by (simp add: view_moves_append len view_moves_run)
  also have "\<dots> = packed_moves (join_extent ?xs (item (int m)))"
    unfolding joined(1) by (simp add: packed_moves_def item mult.assoc)
  finally show ?case unfolding up using joined(2) by simp
qed

lemma prod_list_pos: "\<forall>d \<in> set ds. 0 < d \<Longrightarrow> 0 < (prod_list ds :: int)"
  by (induction ds) auto

lemma prod_list_nonneg: "\<forall>d \<in> set ds. 0 \<le> d \<Longrightarrow> 0 \<le> (prod_list ds :: int)"
  by (induction ds) auto

lemma packed_copy_extents_exact:
  assumes "view_ok c" "dtype_from_string R (rc_view_dtype c) = Inr n" "0 < n"
  shows "\<exists>xs. packed_copy_extents R c offset = Inr xs \<and> (\<forall>x \<in> set xs. 0 < pe_length x)
    \<and> packed_moves xs = view_moves (rc_source_file_offset c + rc_view_offset c) n (copy_offsets c) offset"
proof -
  let ?p = "prefix_rank c" and ?e = "snd (view_suffix c)"
  let ?count = "prod_list (take ?p (rc_view_shape c))"
  note split = view_split [OF assms(1)]
  have pos: "\<forall>d \<in> set (rc_view_shape c). 0 < d" using assms(1) by (simp add: view_ok_def)
  have "0 < ?count" by (rule prod_list_pos) (use pos in \<open>auto dest: in_set_takeD\<close>)
  then obtain m where m: "?count = int m" by (metis nonneg_int_cases less_imp_le)
  have geometry: "packed_copy_extent_geometry R c = Inr (?count, ?e, n)"
    using assms(1,2) by (auto simp: packed_copy_extent_geometry_def view_ok_def list_ex_iff)
  have "prod_list (rc_view_shape c) = prod_list (take ?p (rc_view_shape c) @ drop ?p (rc_view_shape c))" by simp
  then have total: "?count * (?e * n) = prod_list (rc_view_shape c) * n"
    unfolding prod_list.append split(2) by simp
  define item where "item j = \<lparr>pe_file_offset = rc_source_file_offset c + rc_view_offset c + source_elements j (outer_dimensions c) * n,
      pe_packed_offset = offset + j * (?e * n), pe_length = ?e * n\<rparr>" for j
  have "packed_copy_extents R c offset = Inr (foldl join_extent [] (map item [0..int m - 1]))"
    using total by (simp add: packed_copy_extents_def geometry Let_def m item_def [abs_def])
  with packed_fold_ok [OF assms(3) split(1), of item "rc_source_file_offset c + rc_view_offset c"
      "\<lambda>j. source_elements j (outer_dimensions c)" offset m]
  show ?thesis unfolding split(3) m by (auto simp: item_def)
qed

lemma packed_copy_extents_Inr:
  "packed_copy_extents R c offset = Inr xs \<Longrightarrow> view_ok c \<and> (\<exists>n. dtype_from_string R (rc_view_dtype c) = Inr n)"
  by (auto simp: packed_copy_extents_def packed_copy_extent_geometry_def view_ok_def list_ex_iff not_le not_less
      split: if_splits)

section \<open>The packed layout is aligned and disjoint\<close>

definition sizes_ok :: "torch \<Rightarrow> bool" where
  "sizes_ok R \<longleftrightarrow> (\<forall>name n. th_size R name = Some n \<longrightarrow> 0 < n)"

definition view_size :: "torch \<Rightarrow> recovery_copy \<Rightarrow> int" where
  "view_size R c = (case dtype_from_string R (rc_view_dtype c) of Inr n \<Rightarrow> n | Inl _ \<Rightarrow> 1)"

abbreviation view_bytes :: "torch \<Rightarrow> recovery_copy \<Rightarrow> int" where
  "view_bytes R c \<equiv> prod_list (rc_view_shape c) * view_size R c"

definition layout_ok :: "torch \<Rightarrow> recovery_copy list \<Rightarrow> int list \<times> int \<Rightarrow> bool" where
  "layout_ok R copies s \<longleftrightarrow> length (fst s) = length copies \<and> 0 \<le> snd s
     \<and> (\<forall>i < length copies. fst s ! i mod view_size R (copies ! i) = 0 \<and> 0 \<le> fst s ! i
          \<and> fst s ! i + view_bytes R (copies ! i) \<le> snd s
          \<and> (\<forall>j < i. fst s ! j + view_bytes R (copies ! j) \<le> fst s ! i))"

lemma view_size_pos: "sizes_ok R \<Longrightarrow> 0 < view_size R c"
  by (auto simp: view_size_def dtype_from_string_def sizes_ok_def split: sum.splits)

lemma round_up_ge:
  assumes "0 < (n :: int)"
  shows "x \<le> (x + n - 1) div n * n"
proof -
  have "(x + n - 1) div n * n = x + n - 1 - (x + n - 1) mod n" by (simp add: minus_mod_eq_div_mult)
  with pos_mod_bound [OF assms, of "x + n - 1"] show ?thesis by linarith
qed

lemma pack_step_ok:
  assumes "sizes_ok R" "layout_ok R copies s" "pack_step R s c = Inr t" "\<forall>d \<in> set (rc_view_shape c). 0 \<le> d"
  shows "layout_ok R (copies @ [c]) t"
proof -
  let ?n = "view_size R c"
  let ?start = "(snd s + ?n - 1) div ?n * ?n"
  have n: "0 < ?n" by (rule view_size_pos [OF assms(1)])
  have t: "t = (fst s @ [?start], ?start + view_bytes R c)"
    using assms(3) by (auto simp: pack_step_def view_size_def Let_def)
  have ge: "snd s \<le> ?start" by (rule round_up_ge [OF n])
  have b: "0 \<le> view_bytes R c" using n prod_list_nonneg [OF assms(4)] by simp
  show ?thesis
    using assms(2) ge b unfolding layout_ok_def t by (auto simp: nth_append less_Suc_eq)
qed

lemma replay_pack_layout_ok:
  assumes "sizes_ok R" "replay_pack_layout R copies = Inr s" "\<forall>c \<in> set copies. \<forall>d \<in> set (rc_view_shape c). 0 \<le> d"
  shows "layout_ok R copies s"
proof -
  have "(\<forall>c \<in> set ys. \<forall>d \<in> set (rc_view_shape c). 0 \<le> d) \<longrightarrow> layout_ok R ys s"
    if "fold_res (pack_step R) ([], 0) ys = Inr s" for ys s
    using that
  proof (induction ys arbitrary: s rule: rev_induct)
    case (snoc c ys)
    then show ?case by (auto simp: fold_res_append intro!: pack_step_ok [OF assms(1)])
  qed (auto simp: layout_ok_def)
  with assms(2,3) show ?thesis by (simp add: replay_pack_layout_def)
qed

section \<open>The ranges of a batch\<close>

definition shifted :: "int \<Rightarrow> (int \<times> int) set \<Rightarrow> (int \<times> int) set" where
  "shifted base M = (\<lambda>(f, a). (f, base + a)) ` M"

lemma shifted_empty [simp]: "shifted base {} = {}" by (simp add: shifted_def)

lemma shifted_Un [simp]: "shifted base (M \<union> N) = shifted base M \<union> shifted base N"
  by (simp add: shifted_def image_Un)

lemma mem_shifted: "(f, a) \<in> shifted base M \<longleftrightarrow> (f, a - base) \<in> M"
  by (force simp: shifted_def)

lemma shifted_stretch [simp]: "shifted base (stretch f p n) = stretch f (base + p) n"
  by (auto simp: set_eq_iff mem_shifted mem_stretch)

lemma shifted_view_moves [simp]: "shifted base (view_moves f n offs p) = view_moves f n offs (base + p)"
proof -
  have "shifted base (\<Union>k \<in> K. F k) = (\<Union>k \<in> K. shifted base (F k))" for K and F :: "nat \<Rightarrow> (int \<times> int) set"
    by (auto simp: shifted_def)
  then show ?thesis unfolding view_moves_def by (simp add: add.assoc)
qed

lemma packed_moves_Cons: "packed_moves (x # xs) = stretch (pe_file_offset x) (pe_packed_offset x) (pe_length x) \<union> packed_moves xs"
  by (simp add: packed_moves_def)

definition in_source :: "recovery_copy \<Rightarrow> packed_extent \<Rightarrow> bool" where
  "in_source c x \<longleftrightarrow> rc_source_file_offset c \<le> pe_file_offset x
     \<and> pe_file_offset x + pe_length x \<le> rc_source_file_offset c + rc_source_length c"

lemma native_extent_step_ok:
  assumes "0 \<le> rc_source_file_offset c" "0 < base" "0 \<le> pe_packed_offset x" "0 < pe_length x" "\<forall>e \<in> set es. extent_valid e"
  shows "if in_source c x
    then \<exists>es'. native_extent_step base c es x = Inr es' \<and> (\<forall>e \<in> set es'. extent_valid e)
      \<and> moved es' = moved es \<union> stretch (pe_file_offset x) (base + pe_packed_offset x) (pe_length x)
    else \<exists>e. native_extent_step base c es x = Inl e"
proof (cases "in_source c x")
  case True
  let ?x = "plain_extent (pe_file_offset x) (base + pe_packed_offset x) (pe_length x)"
  have init: "hydration_extent_init ?x = Inr ?x" using True assms by (intro plain_extent_init) (auto simp: in_source_def)
  have valid: "extent_valid ?x" using True assms by (simp add: extent_valid_def in_source_def)
  show ?thesis
  proof (cases "es \<noteq> [] \<and> he_file_offset (last es) + he_length (last es) = pe_file_offset x
      \<and> he_destination (last es) + he_length (last es) = base + pe_packed_offset x")
    case False
    with True init valid assms(5) show ?thesis
      by (auto simp: native_extent_step_def in_source_def)
  next
    case joined: True
    then obtain ys y where es: "es = ys @ [y]" by (metis append_butlast_last_id)
    have y: "extent_valid y" using assms(5) es by simp
    have "hydration_extent_init (plain_extent (he_file_offset y) (he_destination y) (he_length y + pe_length x)) =
        Inr (plain_extent (he_file_offset y) (he_destination y) (he_length y + pe_length x))"
      using y assms(4) by (intro plain_extent_init) (auto simp: extent_valid_def)
    moreover have "stretch (he_file_offset y) (he_destination y) (he_length y + pe_length x) =
        stretch (he_file_offset y) (he_destination y) (he_length y) \<union> stretch (pe_file_offset x) (base + pe_packed_offset x) (pe_length x)"
      using stretch_add [of "he_length y" "pe_length x" "he_file_offset y" "he_destination y"] y assms(4) joined es
      by (simp add: extent_valid_def)
    ultimately show ?thesis
      using True init joined y assms(4,5)
      by (auto simp: native_extent_step_def in_source_def es extent_valid_def)
  qed
qed (auto simp: native_extent_step_def in_source_def)

lemma native_fold_ok:
  assumes "0 \<le> rc_source_file_offset c" "0 < base" "\<forall>x \<in> set xs. 0 \<le> pe_packed_offset x \<and> 0 < pe_length x"
    and "\<forall>e \<in> set es. extent_valid e"
  shows "if \<forall>x \<in> set xs. in_source c x
    then \<exists>es'. fold_res (native_extent_step base c) es xs = Inr es' \<and> (\<forall>e \<in> set es'. extent_valid e)
      \<and> moved es' = moved es \<union> shifted base (packed_moves xs)
    else \<exists>e. fold_res (native_extent_step base c) es xs = Inl e"
  using assms(3,4)
proof (induction xs arbitrary: es)
  case Nil
  then show ?case by (simp add: packed_moves_def)
next
  case (Cons x xs)
  note step = native_extent_step_ok [OF assms(1,2), of x es]
  show ?case
  proof (cases "in_source c x")
    case True
    with step Cons.prems obtain es1 where es1: "native_extent_step base c es x = Inr es1" "\<forall>e \<in> set es1. extent_valid e"
      "moved es1 = moved es \<union> stretch (pe_file_offset x) (base + pe_packed_offset x) (pe_length x)" by auto
    have IH: "if \<forall>x \<in> set xs. in_source c x
      then \<exists>es'. fold_res (native_extent_step base c) es1 xs = Inr es' \<and> (\<forall>e \<in> set es'. extent_valid e)
        \<and> moved es' = moved es1 \<union> shifted base (packed_moves xs)
      else \<exists>e. fold_res (native_extent_step base c) es1 xs = Inl e"
      using Cons.IH [of es1] Cons.prems(1) es1(2) by simp
    show ?thesis
    proof (cases "\<forall>x \<in> set xs. in_source c x")
      case all: True
      with IH obtain es' where "fold_res (native_extent_step base c) es1 xs = Inr es'" "\<forall>e \<in> set es'. extent_valid e"
        "moved es' = moved es1 \<union> shifted base (packed_moves xs)" by auto
      with es1 True all show ?thesis by (simp add: packed_moves_Cons Un_assoc)
    next
      case False
      with IH es1(1) show ?thesis by auto
    qed
  next
    case False
    with step Cons.prems show ?thesis by auto
  qed
qed

abbreviation copy_moves :: "torch \<Rightarrow> recovery_copy \<Rightarrow> int \<Rightarrow> (int \<times> int) set" where
  "copy_moves R c dest \<equiv> view_moves (rc_source_file_offset c + rc_view_offset c) (view_size R c) (copy_offsets c) dest"

text \<open>A copy whose view has a known dtype and lies inside its source tensor.\<close>

definition copy_inside :: "torch \<Rightarrow> recovery_copy \<Rightarrow> bool" where
  "copy_inside R c \<longleftrightarrow> view_ok c \<and> \<not> isl (dtype_from_string R (rc_view_dtype c))
     \<and> fst ` copy_moves R c 0 \<subseteq> {rc_source_file_offset c..<rc_source_file_offset c + rc_source_length c}"

lemma fst_view_moves: "fst ` view_moves f n offs p = fst ` view_moves f n offs q"
proof -
  have "fst ` view_moves f n offs p \<subseteq> fst ` view_moves f n offs q" for p q
  proof
    fix g assume "g \<in> fst ` view_moves f n offs p"
    then obtain a where "(g, a) \<in> view_moves f n offs p" by force
    then have "(g, a - p + q) \<in> view_moves f n offs q" by (force simp: view_moves_def mem_stretch)
    then show "g \<in> fst ` view_moves f n offs q" by force
  qed
  then show ?thesis by blast
qed

lemma in_source_iff:
  assumes "\<forall>x \<in> set xs. 0 < pe_length x"
  shows "(\<forall>x \<in> set xs. in_source c x) \<longleftrightarrow>
    fst ` packed_moves xs \<subseteq> {rc_source_file_offset c..<rc_source_file_offset c + rc_source_length c}" (is "?l = (_ \<subseteq> ?S)")
proof
  assume ?l
  then show "fst ` packed_moves xs \<subseteq> ?S" by (force simp: packed_moves_def in_source_def mem_stretch)
next
  assume sub: "fst ` packed_moves xs \<subseteq> ?S"
  show ?l
  proof
    fix x assume x: "x \<in> set xs"
    with assms have "(pe_file_offset x, pe_packed_offset x) \<in> packed_moves xs"
      "(pe_file_offset x + pe_length x - 1, pe_packed_offset x + pe_length x - 1) \<in> packed_moves xs"
      by (auto simp: packed_moves_def mem_stretch intro!: bexI [of _ x])
    then have "pe_file_offset x \<in> ?S" "pe_file_offset x + pe_length x - 1 \<in> ?S" using sub by force+
    then show "in_source c x" by (simp add: in_source_def)
  qed
qed

lemma copy_extents_step_ok:
  assumes "sizes_ok R" "0 \<le> rc_source_file_offset c" "0 < base" "0 \<le> offset" "\<forall>e \<in> set es. extent_valid e"
  shows "if copy_inside R c
    then \<exists>es'. copy_extents_step R base es (c, offset) = Inr es' \<and> (\<forall>e \<in> set es'. extent_valid e)
      \<and> moved es' = moved es \<union> copy_moves R c (base + offset)
    else \<exists>e. copy_extents_step R base es (c, offset) = Inl e"
proof (cases "view_ok c \<and> \<not> isl (dtype_from_string R (rc_view_dtype c))")
  case True
  then have "dtype_from_string R (rc_view_dtype c) = Inr (view_size R c)"
    by (auto simp: view_size_def split: sum.splits)
  from packed_copy_extents_exact [OF _ this view_size_pos [OF assms(1)]] True obtain xs where
    xs: "packed_copy_extents R c offset = Inr xs" "\<forall>x \<in> set xs. 0 < pe_length x" "packed_moves xs = copy_moves R c offset" by blast
  have inside: "copy_inside R c \<longleftrightarrow> (\<forall>x \<in> set xs. in_source c x)"
    unfolding in_source_iff [OF xs(2)] xs(3) fst_view_moves [of _ _ _ offset 0] using True by (simp add: copy_inside_def)
  have "0 \<le> pe_packed_offset x" if "x \<in> set xs" for x
  proof -
    have "(pe_file_offset x, pe_packed_offset x) \<in> copy_moves R c offset"
      using that xs(2) unfolding xs(3) [symmetric] packed_moves_def by (force simp: mem_stretch)
    then obtain k where "offset + int k * view_size R c \<le> pe_packed_offset x"
      by (auto simp: view_moves_def mem_stretch)
    moreover have "0 \<le> int k * view_size R c" using view_size_pos [OF assms(1), of c] by simp
    ultimately show ?thesis using assms(4) by linarith
  qed
  then have "\<forall>x \<in> set xs. 0 \<le> pe_packed_offset x \<and> 0 < pe_length x" using xs(2) by blast
  from native_fold_ok [OF assms(2,3) this assms(5)] show ?thesis
    unfolding inside by (auto simp: copy_extents_step_def xs(1) xs(3) split: if_splits)
next
  case False
  then have "\<exists>e. packed_copy_extents R c offset = Inl e"
    using packed_copy_extents_Inr [of R c offset] by (cases "packed_copy_extents R c offset") auto
  with False show ?thesis by (auto simp: copy_extents_step_def copy_inside_def)
qed

lemma batch_extents_ok:
  assumes "sizes_ok R" "0 < base" "\<forall>(c, offset) \<in> set items. 0 \<le> rc_source_file_offset c \<and> 0 \<le> offset"
    and "\<forall>e \<in> set es. extent_valid e"
  shows "if \<forall>(c, _) \<in> set items. copy_inside R c
    then \<exists>es'. fold_res (copy_extents_step R base) es items = Inr es' \<and> (\<forall>e \<in> set es'. extent_valid e)
      \<and> moved es' = moved es \<union> (\<Union>(c, offset) \<in> set items. copy_moves R c (base + offset))
    else \<exists>e. fold_res (copy_extents_step R base) es items = Inl e"
  using assms(3,4)
proof (induction items arbitrary: es)
  case (Cons item items)
  obtain c offset where item: "item = (c, offset)" by fastforce
  note step = copy_extents_step_ok [OF assms(1) _ assms(2), of c offset es]
  show ?case
  proof (cases "copy_inside R c")
    case True
    with step Cons.prems item obtain es1 where es1: "copy_extents_step R base es item = Inr es1" "\<forall>e \<in> set es1. extent_valid e"
      "moved es1 = moved es \<union> copy_moves R c (base + offset)" by auto
    note IH = Cons.IH [OF _ es1(2)]
    show ?thesis
    proof (cases "\<forall>(c, _) \<in> set items. copy_inside R c")
      case all: True
      with IH Cons.prems obtain es' where "fold_res (copy_extents_step R base) es1 items = Inr es'" "\<forall>e \<in> set es'. extent_valid e"
        "moved es' = moved es1 \<union> (\<Union>(c, offset) \<in> set items. copy_moves R c (base + offset))" by auto
      with es1 True all item show ?thesis by (simp add: Un_assoc)
    next
      case False
      with IH Cons.prems have "\<exists>e. fold_res (copy_extents_step R base) es1 items = Inl e" by auto
      with False es1(1) show ?thesis by auto
    qed
  next
    case False
    with step Cons.prems item show ?thesis by auto
  qed
qed simp

section \<open>What lies in the slab after the reads\<close>

lemma mem_view_moves:
  assumes "0 < n"
  shows "(f, a) \<in> view_moves F n offs d \<longleftrightarrow>
    d \<le> a \<and> a < d + int (length offs) * n \<and> f = F + offs ! nat ((a - d) div n) * n + (a - d) mod n"
proof
  assume "(f, a) \<in> view_moves F n offs d"
  then obtain k where k: "k < length offs" "f - (F + offs ! k * n) = a - (d + int k * n)" "d + int k * n \<le> a" "a < d + int k * n + n"
    by (auto simp: view_moves_def mem_stretch)
  define i where "i = a - d - int k * n"
  have i: "a - d = i + int k * n" "0 \<le> i" "i < n" using k by (auto simp: i_def)
  have q: "(a - d) div n = int k" "(a - d) mod n = i" unfolding i(1) using i(2,3) by (auto simp: div_pos_pos_trivial)
  have "int k * n + n \<le> int (length offs) * n" using k(1) assms by (metis Suc_leI distrib_right mult_1 mult_right_mono of_nat_Suc of_nat_le_iff add.commute less_imp_le)
  moreover have "0 \<le> int k * n" using assms by simp
  ultimately have "d \<le> a" "a < d + int (length offs) * n" "f = F + offs ! k * n + i" using k(2) i by linarith+
  then show "d \<le> a \<and> a < d + int (length offs) * n \<and> f = F + offs ! nat ((a - d) div n) * n + (a - d) mod n"
    unfolding q by simp
next
  assume r: "d \<le> a \<and> a < d + int (length offs) * n \<and> f = F + offs ! nat ((a - d) div n) * n + (a - d) mod n"
  define k where "k = nat ((a - d) div n)"
  have "int k = (a - d) div n" using r assms by (simp add: k_def pos_imp_zdiv_nonneg_iff)
  then have k: "int k * n + (a - d) mod n = a - d" by (simp add: div_mult_mod_eq)
  have "int k < int (length offs)" using r int_div_less_mult [of "a - d" "int (length offs)" n] assms \<open>int k = _\<close> by simp
  then show "(f, a) \<in> view_moves F n offs d"
    using r k pos_mod_bound [OF assms, of "a - d"] pos_mod_sign [OF assms, of "a - d"]
    by (auto simp: view_moves_def mem_stretch k_def [symmetric] intro!: bexI [of _ k])
qed

lemma copy_offsets_length: "view_ok c \<Longrightarrow> int (length (copy_offsets c)) = prod_list (rc_view_shape c)"
  unfolding view_ok_def by (rule length_view_offsets) auto

lemma copy_moves_address:
  assumes "sizes_ok R" "view_ok c" "(f, a) \<in> copy_moves R c dest"
  shows "dest \<le> a \<and> a < dest + view_bytes R c"
  using assms mem_view_moves [OF view_size_pos [OF assms(1), of c]] copy_offsets_length [OF assms(2)] by auto

lemma batch_separate:
  assumes "sizes_ok R" "layout_ok R copies (offs, packed)" "\<forall>c \<in> set copies. view_ok c"
  shows "separate (\<Union>(c, offset) \<in> set (zip copies offs). copy_moves R c (base + offset))"
proof -
  have len: "length offs = length copies" using assms(2) by (simp add: layout_ok_def)
  have "f = g" if ij: "i < length copies" "j < length copies" "(f, a) \<in> copy_moves R (copies ! i) (base + offs ! i)"
    "(g, a) \<in> copy_moves R (copies ! j) (base + offs ! j)" for i j f g a
  proof -
    have "base + offs ! i \<le> a" "a < base + offs ! i + view_bytes R (copies ! i)"
      "base + offs ! j \<le> a" "a < base + offs ! j + view_bytes R (copies ! j)"
      using copy_moves_address [OF assms(1) _ ij(3)] copy_moves_address [OF assms(1) _ ij(4)] ij(1,2) assms(3) by simp_all
    moreover have "offs ! i + view_bytes R (copies ! i) \<le> offs ! j" if "i < j" using that assms(2) ij by (simp add: layout_ok_def)
    moreover have "offs ! j + view_bytes R (copies ! j) \<le> offs ! i" if "j < i" using that assms(2) ij by (simp add: layout_ok_def)
    ultimately have "i = j" by (cases i j rule: linorder_cases) auto
    then show ?thesis using ij(3,4) mem_view_moves [OF view_size_pos [OF assms(1)]] by auto
  qed
  then show ?thesis using len unfolding separate_def by (auto simp: set_zip)
qed

text \<open>The elements of a view, as they stand in the file.\<close>

definition file_elements :: "torch \<Rightarrow> byte list \<Rightarrow> recovery_copy \<Rightarrow> byte list list" where
  "file_elements R file c =
     map (\<lambda>off. read_at file (nat (rc_source_file_offset c + rc_view_offset c + off * view_size R c)) (nat (view_size R c)))
       (copy_offsets c)"

definition source_in_file :: "byte list \<Rightarrow> recovery_copy \<Rightarrow> bool" where
  "source_in_file file c \<longleftrightarrow> 0 \<le> rc_source_file_offset c \<and> rc_source_file_offset c + rc_source_length c \<le> int (length file)"

lemma delivered_element:
  assumes "sizes_ok R" "copy_inside R c" "source_in_file file c" "k < length (copy_offsets c)"
    and "\<forall>(f, a) \<in> copy_moves R c dest. mem dev a = file ! nat f"
  shows "read_mem mem dev (dest + int k * view_size R c) (nat (view_size R c)) = file_elements R file c ! k"
proof -
  let ?n = "view_size R c" and ?f = "rc_source_file_offset c + rc_view_offset c + copy_offsets c ! k * view_size R c"
  have n: "0 < ?n" by (rule view_size_pos [OF assms(1)])
  have m: "(?f + int i, dest + int k * ?n + int i) \<in> copy_moves R c dest" if "i < nat ?n" for i
    using assms(4) that n by (auto simp: view_moves_def mem_stretch intro!: bexI [of _ k])
  have inside: "rc_source_file_offset c \<le> ?f + int i \<and> ?f + int i < rc_source_file_offset c + rc_source_length c" if "i < nat ?n" for i
  proof -
    have "?f + int i \<in> fst ` copy_moves R c dest" using m [OF that] by force
    then show ?thesis using assms(2) unfolding copy_inside_def fst_view_moves [of _ _ _ dest 0] by auto
  qed
  have le: "0 \<le> ?f" "?f + ?n \<le> int (length file)"
    using inside [of 0] inside [of "nat ?n - 1"] n assms(3) by (auto simp: source_in_file_def)
  show ?thesis
  proof (rule nth_equalityI)
    show "length (read_mem mem dev (dest + int k * ?n) (nat ?n)) = length (file_elements R file c ! k)"
      using assms(4) le n by (simp add: file_elements_def read_at_def)
    fix i assume "i < length (read_mem mem dev (dest + int k * ?n) (nat ?n))"
    then have i: "i < nat ?n" by simp
    have "mem dev (dest + int k * ?n + int i) = file ! nat (?f + int i)" using assms(5) m [OF i] by auto
    also have "nat (?f + int i) = nat ?f + i" using le(1) by simp
    finally show "read_mem mem dev (dest + int k * ?n) (nat ?n) ! i = file_elements R file c ! k ! i"
      using i assms(4) le by (simp add: read_mem_def file_elements_def read_at_def)
  qed
qed

section \<open>Views in memory\<close>

definition view_addresses :: "typed_view \<Rightarrow> int list" where
  "view_addresses v = map (\<lambda>off. tv_address v + off * tv_size v) (view_offsets (tv_shape v) (tv_stride v))"

definition footprint :: "typed_view \<Rightarrow> int set" where
  "footprint v = (\<Union>a \<in> set (view_addresses v). {a..<a + tv_size v})"

definition read_view :: "int \<Rightarrow> typed_view \<Rightarrow> device_memory \<Rightarrow> byte list list" where
  "read_view dev v mem = map (\<lambda>a. read_mem mem dev a (nat (tv_size v))) (view_addresses v)"

definition write_view :: "int \<Rightarrow> typed_view \<Rightarrow> byte list list \<Rightarrow> device_memory \<Rightarrow> device_memory" where
  "write_view dev v elements mem = foldl (\<lambda>m (a, bs). write_mem m dev a bs) mem (zip (view_addresses v) elements)"

text \<open>
  What replay relies on in torch: a copy between views of equal shape that share no byte either
  raises, or writes each element of the source, converted between the dtypes, to its place in the
  destination. A converted element has the size of its dtype.
\<close>

definition copies_views :: "torch \<Rightarrow> (string \<Rightarrow> string \<Rightarrow> byte list \<Rightarrow> byte list) \<Rightarrow> bool" where
  "copies_views R conv \<longleftrightarrow> sizes_ok R
     \<and> (\<forall>source dtype n bs. dtype_from_string R dtype = Inr n \<longrightarrow> length (conv source dtype bs) = nat n)
     \<and> (\<forall>dst src dev mem mem'. tv_shape dst = tv_shape src \<and> footprint dst \<inter> footprint src = {}
          \<and> th_copy R dst src dev mem = (mem', Inr ()) \<longrightarrow>
          mem' = write_view dev dst (map (conv (tv_dtype src) (tv_dtype dst)) (read_view dev src mem)) mem)"

definition agree_outside :: "int \<Rightarrow> int set \<Rightarrow> device_memory \<Rightarrow> device_memory \<Rightarrow> bool" where
  "agree_outside dev S m m' \<longleftrightarrow> (\<forall>d a. d \<noteq> dev \<or> a \<notin> S \<longrightarrow> m d a = m' d a)"

lemma agree_outside_refl [simp]: "agree_outside dev S m m"
  by (simp add: agree_outside_def)

lemma agree_outside_trans: "agree_outside dev S m m' \<Longrightarrow> agree_outside dev S m' m'' \<Longrightarrow> agree_outside dev S m m''"
  by (simp add: agree_outside_def)

lemma write_view_outside:
  assumes "\<forall>bs \<in> set elements. length bs = nat (tv_size v)" "0 \<le> tv_size v" "a \<notin> footprint v"
  shows "write_view dev v elements mem d a = mem d a"
proof -
  have "foldl (\<lambda>m (a, bs). write_mem m dev a bs) mem zs d a = mem d a"
    if "\<forall>(b, bs) \<in> set zs. length bs = nat (tv_size v) \<and> b \<in> set (view_addresses v)" for zs
    using that assms(2,3)
    by (induction zs arbitrary: mem) (force simp: write_mem_def footprint_def)+
  from this [of "zip (view_addresses v) elements"] show ?thesis
    using assms(1) unfolding write_view_def by (auto dest: set_zip_leftD set_zip_rightD)
qed

lemma write_view_agree_outside:
  "agree_outside dev S m m' \<Longrightarrow> agree_outside dev S (write_view dev v elements m) (write_view dev v elements m')"
proof -
  have "agree_outside dev S m m' \<Longrightarrow> agree_outside dev S (foldl (\<lambda>m (a, bs). write_mem m dev a bs) m zs) (foldl (\<lambda>m (a, bs). write_mem m dev a bs) m' zs)" for zs
    by (induction zs arbitrary: m m') (auto simp: agree_outside_def write_mem_def)
  then show "agree_outside dev S m m' \<Longrightarrow> ?thesis" by (simp add: write_view_def)
qed

lemma typed_storage_view_Inr:
  assumes "typed_storage_view R tensor offset dtype shape stride = Inr v"
  shows "tv_dtype v = dtype \<and> tv_shape v = shape \<and> tv_stride v = stride \<and> dtype_from_string R dtype = Inr (tv_size v)
    \<and> tv_address v = lt_pointer tensor + offset \<and> 0 \<le> offset
    \<and> offset + span_elements shape stride * tv_size v \<le> lt_bytes tensor"
proof -
  from assms obtain n where n: "dtype_from_string R dtype = Inr n" by (auto simp: typed_storage_view_def)
  let ?off = "lt_pointer tensor - lt_storage_pointer tensor + offset"
  have "?off mod n = 0" using assms n by (auto simp: typed_storage_view_def Let_def split: if_splits)
  then have "?off div n * n = ?off" by (metis add.right_neutral div_mult_mod_eq)
  with assms n show ?thesis by (auto simp: typed_storage_view_def Let_def split: if_splits)
qed

lemma contiguous_stride_Cons: "contiguous_stride (d # ds) = prod_list ds # contiguous_stride ds"
proof -
  have "fst (foldr (\<lambda>d (running, stride). (running * d, running # stride)) ds (1, [])) = prod_list ds"
    by (induction ds) (auto simp: case_prod_beta)
  then show ?thesis by (simp add: contiguous_stride_def case_prod_beta)
qed

lemma contiguous_offsets:
  "\<forall>d \<in> set shape. 0 < d \<Longrightarrow> view_offsets shape (contiguous_stride shape) = [0..prod_list shape - 1]"
proof (induction shape)
  case (Cons d ds)
  then have "view_offsets ds (contiguous_stride ds) = [0..prod_list ds - 1]" "0 < prod_list ds" "0 < d"
    by (auto intro: prod_list_pos)
  then show ?case using concat_blocks_upto [of d "prod_list ds"] by (simp add: contiguous_stride_Cons)
qed simp

text \<open>The contiguous view of a copy in the slab reads the elements of the file.\<close>

lemma packed_view_reads:
  assumes R: "sizes_ok R" and c: "copy_inside R c" "source_in_file file c"
    and slab: "lt_pointer slab = base" "packed_view R slab c offset = Inr v"
    and mem: "\<forall>(f, a) \<in> copy_moves R c (base + offset). mem dev a = file ! nat f"
  shows "read_view dev v mem = file_elements R file c"
    and "footprint v \<subseteq> {base + offset..<base + offset + view_bytes R c}"
proof -
  have v: "tv_shape v = rc_view_shape c" "tv_stride v = contiguous_stride (rc_view_shape c)"
    "tv_address v = base + offset" "tv_size v = view_size R c"
    using typed_storage_view_Inr [OF slab(2) [unfolded packed_view_def]] slab(1)
    by (auto simp: view_size_def)
  have ok: "view_ok c" using c(1) by (simp add: copy_inside_def)
  then have pos: "\<forall>d \<in> set (rc_view_shape c). 0 < d" by (simp add: view_ok_def)
  have n: "0 < view_size R c" by (rule view_size_pos [OF R])
  have len: "int (length (copy_offsets c)) = prod_list (rc_view_shape c)" by (rule copy_offsets_length [OF ok])
  have addr: "view_addresses v = map (\<lambda>k. base + offset + k * view_size R c) [0..prod_list (rc_view_shape c) - 1]"
    by (simp add: view_addresses_def v contiguous_offsets [OF pos])
  show "read_view dev v mem = file_elements R file c"
  proof (rule nth_equalityI)
    show l: "length (read_view dev v mem) = length (file_elements R file c)"
      using len by (simp add: read_view_def addr file_elements_def)
    fix k assume "k < length (read_view dev v mem)"
    then have k: "k < length (copy_offsets c)" using l by (simp add: file_elements_def)
    then have "int k < prod_list (rc_view_shape c)" using len by linarith
    then show "read_view dev v mem ! k = file_elements R file c ! k"
      using delivered_element [OF R c k, of "base + offset" mem dev] mem nth_upto [of 0 k "prod_list (rc_view_shape c) - 1"]
      by (simp add: read_view_def addr v)
  qed
  show "footprint v \<subseteq> {base + offset..<base + offset + view_bytes R c}"
  proof
    fix a assume "a \<in> footprint v"
    then obtain k where k: "0 \<le> k" "k < prod_list (rc_view_shape c)" "base + offset + k * view_size R c \<le> a"
      "a < base + offset + k * view_size R c + view_size R c"
      by (auto simp: footprint_def addr v)
    have "(k + 1) * view_size R c \<le> view_bytes R c" using k(2) n by (intro mult_right_mono) auto
    moreover have "0 \<le> k * view_size R c" using k(1) n by simp
    ultimately show "a \<in> {base + offset..<base + offset + view_bytes R c}" using k(3,4) by (simp add: distrib_right)
  qed
qed

section \<open>Replay is a copy from the file\<close>

text \<open>
  The specification of one copy: the elements of the view in the checkpoint file, converted, go to
  the destination view; nothing else changes.
\<close>

definition placed ::
  "torch \<Rightarrow> (string \<Rightarrow> string \<Rightarrow> byte list \<Rightarrow> byte list) \<Rightarrow> (string \<Rightarrow> byte list) \<Rightarrow> int \<Rightarrow> (string, live_tensor) dict \<Rightarrow>
   device_memory \<Rightarrow> recovery_copy \<Rightarrow> device_memory" where
  "placed R conv files dev destinations mem c =
     (case destination_view R destinations c of
        Inl _ \<Rightarrow> mem
      | Inr v \<Rightarrow> write_view dev v (map (conv (rc_view_dtype c) (rc_destination_dtype c))
                   (file_elements R (files (rc_source_path c)) c)) mem)"

text \<open>Destinations keep clear of the slab.\<close>

definition clear_of :: "torch \<Rightarrow> (string, live_tensor) dict \<Rightarrow> int set \<Rightarrow> recovery_copy \<Rightarrow> bool" where
  "clear_of R destinations S c \<longleftrightarrow>
     (case destination_view R destinations c of Inl _ \<Rightarrow> True | Inr v \<Rightarrow> footprint v \<inter> S = {})"

lemma run_copy_Inr:
  "run_copy R dev s views n = (mem', Inr t) \<longleftrightarrow>
     (\<exists>mem r dst src. s = (mem, Inr r) \<and> views = Inr (dst, src) \<and> th_copy R dst src dev mem = (mem', Inr ()) \<and> t = r + n)"
  by (auto simp: run_copy_def split: prod.splits sum.splits)

lemma destination_view_facts:
  assumes "copies_views R conv" "destination_view R destinations c = Inr v"
  shows "0 < tv_size v" "tv_dtype v = rc_destination_dtype c"
    "length (conv source (rc_destination_dtype c) bs) = nat (tv_size v)"
proof -
  from assms(2) obtain t where "typed_storage_view R t (rc_destination_offset c) (rc_destination_dtype c)
      (rc_destination_view_shape c) (rc_destination_view_stride c) = Inr v" by (auto simp: destination_view_def)
  from typed_storage_view_Inr [OF this] have d: "dtype_from_string R (rc_destination_dtype c) = Inr (tv_size v)"
    and "tv_dtype v = rc_destination_dtype c" by auto
  then show "tv_dtype v = rc_destination_dtype c" by simp
  show "0 < tv_size v" using d assms(1) by (auto simp: copies_views_def sizes_ok_def dtype_from_string_def split: if_splits)
  show "length (conv source (rc_destination_dtype c) bs) = nat (tv_size v)" using d assms(1) by (simp add: copies_views_def)
qed

lemma apply_packed_step_exact:
  assumes R: "copies_views R conv" and c: "copy_inside R c" "source_in_file (files (rc_source_path c)) c"
    and slab: "lt_pointer slab = base" "{base + offset..<base + offset + view_bytes R c} \<subseteq> S" "clear_of R destinations S c"
    and mem: "\<forall>(f, a) \<in> copy_moves R c (base + offset). mem dev a = files (rc_source_path c) ! nat f"
    and run: "apply_packed_step R dev slab destinations (mem, Inr r) (c, offset) = (mem', Inr t)"
  shows "mem' = placed R conv files dev destinations mem c \<and> (\<forall>a \<in> S. mem' dev a = mem dev a) \<and> t = r + rc_copy_bytes c"
proof -
  have sizes: "sizes_ok R" using R by (simp add: copies_views_def)
  from run obtain src dst where views: "packed_view R slab c offset = Inr src" "destination_view R destinations c = Inr dst"
    "tv_shape src = tv_shape dst" and copy: "th_copy R dst src dev mem = (mem', Inr ())" and t: "t = r + rc_copy_bytes c"
    by (auto simp: apply_packed_step_def run_copy_Inr split: if_splits)
  note src = packed_view_reads [OF sizes c slab(1) views(1), of mem dev] 
  have "tv_dtype src = rc_view_dtype c"
    using typed_storage_view_Inr [OF views(1) [unfolded packed_view_def]] by simp
  note dst = destination_view_facts [OF R views(2)]
  have clear: "footprint dst \<inter> S = {}" using slab(3) views(2) by (simp add: clear_of_def)
  have "footprint dst \<inter> footprint src = {}" using clear src(2) [OF mem] slab(2) by blast
  with R copy views(3) have m': "mem' = write_view dev dst (map (conv (tv_dtype src) (tv_dtype dst)) (read_view dev src mem)) mem"
    unfolding copies_views_def by metis
  also have "\<dots> = placed R conv files dev destinations mem c"
    using src(1) [OF mem] views(2) dst(2) \<open>tv_dtype src = _\<close> by (simp add: placed_def)
  finally have "mem' = placed R conv files dev destinations mem c" .
  moreover have "mem' dev a = mem dev a" if "a \<in> S" for a
    unfolding m' using that clear dst by (intro write_view_outside) auto
  ultimately show ?thesis using t by blast
qed

lemma apply_packed_fold_Inl: "foldl (apply_packed_step R dev slab destinations) (mem, Inl e) items = (mem, Inl e)"
  by (induction items) (auto simp: apply_packed_step_def run_copy_def split: prod.splits)

text \<open>A copy whose bytes lie in the slab \<open>S\<close> at an offset, with a destination outside.\<close>

definition ready ::
  "torch \<Rightarrow> (string \<Rightarrow> byte list) \<Rightarrow> int \<Rightarrow> (string, live_tensor) dict \<Rightarrow> int set \<Rightarrow> int \<Rightarrow> device_memory \<Rightarrow> recovery_copy \<Rightarrow> int \<Rightarrow> bool" where
  "ready R files dev destinations S base mem c offset \<longleftrightarrow>
     copy_inside R c \<and> source_in_file (files (rc_source_path c)) c \<and> clear_of R destinations S c
     \<and> {base + offset..<base + offset + view_bytes R c} \<subseteq> S
     \<and> (\<forall>(f, a) \<in> copy_moves R c (base + offset). mem dev a = files (rc_source_path c) ! nat f)"

lemma ready_cong:
  assumes "sizes_ok R" "\<forall>a \<in> S. mem' dev a = mem dev a" "ready R files dev destinations S base mem c offset"
  shows "ready R files dev destinations S base mem' c offset"
proof -
  have "a \<in> S" if "(f, a) \<in> copy_moves R c (base + offset)" for f a
    using copy_moves_address [OF assms(1) _ that] assms(3) by (auto simp: ready_def copy_inside_def)
  with assms(2,3) show ?thesis unfolding ready_def by fastforce
qed

lemma apply_packed_fold_exact:
  assumes R: "copies_views R conv" and base: "lt_pointer slab = base"
    and items: "\<forall>x \<in> set items. ready R files dev destinations S base mem (fst x) (snd x)"
    and run: "foldl (apply_packed_step R dev slab destinations) (mem, Inr r) items = (mem', Inr t)"
  shows "mem' = foldl (placed R conv files dev destinations) mem (map fst items) \<and> t = r + sum_list (map (rc_copy_bytes \<circ> fst) items)"
  using items run
proof (induction items arbitrary: mem r)
  case (Cons item items)
  obtain c offset where item: "item = (c, offset)" by fastforce
  obtain mem1 q where step: "apply_packed_step R dev slab destinations (mem, Inr r) item = (mem1, q)" by fastforce
  with Cons.prems(2) obtain r1 where q: "q = Inr r1"
    by (cases q) (auto simp: apply_packed_fold_Inl)
  have one: "mem1 = placed R conv files dev destinations mem c" "\<forall>a \<in> S. mem1 dev a = mem dev a" "r1 = r + rc_copy_bytes c"
    using apply_packed_step_exact [OF R _ _ base, of c files offset S destinations mem dev r mem1 r1] Cons.prems(1) step
    by (auto simp: item q ready_def)
  have sizes: "sizes_ok R" using R by (simp add: copies_views_def)
  have "\<forall>x \<in> set items. ready R files dev destinations S base mem1 (fst x) (snd x)"
    using Cons.prems(1) ready_cong [OF sizes, of S mem1 dev mem] one(2) by simp
  from Cons.IH [OF this, of r1] Cons.prems(2) step q one show ?case by (simp add: item)
qed simp

lemma placed_agree_outside:
  "agree_outside dev S m m' \<Longrightarrow>
   agree_outside dev S (foldl (placed R conv files dev destinations) m cs) (foldl (placed R conv files dev destinations) m' cs)"
proof (induction cs arbitrary: m m')
  case (Cons c cs)
  have "agree_outside dev S (placed R conv files dev destinations m c) (placed R conv files dev destinations m' c)"
    using Cons.prems by (auto simp: placed_def write_view_agree_outside split: sum.splits)
  with Cons.IH show ?case by simp
qed simp

lemma extents_fold_view_ok:
  "fold_res (copy_extents_step R base) es items = Inr es' \<Longrightarrow> \<forall>x \<in> set items. view_ok (fst x)"
proof (induction items arbitrary: es)
  case (Cons x items)
  from Cons.prems obtain es1 where "copy_extents_step R base es x = Inr es1"
    "fold_res (copy_extents_step R base) es1 items = Inr es'" by auto
  moreover from this(1) have "view_ok (fst x)"
    by (auto simp: copy_extents_step_def split: prod.splits dest: packed_copy_extents_Inr)
  ultimately show ?case using Cons.IH by auto
qed simp

lemma in_fileI:
  assumes "\<forall>e \<in> set es. extent_valid e" "fst ` moved es \<subseteq> {0..<int (length file)}"
  shows "\<forall>e \<in> set es. in_file file e"
proof
  fix e assume e: "e \<in> set es"
  with assms(1) have v: "extent_valid e" by blast
  have "(he_file_offset e + he_length e - 1, he_destination e + he_length e - 1) \<in> moved es"
    using e v unfolding moved_def by (force simp: mem_stretch extent_valid_def)
  then have "he_file_offset e + he_length e - 1 \<in> {0..<int (length file)}" using assms(2) by force
  with v show "in_file file e" by (simp add: in_file_def)
qed

text \<open>The reads of a batch put the bytes of every copy in its place in the slab.\<close>

lemma batch_reads:
  assumes R: "sizes_ok R" and native: "native_delivers T lib path file" and base: "0 < base"
    and copies: "\<forall>c \<in> set copies. source_in_file file c"
    and layout: "replay_pack_layout R copies = Inr (offs, packed)"
    and extents: "fold_res (copy_extents_step R base) [] (zip copies offs) = Inr es"
    and run: "native_hydrate_owned T lib path es dev (mem, obs) = ((mem', obs'), Inr x)"
  shows "length offs = length copies \<and> agree_outside dev {base..<base + packed} mem mem'
    \<and> (\<forall>i < length copies. copy_inside R (copies ! i) \<and> 0 \<le> offs ! i \<and> offs ! i + view_bytes R (copies ! i) \<le> packed
         \<and> (\<forall>(f, a) \<in> copy_moves R (copies ! i) (base + offs ! i). mem' dev a = file ! nat f))"
proof -
  have len: "length offs = length copies"
  proof -
    have "length (fst s) = length ys" if "fold_res (pack_step R) ([], 0) ys = Inr s" for ys s
      using that by (induction ys arbitrary: s rule: rev_induct) (auto simp: fold_res_append pack_step_def Let_def)
    with layout show ?thesis unfolding replay_pack_layout_def by fastforce
  qed
  have items: "set (zip copies offs) = {(copies ! i, offs ! i) | i. i < length copies}" using len by (auto simp: set_zip)
  have vok: "\<forall>c \<in> set copies. view_ok c"
    using extents_fold_view_ok [OF extents] unfolding items by (force simp: in_set_conv_nth)
  then have "\<forall>c \<in> set copies. \<forall>d \<in> set (rc_view_shape c). 0 \<le> d" by (force simp: view_ok_def)
  from replay_pack_layout_ok [OF R layout this] have lay: "layout_ok R copies (offs, packed)" .
  have pos: "\<forall>(c, offset) \<in> set (zip copies offs). 0 \<le> rc_source_file_offset c \<and> 0 \<le> offset"
    using copies lay unfolding items by (auto simp: layout_ok_def source_in_file_def)
  define M where "M = (\<Union>(c, offset) \<in> set (zip copies offs). copy_moves R c (base + offset))"
  have M: "(f, a) \<in> M \<longleftrightarrow> (\<exists>i < length copies. (f, a) \<in> copy_moves R (copies ! i) (base + offs ! i))" for f a
    unfolding M_def items by auto
  note plan = batch_extents_ok [OF R base pos, of "[]"]
  have inside': "\<forall>(c, _) \<in> set (zip copies offs). copy_inside R c"
  proof (rule ccontr)
    assume "\<not> ?thesis"
    with plan have "\<exists>e. fold_res (copy_extents_step R base) [] (zip copies offs) = Inl e" by simp
    with extents show False by simp
  qed
  then have inside: "copy_inside R (copies ! i)" if "i < length copies" for i using that unfolding items by blast
  from plan inside' extents have es: "\<forall>e \<in> set es. extent_valid e" "moved es = M" by (simp_all add: M_def)
  have "fst ` moved es \<subseteq> {0..<int (length file)}"
  proof
    fix f assume "f \<in> fst ` moved es"
    then obtain a where "(f, a) \<in> M" unfolding es(2) by force
    then obtain i where i: "i < length copies" "(f, a) \<in> copy_moves R (copies ! i) (base + offs ! i)" unfolding M by blast
    then have "f \<in> fst ` copy_moves R (copies ! i) 0" using fst_view_moves [of _ _ _ "base + offs ! i" 0] by force
    with inside [OF i(1)] have "rc_source_file_offset (copies ! i) \<le> f"
      "f < rc_source_file_offset (copies ! i) + rc_source_length (copies ! i)" by (auto simp: copy_inside_def)
    moreover have "source_in_file file (copies ! i)" using copies i(1) by simp
    ultimately show "f \<in> {0..<int (length file)}" by (simp add: source_in_file_def)
  qed
  note in_file = in_fileI [OF es(1) this]
  have "separate (moved es)" unfolding es(2) M_def by (rule batch_separate [OF R lay vok])
  from native_hydrate_delivers [OF native in_file this run] have del: "delivered file dev M mem mem'" by (simp add: es(2))
  have addr: "a \<in> {base..<base + packed}" if "(f, a) \<in> M" for f a
  proof -
    from that obtain i where i: "i < length copies" "(f, a) \<in> copy_moves R (copies ! i) (base + offs ! i)" unfolding M by blast
    then have "base + offs ! i \<le> a" "a < base + offs ! i + view_bytes R (copies ! i)"
      using copy_moves_address [OF R _ i(2)] vok by simp_all
    moreover have "0 \<le> offs ! i" "offs ! i + view_bytes R (copies ! i) \<le> packed" using lay i(1) by (simp_all add: layout_ok_def)
    ultimately show ?thesis by simp
  qed
  have "agree_outside dev {base..<base + packed} mem mem'"
    unfolding agree_outside_def
  proof (intro allI impI)
    fix d a assume "d \<noteq> dev \<or> a \<notin> {base..<base + packed}"
    then have "d \<noteq> dev \<or> a \<notin> snd ` M" using addr by force
    then show "mem d a = mem' d a" using del by (simp add: delivered_def)
  qed
  moreover have "\<forall>(f, a) \<in> copy_moves R (copies ! i) (base + offs ! i). mem' dev a = file ! nat f" if "i < length copies" for i
  proof -
    have "copy_moves R (copies ! i) (base + offs ! i) \<subseteq> M" using that M by auto
    then show ?thesis using del unfolding delivered_def by blast
  qed
  ultimately show ?thesis using len lay inside by (simp add: layout_ok_def)
qed

lemma packed_batch_exact:
  assumes R: "copies_views R conv" and native: "native_delivers T lib path (files path)" and base: "0 < base"
    and copies: "\<forall>c \<in> set copies. rc_source_path c = path \<and> source_in_file (files path) c \<and> clear_of R destinations {base..<base + room} c"
    and fits: "\<forall>offs packed. replay_pack_layout R copies = Inr (offs, packed) \<longrightarrow> packed \<le> room"
    and run: "packed_batch_step R T lib dev base room destinations ((mem, obs), Inr r) (path, copies) = ((mem', obs'), Inr t)"
  shows "agree_outside dev {base..<base + room} mem' (foldl (placed R conv files dev destinations) mem copies)
    \<and> t = r + sum_list (map rc_copy_bytes copies)"
proof -
  have sizes: "sizes_ok R" using R by (simp add: copies_views_def)
  from run obtain offs packed es mem1 x n where
    layout: "replay_pack_layout R copies = Inr (offs, packed)" and
    es: "fold_res (copy_extents_step R base) [] (zip copies offs) = Inr es" and
    hydrate: "native_hydrate_owned T lib path es dev (mem, obs) = ((mem1, obs'), Inr x)" and
    copy: "apply_packed_recovery_copies R dev copies \<lparr>lt_pointer = base, lt_bytes = packed,
      lt_storage_pointer = base, lt_storage_bytes = room\<rparr> destinations mem1 = (mem', Inr n)" and t: "t = r + n"
    by (auto simp: packed_batch_step_def split: sum.splits prod.splits)
  define slab where "slab = \<lparr>lt_pointer = base, lt_bytes = packed, lt_storage_pointer = base, lt_storage_bytes = room\<rparr>"
  have slab: "lt_pointer slab = base" "lt_bytes slab = packed" by (simp_all add: slab_def)
  note copy = copy [folded slab_def]
  have src: "\<forall>c \<in> set copies. source_in_file (files path) c" using copies by blast
  note reads = batch_reads [OF sizes native base src layout es hydrate]
  let ?S = "{base..<base + room}"
  have sub: "{base..<base + packed} \<subseteq> ?S" using fits layout by auto
  have fold: "foldl (apply_packed_step R dev slab destinations) (mem1, Inr 0) (zip copies offs) = (mem', Inr n)"
    using copy layout slab(2) by (simp add: apply_packed_recovery_copies_def)
  have "\<forall>y \<in> set (zip copies offs). ready R files dev destinations ?S base mem1 (fst y) (snd y)"
  proof
    fix y assume "y \<in> set (zip copies offs)"
    then obtain i where i: "i < length copies" "y = (copies ! i, offs ! i)" using reads by (auto simp: set_zip)
    have "copies ! i \<in> set copies" using i(1) by simp
    moreover have "{base + offs ! i..<base + offs ! i + view_bytes R (copies ! i)} \<subseteq> ?S" using reads i(1) sub by fastforce
    ultimately show "ready R files dev destinations ?S base mem1 (fst y) (snd y)"
      using reads copies i by (simp add: ready_def)
  qed
  from apply_packed_fold_exact [OF R slab(1) this fold] reads
  have mem': "mem' = foldl (placed R conv files dev destinations) mem1 copies" "n = sum_list (map rc_copy_bytes copies)"
    by (simp_all add: map_fst_zip flip: map_map)
  have "agree_outside dev ?S mem1 mem"
    using reads sub unfolding agree_outside_def by (metis subsetD)
  then show ?thesis unfolding mem'(1) t mem'(2) using placed_agree_outside by blast
qed

section \<open>The work covers the copies in their order\<close>

lemma packed_work_step_flat:
  assumes "packed_work_step R staging (work, batch, n) c = Inr (work', batch', n')"
  shows "concat work' @ batch' = concat work @ batch @ [c] \<and> batch' \<noteq> []"
  using assms by (auto simp: packed_work_step_def Let_def split: if_splits)

lemma packed_work_fold_flat:
  assumes "fold_res (packed_work_step R staging) s xs = Inr (work', batch', n')"
  shows "concat work' @ batch' = concat (fst s) @ fst (snd s) @ xs"
  using assms
proof (induction xs arbitrary: s)
  case (Cons c xs)
  obtain work batch n where s: "s = (work, batch, n)" by (metis prod_cases3)
  from Cons.prems obtain w b k where step: "packed_work_step R staging s c = Inr (w, b, k)"
    "fold_res (packed_work_step R staging) (w, b, k) xs = Inr (work', batch', n')" by auto
  from Cons.IH [OF step(2)] packed_work_step_flat [OF step(1) [unfolded s]] s show ?case by simp
qed auto

lemma path_work_flat:
  assumes "path_work R staging (path, rows) = Inr work"
  shows "concat (map snd work) = sort_key copy_order rows \<and> fst ` set work \<subseteq> {path}"
proof -
  from assms obtain w b n where
    "fold_res (packed_work_step R staging) ([], [], 0) (sort_key copy_order rows) = Inr (w, b, n)"
    "work = map (Pair path) (w @ (if b \<noteq> [] then [b] else []))" by (auto simp: path_work_def)
  with packed_work_fold_flat [OF this(1)] show ?thesis by (auto simp: o_def)
qed

text \<open>A dictionary of lists by key: each key once, with the elements of that key in their order.\<close>

lemma group_copies_ok:
  "dict_ok (group_copies key cs)
   \<and> dict_get (group_copies key cs) k = (if k \<in> key ` set cs then Some (filter (\<lambda>c. key c = k) cs) else None)"
proof (induction cs arbitrary: k rule: rev_induct)
  case Nil
  then show ?case by (simp add: group_copies_def)
next
  case (snoc c cs)
  have "group_copies key (cs @ [c]) = dict_put (key c)
      ((case dict_get (group_copies key cs) (key c) of None \<Rightarrow> [] | Some xs \<Rightarrow> xs) @ [c]) (group_copies key cs)"
    by (simp add: group_copies_def)
  moreover have "(case dict_get (group_copies key cs) (key c) of None \<Rightarrow> [] | Some xs \<Rightarrow> xs) = filter (\<lambda>x. key x = key c) cs"
    using snoc.IH [of "key c"] by (auto simp: filter_empty_conv eq_commute [of "[]"] image_iff split: if_splits)
  ultimately show ?case using snoc.IH by (auto simp: filter_empty_conv)
qed

lemma group_copies_set:
  "set (group_copies key cs) = (\<lambda>k. (k, filter (\<lambda>c. key c = k) cs)) ` key ` set cs"
proof -
  have "(k, xs) \<in> set (group_copies key cs) \<longleftrightarrow> k \<in> key ` set cs \<and> xs = filter (\<lambda>c. key c = k) cs" for k xs
    using group_copies_ok [of key cs k] dict_get_iff [of "group_copies key cs" k xs] by (auto split: if_splits)
  then show ?thesis by auto
qed

lemma mset_blocks:
  "distinct ps \<Longrightarrow> mset (concat (map (\<lambda>p. filter (\<lambda>c. k c = p) xs) ps)) = mset (filter (\<lambda>c. k c \<in> set ps) xs)"
proof (induction ps)
  case (Cons p ps)
  have "mset (filter (\<lambda>c. k c = p) xs) + mset (filter (\<lambda>c. k c \<in> set ps) xs) = mset (filter (\<lambda>c. k c \<in> set (p # ps)) xs)"
    using Cons.prems by (induction xs) auto
  with Cons show ?case by simp
qed simp

lemma concat_single_block:
  "distinct ps \<Longrightarrow> p \<in> set ps \<Longrightarrow> \<forall>q \<in> set ps. q \<noteq> p \<longrightarrow> g q = [] \<Longrightarrow> concat (map g ps) = g p"
proof (induction ps)
  case (Cons q ps)
  show ?case
  proof (cases "q = p")
    case True
    with Cons.prems have "\<forall>q \<in> set ps. g q = []" by auto
    with True show ?thesis by simp
  qed (use Cons in auto)
qed simp

text \<open>Sorting the copies of each file, files in order, is sorting all of them.\<close>

lemma sort_by_path:
  assumes "sorted ps" "distinct ps" "set ps = rc_source_path ` set cs"
  shows "concat (map (\<lambda>p. sort_key copy_order (filter (\<lambda>c. rc_source_path c = p) cs)) ps) = sort_key copy_order cs"
proof -
  let ?block = "\<lambda>p. sort_key copy_order (filter (\<lambda>c. rc_source_path c = p) cs)"
  have "mset (concat (map ?block ps)) = mset (concat (map (\<lambda>p. filter (\<lambda>c. rc_source_path c = p) cs) ps))"
    by (induction ps) simp_all
  also have "\<dots> = mset cs" unfolding mset_blocks [OF assms(2)] assms(3) by (simp add: filter_id_conv [THEN iffD2])
  finally have perm: "mset (concat (map ?block ps)) = mset cs" .
  have "filter (\<lambda>x. copy_order k = copy_order x) (concat (map ?block ps)) = filter (\<lambda>x. copy_order k = copy_order x) cs"
    if "k \<in> set (concat (map ?block ps))" for k
  proof -
    let ?Q = "\<lambda>x. copy_order k = copy_order x"
    have k: "rc_source_path k \<in> set ps" using that by auto
    have "filter ?Q (concat (map ?block ps)) = concat (map (\<lambda>p. filter ?Q (?block p)) ps)"
      by (simp add: filter_concat o_def)
    also have "\<dots> = filter ?Q (?block (rc_source_path k))"
      by (rule concat_single_block [OF assms(2) k]) (auto simp: filter_empty_conv copy_order_def)
    also have "\<dots> = filter ?Q (filter (\<lambda>c. rc_source_path c = rc_source_path k) cs)"
      using sort_key_stable [of copy_order "copy_order k"] by (simp add: eq_commute [of "copy_order k"])
    also have "\<dots> = filter ?Q cs" unfolding filter_filter by (rule filter_cong) (auto simp: copy_order_def)
    finally show ?thesis .
  qed
  moreover have "sorted (map copy_order (concat (map ?block ps)))"
    using assms(1,2)
  proof (induction ps)
    case (Cons p ps)
    have "copy_order x \<le> copy_order y" if "x \<in> set (?block p)" "y \<in> set (concat (map ?block ps))" for x y
    proof -
      from that have "rc_source_path x = p" "rc_source_path y \<in> set ps" by auto
      with Cons.prems have "rc_source_path x < rc_source_path y" by (auto simp: order_less_le)
      then show ?thesis by (simp add: copy_order_def)
    qed
    with Cons show ?case by (simp add: sorted_append)
  qed simp
  ultimately have "sort_key copy_order cs = concat (map ?block ps)" by (intro properties_for_sort_key [OF perm])
  then show ?thesis ..
qed

lemma rank_local_packed_work_flat:
  assumes "rank_local_packed_work R cs staging = Inr work"
  shows "concat (map snd work) = sort_key copy_order cs \<and> (\<forall>(path, batch) \<in> set work. \<forall>c \<in> set batch. rc_source_path c = path)"
proof -
  define G where "G = sort_key fst (group_copies rc_source_path cs)"
  from assms obtain works where "traverse (path_work R staging) G = Inr works" and work: "work = concat works"
    by (auto simp: rank_local_packed_work_def G_def)
  then have works: "list_all2 (\<lambda>x y. path_work R staging x = Inr y) G works" by (simp add: traverse_eq_Inr)
  have flat: "concat (map snd (concat ws)) = concat (map (\<lambda>(p, rows). sort_key copy_order rows) gs)
      \<and> (\<forall>(path, batch) \<in> set (concat ws). \<forall>c \<in> set batch. \<exists>rows. (path, rows) \<in> set gs \<and> c \<in> set rows)"
    if "list_all2 (\<lambda>x y. path_work R staging x = Inr y) gs ws" for gs ws
    using that
  proof (induction rule: list_all2_induct)
    case (Cons x xs y ys)
    obtain p rows where x: "x = (p, rows)" by fastforce
    have y: "concat (map snd y) = sort_key copy_order rows" "fst ` set y \<subseteq> {p}"
      using path_work_flat [of R staging p rows y] Cons.hyps(1) by (auto simp: x)
    have "c \<in> set rows \<and> path = p" if "(path, batch) \<in> set y" "c \<in> set batch" for path batch c
    proof -
      have "c \<in> set (concat (map snd y))" using that by force
      then show ?thesis unfolding y(1) using that(1) y(2) by force
    qed
    with Cons.IH y(1) show ?case by (fastforce simp: x)
  qed simp
  have group: "set G = (\<lambda>p. (p, filter (\<lambda>c. rc_source_path c = p) cs)) ` rc_source_path ` set cs"
    by (simp add: G_def group_copies_set)
  have "dict_ok (group_copies rc_source_path cs)" by (rule group_copies_ok [THEN conjunct1])
  then have "distinct (map fst (group_copies rc_source_path cs))" by (simp add: dict_ok_def dict_keys_def)
  then have dist: "distinct (map fst G)" unfolding G_def by (metis distinct_sort mset_map mset_sort mset_eq_imp_distinct_iff)
  have srt: "sorted (map fst G)" by (simp add: G_def)
  have blocks: "map (\<lambda>(p, rows). sort_key copy_order rows) G = map (\<lambda>p. sort_key copy_order (filter (\<lambda>c. rc_source_path c = p) cs)) (map fst G)"
    using group by (auto intro!: map_cong)
  have keys: "set (map fst G) = rc_source_path ` set cs" using group by (simp add: image_image)
  have "concat (map snd work) = sort_key copy_order cs"
    unfolding work flat [OF works, THEN conjunct1] blocks by (rule sort_by_path [OF srt dist keys])
  moreover have "\<forall>(path, batch) \<in> set work. \<forall>c \<in> set batch. rc_source_path c = path"
    using flat [OF works] group unfolding work by fastforce
  ultimately show ?thesis by blast
qed

section \<open>Batches stay within the staging budget\<close>

definition fits :: "torch \<Rightarrow> int \<Rightarrow> recovery_copy list \<Rightarrow> bool" where
  "fits R staging batch \<longleftrightarrow> batch \<noteq> [] \<and> (\<exists>offs packed. replay_pack_layout R batch = Inr (offs, packed) \<and> packed \<le> staging)"

definition work_inv :: "torch \<Rightarrow> int \<Rightarrow> recovery_copy list list \<times> recovery_copy list \<times> int \<Rightarrow> bool" where
  "work_inv R staging s \<longleftrightarrow> (case s of (work, batch, n) \<Rightarrow>
     (\<forall>b \<in> set work. fits R staging b) \<and> (\<exists>offs. replay_pack_layout R batch = Inr (offs, n)) \<and> (batch \<noteq> [] \<longrightarrow> n \<le> staging))"

lemma replay_pack_layout_snoc:
  "replay_pack_layout R (cs @ [c]) = bind_res (replay_pack_layout R cs) (\<lambda>s. pack_step R s c)"
proof -
  have "bind_res r Inr = r" for r :: "(int list \<times> int) res" by (cases r) simp_all
  then show ?thesis by (simp add: replay_pack_layout_def fold_res_append)
qed

lemma replay_pack_layout_Nil [simp]: "replay_pack_layout R [] = Inr ([], 0)"
  by (simp add: replay_pack_layout_def)

lemma packed_work_step_inv:
  assumes "sizes_ok R" "work_inv R staging s" "packed_work_step R staging s c = Inr s'"
  shows "work_inv R staging s'"
proof -
  obtain work batch n where s: "s = (work, batch, n)" by (metis prod_cases3)
  obtain offs where lay: "replay_pack_layout R batch = Inr (offs, n)" using assms(2) by (auto simp: s work_inv_def)
  from assms(3) obtain m where m: "dtype_from_string R (rc_view_dtype c) = Inr m" by (auto simp: s packed_work_step_def)
  have "0 < m" using view_size_pos [OF assms(1), of c] by (simp add: view_size_def m)
  then have zero: "(m - 1) div m = 0" by simp
  show ?thesis
  proof (cases "batch \<noteq> [] \<and> (n + m - 1) div m * m + m * prod_list (rc_view_shape c) > staging")
    case True
    with assms(3) m have "s' = (work @ [batch], [c], m * prod_list (rc_view_shape c))" "m * prod_list (rc_view_shape c) \<le> staging"
      by (auto simp: s packed_work_step_def Let_def split: if_splits)
    moreover have "fits R staging batch" using assms(2) True lay by (auto simp: s work_inv_def fits_def)
    ultimately show ?thesis
      using assms(2) m zero replay_pack_layout_snoc [of R "[]" c] by (auto simp: s work_inv_def pack_step_def Let_def mult.commute)
  next
    case False
    with assms(3) m have s': "s' = (work, batch @ [c], (n + m - 1) div m * m + m * prod_list (rc_view_shape c))"
      "m * prod_list (rc_view_shape c) \<le> staging"
      by (auto simp: s packed_work_step_def Let_def split: if_splits)
    have "n = 0" if "batch = []" using lay that by simp
    with False s'(2) zero have "(n + m - 1) div m * m + m * prod_list (rc_view_shape c) \<le> staging"
      by (cases "batch = []") auto
    then show ?thesis
      using assms(2) m lay by (auto simp: s s'(1) work_inv_def replay_pack_layout_snoc pack_step_def Let_def mult.commute)
  qed
qed

lemma path_work_fits:
  assumes "sizes_ok R" "path_work R staging x = Inr work"
  shows "\<forall>(path, batch) \<in> set work. fits R staging batch"
proof -
  obtain path rows where x: "x = (path, rows)" by fastforce
  from assms(2) obtain w b n where fold:
    "fold_res (packed_work_step R staging) ([], [], 0) (sort_key copy_order rows) = Inr (w, b, n)"
    "work = map (Pair path) (w @ (if b \<noteq> [] then [b] else []))" by (auto simp: x path_work_def)
  have "work_inv R staging (w, b, n)"
  proof (rule fold_res_invariant [OF fold(1)])
    show "work_inv R staging ([], [], 0)" by (simp add: work_inv_def)
  qed (use packed_work_step_inv [OF assms(1)] in blast)
  then show ?thesis unfolding fold(2) by (auto simp: work_inv_def fits_def)
qed

lemma rank_local_packed_work_fits:
  assumes "sizes_ok R" "rank_local_packed_work R cs staging = Inr work"
  shows "\<forall>(path, batch) \<in> set work. fits R staging batch"
proof -
  from assms(2) obtain works where
    "list_all2 (\<lambda>x y. path_work R staging x = Inr y) (sort_key fst (group_copies rc_source_path cs)) works" "work = concat works"
    by (auto simp: rank_local_packed_work_def traverse_eq_Inr)
  note works = this
  have "\<forall>(path, batch) \<in> set w. fits R staging batch" if "w \<in> set works" for w
  proof -
    from that obtain i where "i < length works" "w = works ! i" by (auto simp: in_set_conv_nth)
    with works(1) show ?thesis by (intro path_work_fits [OF assms(1)]) (auto simp: list_all2_conv_all_nth)
  qed
  then show ?thesis unfolding works(2) by auto
qed

section \<open>Packed replay of a rank\<close>

lemma packed_batch_fold_Inl: "foldl (packed_batch_step R T lib dev base room destinations) (m, Inl e) work = (m, Inl e)"
  by (induction work) (auto simp: packed_batch_step_def split: prod.splits)

lemma packed_batch_fold_exact:
  assumes R: "copies_views R conv" and base: "0 < base"
    and work: "\<forall>(path, batch) \<in> set work. native_delivers T lib path (files path) \<and> fits R room batch
      \<and> (\<forall>c \<in> set batch. rc_source_path c = path \<and> source_in_file (files path) c \<and> clear_of R destinations {base..<base + room} c)"
    and run: "foldl (packed_batch_step R T lib dev base room destinations) ((mem, obs), Inr r) work = ((mem', obs'), Inr t)"
  shows "agree_outside dev {base..<base + room} mem' (foldl (placed R conv files dev destinations) mem (concat (map snd work)))
    \<and> t = r + sum_list (map rc_copy_bytes (concat (map snd work)))"
  using work run
proof (induction work arbitrary: mem obs r)
  case (Cons x work)
  obtain path batch where x: "x = (path, batch)" by fastforce
  obtain mem1 obs1 q where step: "packed_batch_step R T lib dev base room destinations ((mem, obs), Inr r) x = ((mem1, obs1), q)"
    by (metis prod_cases3 prod.collapse)
  with Cons.prems(2) obtain r1 where q: "q = Inr r1" by (cases q) (auto simp: packed_batch_fold_Inl)
  have fit: "\<forall>offs packed. replay_pack_layout R batch = Inr (offs, packed) \<longrightarrow> packed \<le> room"
    using Cons.prems(1) by (auto simp: x fits_def)
  have one: "agree_outside dev {base..<base + room} mem1 (foldl (placed R conv files dev destinations) mem batch)"
    "r1 = r + sum_list (map rc_copy_bytes batch)"
    using packed_batch_exact [OF R _ base _ fit step [unfolded x q]] Cons.prems(1) by (auto simp: x)
  have rest: "agree_outside dev {base..<base + room} mem' (foldl (placed R conv files dev destinations) mem1 (concat (map snd work)))"
    "t = r1 + sum_list (map rc_copy_bytes (concat (map snd work)))"
    using Cons.IH [of mem1 obs1 r1] Cons.prems step q by auto
  show ?case
    using agree_outside_trans [OF rest(1) placed_agree_outside [OF one(1)]] rest(2) one(2) by (simp add: x)
qed simp

lemma packed_replay_rank_Inr:
  assumes "packed_replay_rank R T lib dev alloc cs destinations m = (m', Inr r)"
  obtains work layouts where "rank_local_packed_work R cs (tp_staging_bytes T) = Inr work" "work \<noteq> []"
    "traverse (\<lambda>(_, batch). replay_pack_layout R batch) work = Inr layouts"
    "foldl (packed_batch_step R T lib dev (alloc (Max (set (map snd layouts)))) (Max (set (map snd layouts))) destinations)
       (m, Inr 0) work = (m', r)"
  using assms by (auto simp: packed_replay_rank_def split: sum.splits prod.splits if_splits)

text \<open>What a rank's slab, files and native reader must satisfy.\<close>

definition replay_setting ::
  "torch \<Rightarrow> (string \<Rightarrow> string \<Rightarrow> byte list \<Rightarrow> byte list) \<Rightarrow> transport \<Rightarrow> native_library \<Rightarrow> (string \<Rightarrow> byte list) \<Rightarrow> (int \<Rightarrow> int) \<Rightarrow>
   recovery_copy list \<Rightarrow> (string, live_tensor) dict \<Rightarrow> bool" where
  "replay_setting R conv T lib files alloc cs destinations \<longleftrightarrow> copies_views R conv \<and> (\<forall>n. 0 < alloc n)
     \<and> (\<forall>c \<in> set cs. native_delivers T lib (rc_source_path c) (files (rc_source_path c))
          \<and> source_in_file (files (rc_source_path c)) c \<and> (\<forall>n. clear_of R destinations {alloc n..<alloc n + n} c))"

lemma packed_replay_rank_exact:
  assumes "replay_setting R conv T lib files alloc cs destinations"
    and "packed_replay_rank R T lib dev alloc cs destinations (mem, obs) = ((mem', obs'), Inr (Inr replayed))"
  shows "\<exists>n \<le> tp_staging_bytes T.
    agree_outside dev {alloc n..<alloc n + n} mem' (foldl (placed R conv files dev destinations) mem (sort_key copy_order cs))
    \<and> replayed = sum_list (map rc_copy_bytes cs)"
proof -
  from assms(1) have R: "copies_views R conv" "sizes_ok R" and alloc: "\<And>n. 0 < alloc n"
    by (auto simp: replay_setting_def copies_views_def)
  from packed_replay_rank_Inr [OF assms(2)] obtain work layouts where
    work: "rank_local_packed_work R cs (tp_staging_bytes T) = Inr work" "work \<noteq> []" and
    layouts: "traverse (\<lambda>(_, batch). replay_pack_layout R batch) work = Inr layouts" and
    run: "foldl (packed_batch_step R T lib dev (alloc (Max (set (map snd layouts)))) (Max (set (map snd layouts))) destinations)
       ((mem, obs), Inr 0) work = ((mem', obs'), Inr replayed)" by metis
  define n where "n = Max (set (map snd layouts))"
  note flat = rank_local_packed_work_flat [OF work(1)]
  have all2: "list_all2 (\<lambda>x y. (case x of (_, batch) \<Rightarrow> replay_pack_layout R batch) = Inr y) work layouts"
    using layouts by (simp add: traverse_eq_Inr)
  have len: "length layouts = length work" using all2 by (simp add: list_all2_lengthD)
  have budget: "\<forall>(path, batch) \<in> set work. fits R (tp_staging_bytes T) batch"
    by (rule rank_local_packed_work_fits [OF R(2) work(1)])
  have fit: "fits R n batch" if "(path, batch) \<in> set work" for path batch
  proof -
    have "batch \<noteq> []" using budget that by (auto simp: fits_def)
    moreover
    from that obtain i where i: "i < length work" "work ! i = (path, batch)" by (auto simp: in_set_conv_nth)
    moreover have "replay_pack_layout R batch = Inr (layouts ! i)" using all2 i by (auto simp: list_all2_conv_all_nth)
    moreover have "snd (layouts ! i) \<le> n" unfolding n_def using i(1) len by (intro Max_ge) auto
    ultimately show ?thesis unfolding fits_def by (metis prod.collapse)
  qed
  have "n \<in> set (map snd layouts)" unfolding n_def using work(2) len by (intro Max_in) auto
  then obtain i where i: "i < length work" "n = snd (layouts ! i)" using len by (auto simp: in_set_conv_nth)
  have "fits R (tp_staging_bytes T) (snd (work ! i))"
    using budget i(1) nth_mem by fastforce
  moreover have "replay_pack_layout R (snd (work ! i)) = Inr (layouts ! i)"
    using all2 i(1) by (auto simp: list_all2_conv_all_nth case_prod_beta)
  ultimately have within_budget: "n \<le> tp_staging_bytes T" using i(2) by (auto simp: fits_def)
  have "\<forall>(path, batch) \<in> set work. native_delivers T lib path (files path) \<and> fits R n batch
      \<and> (\<forall>c \<in> set batch. rc_source_path c = path \<and> source_in_file (files path) c \<and> clear_of R destinations {alloc n..<alloc n + n} c)"
  proof -
    have mem: "c \<in> set cs \<and> rc_source_path c = path" if "(path, batch) \<in> set work" "c \<in> set batch" for path batch c
    proof -
      have "c \<in> set (concat (map snd work))" using that by force
      then have "c \<in> set cs" using flat by simp
      then show ?thesis using flat that by fastforce
    qed
    have "native_delivers T lib path (files path)" if "(path, batch) \<in> set work" for path batch
    proof -
      have "batch \<noteq> []" using fit [OF that] by (simp add: fits_def)
      with mem [OF that, of "hd batch"] show ?thesis using assms(1) by (auto simp: replay_setting_def)
    qed
    moreover have "source_in_file (files path) c \<and> clear_of R destinations {alloc n..<alloc n + n} c"
      if "(path, batch) \<in> set work" "c \<in> set batch" for path batch c
      using mem [OF that] assms(1) by (auto simp: replay_setting_def)
    ultimately show ?thesis using fit mem by auto
  qed
  from packed_batch_fold_exact [OF R(1) alloc this run [folded n_def]]
  have "agree_outside dev {alloc n..<alloc n + n} mem' (foldl (placed R conv files dev destinations) mem (sort_key copy_order cs))"
    "replayed = sum_list (map rc_copy_bytes (sort_key copy_order cs))" using flat by simp_all
  moreover have "sum_list (map rc_copy_bytes (sort_key copy_order cs)) = sum_list (map rc_copy_bytes cs)"
    unfolding sum_mset_sum_list [symmetric] mset_map by simp
  ultimately show ?thesis using within_budget by auto
qed

section \<open>Which ranks reach the status reduction\<close>

text \<open>A plan that can be cut into batches: it has copies, and each view has a known dtype and fits in the budget.\<close>

definition plannable :: "torch \<Rightarrow> int \<Rightarrow> recovery_copy list \<Rightarrow> bool" where
  "plannable R staging cs \<longleftrightarrow> cs \<noteq> [] \<and>
     (\<forall>c \<in> set cs. \<not> isl (dtype_from_string R (rc_view_dtype c)) \<and> view_bytes R c \<le> staging)"

lemma isl_fold_res: "(\<And>s x. isl (f s x) \<longleftrightarrow> \<not> P x) \<Longrightarrow> isl (fold_res f s xs) \<longleftrightarrow> \<not> (\<forall>x \<in> set xs. P x)"
proof (induction xs arbitrary: s)
  case (Cons x xs)
  have "isl (f s x) \<longleftrightarrow> \<not> P x" by (rule Cons.prems)
  then show ?case using Cons.IH [OF Cons.prems] by (cases "f s x") auto
qed simp

lemma isl_traverse: "isl (traverse f xs) \<longleftrightarrow> (\<exists>x \<in> set xs. isl (f x))"
proof (induction xs)
  case (Cons x xs)
  then show ?case by (cases "f x"; cases "traverse f xs") auto
qed simp

lemma isl_packed_work_step:
  "isl (packed_work_step R staging s c) \<longleftrightarrow>
     \<not> (\<not> isl (dtype_from_string R (rc_view_dtype c)) \<and> view_bytes R c \<le> staging)"
  by (cases "dtype_from_string R (rc_view_dtype c)")
     (auto simp: packed_work_step_def Let_def view_size_def mult.commute split: prod.splits)

lemma isl_path_work:
  "isl (path_work R staging (path, rows)) \<longleftrightarrow>
     \<not> (\<forall>c \<in> set rows. \<not> isl (dtype_from_string R (rc_view_dtype c)) \<and> view_bytes R c \<le> staging)"
proof -
  let ?fold = "fold_res (packed_work_step R staging) ([], [], 0) (sort_key copy_order rows)"
  have "isl (path_work R staging (path, rows)) \<longleftrightarrow> isl ?fold"
    by (cases ?fold) (auto simp: path_work_def split: prod.splits)
  also have "\<dots> \<longleftrightarrow> \<not> (\<forall>c \<in> set (sort_key copy_order rows). \<not> isl (dtype_from_string R (rc_view_dtype c)) \<and> view_bytes R c \<le> staging)"
    by (rule isl_fold_res) (rule isl_packed_work_step)
  finally show ?thesis by simp
qed

lemma isl_rank_local_packed_work:
  "isl (rank_local_packed_work R cs staging) \<longleftrightarrow>
     \<not> (\<forall>c \<in> set cs. \<not> isl (dtype_from_string R (rc_view_dtype c)) \<and> view_bytes R c \<le> staging)"
proof -
  let ?G = "sort_key fst (group_copies rc_source_path cs)"
  have "isl (rank_local_packed_work R cs staging) \<longleftrightarrow> isl (traverse (path_work R staging) ?G)"
    by (cases "traverse (path_work R staging) ?G") (auto simp: rank_local_packed_work_def)
  also have "\<dots> \<longleftrightarrow> (\<exists>x \<in> set (group_copies rc_source_path cs). isl (path_work R staging x))"
    by (simp add: isl_traverse)
  also have "\<dots> \<longleftrightarrow> (\<exists>p \<in> rc_source_path ` set cs. isl (path_work R staging (p, filter (\<lambda>c. rc_source_path c = p) cs)))"
    unfolding group_copies_set by blast
  finally show ?thesis unfolding isl_path_work by auto
qed

lemma packed_replay_rank_early:
  assumes "sizes_ok R"
  shows "isl (snd (packed_replay_rank R T lib dev alloc cs destinations m)) \<longleftrightarrow> \<not> plannable R (tp_staging_bytes T) cs"
proof (cases "rank_local_packed_work R cs (tp_staging_bytes T)")
  case (Inl e)
  then have "\<not> plannable R (tp_staging_bytes T) cs"
    using isl_rank_local_packed_work [of R cs "tp_staging_bytes T"] by (auto simp: plannable_def)
  with Inl show ?thesis by (simp add: packed_replay_rank_def)
next
  case (Inr work)
  have plan: "plannable R (tp_staging_bytes T) cs \<longleftrightarrow> cs \<noteq> []"
    using isl_rank_local_packed_work [of R cs "tp_staging_bytes T"] Inr by (auto simp: plannable_def)
  have "\<not> isl (traverse (\<lambda>(_, batch). replay_pack_layout R batch) work)"
    using rank_local_packed_work_fits [OF assms Inr] by (auto simp: isl_traverse fits_def)
  then obtain layouts where layouts: "traverse (\<lambda>(_, batch). replay_pack_layout R batch) work = Inr layouts"
    by (cases "traverse (\<lambda>(_, batch). replay_pack_layout R batch) work") auto
  have "work = [] \<longleftrightarrow> cs = []"
  proof
    assume "work = []"
    then show "cs = []" using rank_local_packed_work_flat [OF Inr] by (metis concat.simps(1) list.map(1) set_empty set_sort)
  next
    assume "cs = []"
    then show "work = []" using Inr by (simp add: rank_local_packed_work_def group_copies_def)
  qed
  with plan layouts Inr show ?thesis by (simp add: packed_replay_rank_def split: prod.splits)
qed

section \<open>The group\<close>

lemma replay_fold_results:
  "foldl (replay_rank_step R T lib) (mem, ps, rs) xs = (mem', ps', rs') \<Longrightarrow>
   \<exists>qs. rs' = rs @ qs \<and> length qs = length xs \<and> length ps' = length ps + length xs
     \<and> (sizes_ok R \<longrightarrow> (\<forall>i < length xs. isl (qs ! i) \<longleftrightarrow> \<not> plannable R (tp_staging_bytes T) (rr_copies (fst (snd (xs ! i))))))"
proof (induction xs arbitrary: mem ps rs)
  case (Cons x xs)
  obtain k rr p where x: "x = (k, rr, p)" by (metis prod_cases3)
  obtain m1 p1 r where step: "packed_replay_rank R T lib k (rr_alloc rr) (rr_copies rr) (rr_destinations rr) (mem, p) = ((m1, p1), r)"
    by (metis prod.collapse)
  then have "replay_rank_step R T lib (mem, ps, rs) x = (m1, ps @ [p1], rs @ [r])" by (simp add: x replay_rank_step_def)
  then have "foldl (replay_rank_step R T lib) (m1, ps @ [p1], rs @ [r]) xs = (mem', ps', rs')" using Cons.prems by simp
  from Cons.IH [OF this] obtain qs where qs: "rs' = (rs @ [r]) @ qs" "length qs = length xs" "length ps' = length (ps @ [p1]) + length xs"
    "sizes_ok R \<Longrightarrow> \<forall>i < length xs. isl (qs ! i) \<longleftrightarrow> \<not> plannable R (tp_staging_bytes T) (rr_copies (fst (snd (xs ! i))))" by blast
  have "sizes_ok R \<Longrightarrow> isl r \<longleftrightarrow> \<not> plannable R (tp_staging_bytes T) (rr_copies rr)"
    using packed_replay_rank_early [of R T lib k "rr_alloc rr" "rr_copies rr" "rr_destinations rr" "(mem, p)"] step by simp
  with qs show ?case by (intro exI [of _ "r # qs"]) (auto simp: x less_Suc_eq_0_disj)
qed simp

lemma write_view_other: "d \<noteq> dev \<Longrightarrow> write_view dev v elements mem d = mem d"
proof -
  assume "d \<noteq> dev"
  then have "foldl (\<lambda>m (a, bs). write_mem m dev a bs) mem zs d = mem d" for zs
    by (induction zs arbitrary: mem) (auto simp: write_mem_def fun_eq_iff)
  then show ?thesis by (simp add: write_view_def)
qed

lemma write_view_local: "m dev = m' dev \<Longrightarrow> write_view dev v elements m dev = write_view dev v elements m' dev"
proof -
  have "m dev = m' dev \<Longrightarrow> foldl (\<lambda>m (a, bs). write_mem m dev a bs) m zs dev = foldl (\<lambda>m (a, bs). write_mem m dev a bs) m' zs dev" for zs
    by (induction zs arbitrary: m m') (auto simp: write_mem_def fun_eq_iff)
  then show "m dev = m' dev \<Longrightarrow> ?thesis" by (simp add: write_view_def)
qed

lemma placed_fold_other: "d \<noteq> dev \<Longrightarrow> foldl (placed R conv files dev destinations) mem cs d = mem d"
  by (induction cs arbitrary: mem) (auto simp: placed_def write_view_other split: sum.splits)

lemma placed_fold_local:
  "m dev = m' dev \<Longrightarrow> foldl (placed R conv files dev destinations) m cs dev = foldl (placed R conv files dev destinations) m' cs dev"
proof (induction cs arbitrary: m m')
  case (Cons c cs)
  have "placed R conv files dev destinations m c dev = placed R conv files dev destinations m' c dev"
    using write_view_local [of m dev m'] Cons.prems by (simp add: placed_def split: sum.splits)
  then show ?case
    using Cons.IH [of "placed R conv files dev destinations m c" "placed R conv files dev destinations m' c"] by simp
qed simp

abbreviation rank_setting where
  "rank_setting R conv T lib files rr \<equiv> replay_setting R conv T lib files (rr_alloc rr) (rr_copies rr) (rr_destinations rr)"

text \<open>The device of a rank holds the copies of its plan, everywhere but in a slab within the budget.\<close>

definition rank_replayed where
  "rank_replayed R conv T files mem mem' k rr \<longleftrightarrow> (\<exists>n \<le> tp_staging_bytes T. \<forall>a. a \<notin> {rr_alloc rr n..<rr_alloc rr n + n} \<longrightarrow>
     mem' k a = foldl (placed R conv files k (rr_destinations rr)) mem (sort_key copy_order (rr_copies rr)) k a)"

lemma replay_rank_step_exact:
  assumes "rank_setting R conv T lib files rr"
    and "packed_replay_rank R T lib k (rr_alloc rr) (rr_copies rr) (rr_destinations rr) (mem, p) = ((mem', p'), Inr (Inr n))"
  shows "rank_replayed R conv T files mem mem' k rr \<and> (\<forall>d. d \<noteq> k \<longrightarrow> mem' d = mem d)"
proof -
  from packed_replay_rank_exact [OF assms] obtain n where n: "n \<le> tp_staging_bytes T"
    "agree_outside k {rr_alloc rr n..<rr_alloc rr n + n} mem'
       (foldl (placed R conv files k (rr_destinations rr)) mem (sort_key copy_order (rr_copies rr)))" by blast
  then have "mem' d = mem d" if "d \<noteq> k" for d
    using that placed_fold_other [OF that] by (auto simp: agree_outside_def fun_eq_iff)
  moreover have "rank_replayed R conv T files mem mem' k rr"
    unfolding rank_replayed_def using n by (intro exI [of _ n]) (auto simp: agree_outside_def)
  ultimately show ?thesis by blast
qed

lemma rank_replayed_cong:
  assumes "rank_replayed R conv T files m m' k rr" "m k = m1 k" "m' k = m1' k"
  shows "rank_replayed R conv T files m1 m1' k rr"
  using assms(1) unfolding rank_replayed_def assms(3) placed_fold_local [of m k m1, OF assms(2)] .

lemma replay_fold_exact:
  assumes "foldl (replay_rank_step R T lib) (mem, ps, rs) xs = (mem', ps', rs @ qs)" "length qs = length xs"
    and "\<forall>q \<in> set qs. \<exists>n. q = Inr (Inr n)" "distinct (map fst xs)" "\<forall>x \<in> set xs. rank_setting R conv T lib files (fst (snd x))"
  shows "(\<forall>x \<in> set xs. rank_replayed R conv T files mem mem' (fst x) (fst (snd x))) \<and> (\<forall>d. d \<notin> fst ` set xs \<longrightarrow> mem' d = mem d)"
  using assms
proof (induction xs arbitrary: mem ps rs qs)
  case (Cons x xs)
  obtain k rr p where x: "x = (k, rr, p)" by (metis prod_cases3)
  obtain m1 p1 r where rank: "packed_replay_rank R T lib k (rr_alloc rr) (rr_copies rr) (rr_destinations rr) (mem, p) = ((m1, p1), r)"
    by (metis prod.collapse)
  then have "replay_rank_step R T lib (mem, ps, rs) x = (m1, ps @ [p1], rs @ [r])" by (simp add: x replay_rank_step_def)
  then have rest: "foldl (replay_rank_step R T lib) (m1, ps @ [p1], rs @ [r]) xs = (mem', ps', rs @ qs)" using Cons.prems(1) by simp
  from replay_fold_results [OF this] Cons.prems(2) obtain qs' where qs: "qs = r # qs'" "length qs' = length xs" by auto
  from Cons.prems(3) qs(1) obtain n where r: "r = Inr (Inr n)" by auto
  have IH: "\<forall>x \<in> set xs. rank_replayed R conv T files m1 mem' (fst x) (fst (snd x))" "\<forall>d. d \<notin> fst ` set xs \<longrightarrow> mem' d = m1 d"
    using Cons.IH [of m1 "ps @ [p1]" "rs @ [r]" qs'] rest qs Cons.prems(3-5) by auto
  have one: "rank_replayed R conv T files mem m1 k rr" "\<forall>d. d \<noteq> k \<longrightarrow> m1 d = mem d"
    using replay_rank_step_exact [OF _ rank [unfolded r]] Cons.prems(5) by (auto simp: x)
  have k: "k \<notin> fst ` set xs" using Cons.prems(4) by (simp add: x)
  have "rank_replayed R conv T files mem mem' k rr"
    by (rule rank_replayed_cong [OF one(1)]) (use IH(2) k in auto)
  moreover have "rank_replayed R conv T files mem mem' (fst y) (fst (snd y))" if "y \<in> set xs" for y
  proof (rule rank_replayed_cong)
    show "rank_replayed R conv T files m1 mem' (fst y) (fst (snd y))" using IH(1) that by blast
    show "m1 (fst y) = mem (fst y)" using one(2) k that by force
  qed simp
  ultimately show ?case using IH(2) one(2) by (auto simp: x)
qed simp

text \<open>
  C10: Reading a strided view in contiguous pieces moves exactly the view. When the dtype is known
  and the shape and strides are valid, the pieces connect the bytes of every element, in row-major
  order, with consecutive places of the packed slab and nothing else; otherwise the plan is refused.
\<close>

theorem packed_copy_exact:
  assumes "sizes_ok R"
  shows "if view_ok c \<and> \<not> isl (dtype_from_string R (rc_view_dtype c))
    then \<exists>xs. packed_copy_extents R c offset = Inr xs \<and> packed_moves xs = copy_moves R c offset
      \<and> list_all (\<lambda>x. 0 < pe_length x) xs
    else isl (packed_copy_extents R c offset)"
proof (cases "view_ok c \<and> \<not> isl (dtype_from_string R (rc_view_dtype c))")
  case True
  then have "dtype_from_string R (rc_view_dtype c) = Inr (view_size R c)"
    by (auto simp: view_size_def split: sum.splits)
  from packed_copy_extents_exact [OF _ this view_size_pos [OF assms], of offset] True show ?thesis by (auto simp: list_all_iff)
next
  case False
  then show ?thesis
    using packed_copy_extents_Inr [of R c offset] by (cases "packed_copy_extents R c offset") auto
qed

text \<open>
  C8: Packed replay restores the weights. When the replay of a group succeeds, every rank's device
  is what copying each recorded view straight from the checkpoint file to its destination gives, in
  the order of the plan, except for a slab that stays within the staging budget.
\<close>

theorem packed_replay_exact:
  assumes "collectives_ok T" "length ranks = world T" "length policies = world T"
    and "\<forall>k < world T. rank_setting R conv T lib files (ranks ! k)"
    and "packed_replay R T lib ranks (mem, policies) = ((mem', policies'), Inr ())"
  shows "\<forall>k < world T. rank_replayed R conv T files mem mem' (int k) (ranks ! k)"
proof -
  let ?xs = "zip [0..int (world T) - 1] (zip ranks policies)"
  obtain m ps rs where fold: "foldl (replay_rank_step R T lib) (mem, [], []) ?xs = (m, ps, rs)" by (metis prod_cases3)
  have len: "length ?xs = world T" using assms(2,3) by simp
  from assms(5) fold have m: "m = mem'" and ok: "list_all (\<lambda>r. \<not> isl r) rs"
    and fence: "error_fence T ''a peer failed while reading packed recovery views'' (map (load_error \<circ> projr) rs) = Inr ()"
    by (auto simp: packed_replay_def split: if_splits)
  have "\<exists>n. q = Inr (Inr n)" if "q \<in> set rs" for q
  proof -
    have "load_error (projr q) = None" using error_fence_Inr [OF assms(1) fence] that by auto
    moreover have "\<not> isl q" using ok that by (simp add: list_all_iff)
    ultimately show ?thesis by (cases q; cases "projr q") (auto simp: load_error_def)
  qed
  moreover have "length rs = length ?xs" using replay_fold_results [OF fold] by auto
  moreover have "distinct (map fst ?xs)" using assms(2,3) by simp
  moreover have "\<forall>x \<in> set ?xs. rank_setting R conv T lib files (fst (snd x))"
  proof
    fix x assume "x \<in> set ?xs"
    then obtain k where "k < world T" "x = (int k, ranks ! k, policies ! k)" using assms(2,3) by (auto simp: set_zip)
    with assms(4) show "rank_setting R conv T lib files (fst (snd x))" by simp
  qed
  ultimately have "\<forall>x \<in> set ?xs. rank_replayed R conv T files mem m (fst x) (fst (snd x))"
    using replay_fold_exact [of R T lib mem "[]" "[]" ?xs m ps rs conv files] fold by simp
  moreover have "(int k, ranks ! k, policies ! k) \<in> set ?xs" if "k < world T" for k
    using that assms(2,3) nth_mem [of k ?xs] by simp
  ultimately show ?thesis unfolding m by fastforce
qed


section \<open>A concrete replay\<close>

text \<open>Two ranks that copy single bytes: every other byte of one tensor, and a whole one.\<close>

definition demo_conv :: "string \<Rightarrow> string \<Rightarrow> byte list \<Rightarrow> byte list" where
  "demo_conv source dtype bs = take 1 (bs @ [0])"

definition demo_torch :: torch where
  "demo_torch = \<lparr>th_size = (\<lambda>name. if name = ''uint8'' then Some 1 else None),
     th_copy = (\<lambda>dst src dev mem. (write_view dev dst (map (demo_conv (tv_dtype src) (tv_dtype dst)) (read_view dev src mem)) mem, Inr ()))\<rparr>"

definition demo_copy :: "string \<Rightarrow> int \<Rightarrow> int \<Rightarrow> int list \<Rightarrow> int list \<Rightarrow> recovery_copy" where
  "demo_copy name off len shape stride =
     \<lparr>rc_source_name = name, rc_source_path = ''/m'', rc_source_dtype = ''U8'', rc_source_shape = [len],
      rc_source_file_offset = off, rc_source_length = len, rc_view_dtype = ''torch.uint8'', rc_view_offset = 0,
      rc_view_shape = shape, rc_view_stride = stride, rc_destination_name = ''w'', rc_destination_dtype = ''torch.uint8'',
      rc_destination_shape = shape, rc_destination_offset = 0, rc_destination_view_shape = shape,
      rc_destination_view_stride = contiguous_stride shape, rc_copy_bytes = prod_list shape\<rparr>"

definition demo_destinations :: "(string, live_tensor) dict" where
  "demo_destinations = [(''w'', \<lparr>lt_pointer = - 8, lt_bytes = 8, lt_storage_pointer = - 8, lt_storage_bytes = 8\<rparr>)]"

definition demo_rank :: "recovery_copy \<Rightarrow> replay_rank" where
  "demo_rank c = \<lparr>rr_alloc = (\<lambda>_. 1000), rr_copies = [c], rr_destinations = demo_destinations\<rparr>"

abbreviation demo_ranks :: "replay_rank list" where
  "demo_ranks \<equiv> [demo_rank (demo_copy ''b'' 115 3 [2] [2]), demo_rank (demo_copy ''a'' 113 2 [2] [1])]"

abbreviation demo_uneven :: "replay_rank list" where
  "demo_uneven \<equiv> [demo_rank (demo_copy ''b'' 115 3 [2] [2]), demo_rank (demo_copy ''ab'' 113 5 [5] [1])]"

lemma demo_sizes_ok: "sizes_ok demo_torch"
  by (simp add: sizes_ok_def demo_torch_def)

lemma demo_copies_views: "copies_views demo_torch demo_conv"
  unfolding copies_views_def using demo_sizes_ok
  by (auto simp: demo_torch_def demo_conv_def dtype_from_string_def split: if_splits)

lemma demo_setting:
  assumes "c = demo_copy ''b'' 115 3 [2] [2] \<or> c = demo_copy ''a'' 113 2 [2] [1]"
  shows "rank_setting demo_torch demo_conv (demo_transport m) demo_library (\<lambda>_. demo_shard) (demo_rank c)"
proof -
  have "destination_view demo_torch demo_destinations c =
      Inr \<lparr>tv_dtype = ''torch.uint8'', tv_size = 1, tv_address = - 8, tv_shape = [2], tv_stride = [1]\<rparr>"
    using assms by (elim disjE) (simp_all, code_simp, code_simp)
  then have "clear_of demo_torch demo_destinations {1000..<1000 + n} c" for n
    by (auto simp: clear_of_def footprint_def view_addresses_def upto.simps)
  moreover have "source_in_file demo_shard c"
    using assms by (elim disjE) (simp_all, code_simp, code_simp)
  moreover have "native_delivers (demo_transport m) demo_library path demo_shard" for path
    using demo_delivers [of m path] by (simp add: delivers_def demo_transport_def)
  ultimately show ?thesis
    using demo_copies_views by (simp add: replay_setting_def demo_rank_def)
qed

theorem packed_copy_exact_witness:
  "\<exists>xs. packed_copy_extents demo_torch (demo_copy ''b'' 115 3 [2] [2]) 0 = Inr xs
     \<and> packed_moves xs = {(115, 0), (117, 1)}"
proof -
  have "view_ok (demo_copy ''b'' 115 3 [2] [2]) \<and> \<not> isl (dtype_from_string demo_torch (rc_view_dtype (demo_copy ''b'' 115 3 [2] [2])))"
    by (simp add: view_ok_def demo_copy_def dtype_from_string_def demo_torch_def) code_simp
  moreover have "copy_moves demo_torch (demo_copy ''b'' 115 3 [2] [2]) 0 = {(115, 0), (117, 1)}"
  proof -
    have "stretch off dest 1 = {(off, dest)}" for off dest by (auto simp: stretch_def)
    then have "view_moves 115 1 [0, 2] 0 = {(115, 0), (117, 1)}"
      by (simp add: view_moves_def lessThan_Suc numeral_2_eq_2 insert_commute)
    moreover have "view_size demo_torch (demo_copy ''b'' 115 3 [2] [2]) = 1" "copy_offsets (demo_copy ''b'' 115 3 [2] [2]) = [0, 2]"
      by code_simp+
    ultimately show ?thesis by (simp add: demo_copy_def)
  qed
  ultimately show ?thesis
    using packed_copy_exact [OF demo_sizes_ok, of "demo_copy ''b'' 115 3 [2] [2]" 0] by auto
qed

theorem packed_replay_exact_witness:
  "\<exists>mem' ps. packed_replay demo_torch (demo_transport demo_mounts) demo_library demo_ranks (\<lambda>_ _. 0, [[], []]) = ((mem', ps), Inr ())
     \<and> read_mem mem' 0 (- 8) 2 = [3, 5] \<and> read_mem mem' 1 (- 8) 2 = [1, 2]
     \<and> rank_replayed demo_torch demo_conv (demo_transport demo_mounts) (\<lambda>_. demo_shard) (\<lambda>_ _. 0) mem' 0 (demo_ranks ! 0)"
proof -
  let ?T = "demo_transport demo_mounts"
  let ?run = "packed_replay demo_torch ?T demo_library demo_ranks (\<lambda>_ _. 0, [[], []])"
  have "case ?run of ((mem', _), r) \<Rightarrow> r = Inr () \<and> read_mem mem' 0 (- 8) 2 = [3, 5] \<and> read_mem mem' 1 (- 8) 2 = [1, 2]" by code_simp
  then obtain mem' ps where run: "?run = ((mem', ps), Inr ())"
    "read_mem mem' 0 (- 8) 2 = [3, 5]" "read_mem mem' 1 (- 8) 2 = [1, 2]" by (auto split: prod.splits)
  have w: "world ?T = 2" by (simp add: world_def demo_transport_def)
  have "collectives_ok ?T" using demo_delivers [of demo_mounts] by (simp add: delivers_def)
  moreover have "\<forall>k < world ?T. rank_setting demo_torch demo_conv ?T demo_library (\<lambda>_. demo_shard) (demo_ranks ! k)"
    using demo_setting by (auto simp: w less_2_cases_iff)
  ultimately have "\<forall>k < world ?T. rank_replayed demo_torch demo_conv ?T (\<lambda>_. demo_shard) (\<lambda>_ _. 0) mem' (int k) (demo_ranks ! k)"
    using packed_replay_exact [of ?T demo_ranks "[[], []]" demo_torch demo_conv demo_library "\<lambda>_. demo_shard" "\<lambda>_ _. 0" mem' ps] run(1) w by simp
  then have "rank_replayed demo_torch demo_conv ?T (\<lambda>_. demo_shard) (\<lambda>_ _. 0) mem' 0 (demo_ranks ! 0)" using w by force
  with run show ?thesis by blast
qed


end
