(* ===== verification/Spec2Isabelle.thy ===== *)
theory Spec2Isabelle
  imports Cold_Prelude Cold_Json Cold_Memory Cold_Hydration Cold_Device Cold_Validation
    Cold_Artifact Cold_Roundtrip Cold_Integrity Cold_Checkpoint Cold_DiskRow Cold_Coord Cold_Coordinator Cold_Topology Cold_Layout Cold_Providers
    Cold_Safetensors Cold_Recovery Cold_Delivery Cold_Replay
begin

text \<open>
  Verification of ColdSnap, which captures the device memory of a running inference engine and
  restores it into a fresh process. Source paths are relative to \<^verbatim>\<open>src/\<close>; \<^verbatim>\<open>core/\<close> stands for
  \<^verbatim>\<open>integrations/core/coldsnap_core/\<close> and \<^verbatim>\<open>vllm/\<close> for \<^verbatim>\<open>integrations/vllm/\<close>.

  \<^bold>\<open>The program.\<close> An engine worker owns device allocations that belong to memory regions. Before a
  checkpoint every rank has a plan for its regions and the ranks agree on it (\<^verbatim>\<open>core/memory.py\<close>);
  allocation providers answer for what is resident (\<^verbatim>\<open>vllm/coldsnap_graph_memory.py\<close>,
  \<^verbatim>\<open>vllm/coldsnap_vllm_memory.py\<close>), and a registry suspends what cannot enter a snapshot
  (\<^verbatim>\<open>core/checkpoint.py\<close>, with the disk row adapter \<^verbatim>\<open>vllm/coldsnap_b12x_checkpoint.py\<close>). Weights go
  to an artifact of a blob and a manifest and come back from it (\<^verbatim>\<open>core/artifact.py\<close>) through the
  native transfer library (\<^verbatim>\<open>core/hydration.py\<close>), after the payload was validated
  (\<^verbatim>\<open>core/validation.py\<close>); allocations of a new process are matched by what they mean
  (\<^verbatim>\<open>vllm/coldsnap_layout.py\<close>). Without an artifact the weights are read again from the safetensors
  checkpoint, once for the whole tensor-parallel group, or replayed from recorded copies
  (\<^verbatim>\<open>vllm/coldsnap_recovery_loader.py\<close>). Workers find their identity in an execution graph
  (\<^verbatim>\<open>core/topology.py\<close>) and meet in a coordinator (\<^verbatim>\<open>runtime/shared/coldsnap_coord.py\<close> is its
  client, \<^verbatim>\<open>internal/coord/\<close> the server).

  \<^bold>\<open>Conventions.\<close> A call that can raise returns \<open>exn + 'a\<close>, with a branch for every raise of the
  source; messages that interpolate values keep their constant part. Dictionaries are association
  lists in insertion order, \<^verbatim>\<open>bytes\<close> lists of 8-bit words, \<^verbatim>\<open>str\<close> HOL strings, so characters above
  U+00FF are outside the model. Device memory maps a device and an address to a byte, files are
  byte lists, structure fields of native calls and the counters of the coordinator are machine
  words. Code outside the repository is a parameter: \<open>pylib\<close> (digests and float text),
  \<open>native_library\<close>, \<open>b12x_lib\<close>, \<open>transport\<close>, \<open>torch\<close>. What is relied on is a named hypothesis
  (\<open>native_delivers\<close>, \<open>torch_delivers\<close>, \<open>broadcasts\<close>, \<open>collectives_ok\<close>, \<open>copies_views\<close>), and every
  property with hypotheses is applied to a concrete instance of them.

  \<^bold>\<open>Theories.\<close>
  \<^item> \<open>Cold_Prelude\<close>, \<open>Cold_Json\<close>: results, loops that stop at an exception, dictionaries, string
    methods, paths, alignment; \<^verbatim>\<open>json.dumps\<close> and \<^verbatim>\<open>json.loads\<close> with the proof that printing and
    reading are inverse and canonical text determines the value.
  \<^item> \<open>Cold_Memory\<close> (\<^verbatim>\<open>core/memory.py\<close>): layouts, plans, statistics and the two gates. Digests bind
    their descriptors, agreement is independent of the order of gathering, a returned plan is
    valid and needs only declared capabilities.
  \<^item> \<open>Cold_Device\<close>, \<open>Cold_Hydration\<close> (\<^verbatim>\<open>core/hydration.py\<close>): memory, CRC-32, the staged copy loops;
    extents, backend choice, the native calls. Native calls happen only under the documented
    guards, and digests survive the way through machine words.
  \<^item> \<open>Cold_Validation\<close> (\<^verbatim>\<open>core/validation.py\<close>): hashing with a cached record, external admissions.
    Acceptance is exact on files nobody else writes; a replacement between hashing and publishing
    is shown to be recorded wrongly.
  \<^item> \<open>Cold_Artifact\<close>, \<open>Cold_Roundtrip\<close>, \<open>Cold_Integrity\<close> (\<^verbatim>\<open>core/artifact.py\<close>): capture as a sequence
    of file operations and restore. Round trip into storages at other addresses, integrity of
    every successful restore, termination, and what every prefix of a capture leaves on disk.
  \<^item> \<open>Cold_Checkpoint\<close>, \<open>Cold_DiskRow\<close> (\<^verbatim>\<open>core/checkpoint.py\<close>, \<^verbatim>\<open>vllm/coldsnap_b12x_checkpoint.py\<close>,
    \<^verbatim>\<open>vllm/coldsnap_vllm_resources.py\<close>): the registry as functions and as a step relation between its
    critical sections. Exclusion and absence of failing assertions by rule induction, termination
    of transactions, calls as runs of the interleaved system. The locale \<open>checkpoint_contract\<close> is
    what an adapter promises; its interpretation \<open>disk_row\<close> is the disk row adapter.
  \<^item> \<open>Cold_Coord\<close>, \<open>Cold_Coordinator\<close>: frames, receive loop, client and server. Over any segmentation
    of the stream the client's operations are those of a map; limits hold for all input bytes and
    64-bit additions are exact or refused.
  \<^item> \<open>Cold_Topology\<close> (\<^verbatim>\<open>core/topology.py\<close>): graphs, worker identities, global ranks that agree with
    every source of a rank.
  \<^item> \<open>Cold_Layout\<close> (\<^verbatim>\<open>vllm/coldsnap_layout.py\<close>): the replay map embeds saved allocations into current
    ones of equal size and fingerprint.
  \<^item> \<open>Cold_Providers\<close>: graph controller, vLLM pool, KV payload selection, capacity guard. The locale
    \<open>lifecycle_provider\<close> is interpreted on both providers (\<open>graph_epochs\<close>, \<open>vllm_epochs\<close>): equal
    epochs mean that no lifecycle change happened in between.
  \<^item> \<open>Cold_Safetensors\<close>, \<open>Cold_Recovery\<close>, \<open>Cold_Delivery\<close> (\<^verbatim>\<open>_descriptors\<close> to
    \<^verbatim>\<open>recovery_weights_iterator\<close>): header reading, ownership with the rounding of Python's division,
    batches, slab views, direct and buffered reads, error fence, broadcasts, sample checks. The
    read plan moves exactly the owned bytes; every rank ends with the bytes of the checkpoint for
    every tensor, or every rank raises.
  \<^item> \<open>Cold_Replay\<close> (\<^verbatim>\<open>_packed_copy_extents\<close>, \<^verbatim>\<open>_rank_local_packed_work\<close>,
    \<^verbatim>\<open>_execute_rank_local_packed_replay\<close> and the copies they use): strided views as file ranges in
    row-major order, the packed slab, the copies into the model. Successful replay refines copying
    each view straight from the file; which ranks reach the status reduction is characterised,
    which shows ranks left waiting when a plan of another rank exceeds the staging budget.

  \<^bold>\<open>Bounds and fuel.\<close> The JSON scanner recurses on fuel of twice the length of the text, and
  \<open>scan_fuel\<close> proves that more changes nothing. The copy loops \<open>stage_out\<close>, \<open>stage_in\<close> and the hash
  loop may in principle run forever and are partial functions into an option; that they return is
  proved. The other loops are structural or come with a termination proof. Ranks are device
  numbers, one memory for the whole group; as ranks touch only their own device between
  collectives, running them in turn loses no interleaving.

  \<^bold>\<open>Not modelled.\<close> Timings, metrics and logging; sockets, threads and deadlines of the coordinator;
  the clone of a slab for isolated consumers and the mmap iterator of the recovery loader, whose
  bytes torch owns; the broadcast replay with its reader thread, the capture of copy plans and the
  storage adapters, which act through torch modules and hooks; the disk backend, CUDA epochs,
  graphs, NCCL, process templates and warm-up, which are calls into CUDA, vLLM and the kernel;
  the SGLang integration, which patches SGLang; the CRIU drivers, rank runtimes and supervisors,
  which drive processes and containers; the native C and C++ libraries, which appear as parameters;
  the Go command line, snapshot store and adapters, except for the coordinator; benchmarks and
  scripts.
\<close>

end
